(* ===== verification/Prelude.thy ===== *)
theory Prelude
  imports
    Main
    "HOL-Library.Word"
    "HOL-Library.Char_ord"
    "HOL-Library.List_Lexorder"
    "HOL-Library.Product_Lexorder"
    "HOL-Library.Sublist"
begin

text \<open>
  What every other theory shares: the names of the machine types, the \<open>Result\<close> and
  \<open>Poll\<close> types of the source with the operators the code composes them with
  (\<open>?\<close>, \<open>map_err\<close>, \<open>ok_or_else\<close>), generic lemmas on lists, and the two generic interfaces
  of the library: \<open>codec\<close> (an encoder with a decoder that inverts it) and
  \<open>transition_system\<close> (a start state, steps, and an invariant that the steps keep).

  A Rust \<open>String\<close>, \<open>&str\<close>, \<open>Vec<u8>\<close> or \<open>&[u8]\<close> is a list of bytes, and
  \<^typ>\<open>char\<close> is exactly a byte (it has 256 values), so all four are \<open>bytes\<close>; UTF-8
  validity, which a \<open>String\<close> guarantees and a \<open>&[u8]\<close> does not, is a predicate
  (\<open>from_utf8_ok\<close> in \<open>Rust_Std\<close>). \<open>usize\<close> is 64 bits wide: the crate builds only on
  x86\_64 and aarch64 (\<^verbatim>\<open>Cargo.toml\<close>).
\<close>

section \<open>Types\<close>

type_synonym bytes = "char list"
type_synonym u8 = "8 word"
type_synonym u16 = "16 word"
type_synonym u32 = "32 word"
type_synonym u64 = "64 word"

text \<open>\<open>Result<T, E>\<close>: the error is on the left.\<close>

type_synonym ('a, 'e) result = "'e + 'a"

text \<open>\<open>std::task::Poll\<close>.\<close>

datatype 'a poll = Pending | Ready 'a

section \<open>Result\<close>

text \<open>The \<open>?\<close> operator: go on with the value, or return the error.\<close>

definition try_bind :: "('a, 'e) result \<Rightarrow> ('a \<Rightarrow> ('b, 'e) result) \<Rightarrow> ('b, 'e) result" where
  "try_bind r f = (case r of Inl e \<Rightarrow> Inl e | Inr a \<Rightarrow> f a)"

definition map_err :: "('d \<Rightarrow> 'e) \<Rightarrow> ('a, 'd) result \<Rightarrow> ('a, 'e) result" where
  "map_err f r = (case r of Inl e \<Rightarrow> Inl (f e) | Inr a \<Rightarrow> Inr a)"

definition ok_or_else :: "'a option \<Rightarrow> 'e \<Rightarrow> ('a, 'e) result" where
  "ok_or_else v e = (case v of None \<Rightarrow> Inl e | Some a \<Rightarrow> Inr a)"

text \<open>\<open>Result::ok\<close>.\<close>

definition result_ok :: "('a, 'e) result \<Rightarrow> 'a option" where
  "result_ok r = (case r of Inl _ \<Rightarrow> None | Inr a \<Rightarrow> Some a)"

lemma try_bind_simps [simp]:
  "try_bind (Inl e) f = Inl e"
  "try_bind (Inr a) f = f a"
  by (simp_all add: try_bind_def)

lemma try_bind_Inr_iff:
  "try_bind r f = Inr b \<longleftrightarrow> (\<exists>a. r = Inr a \<and> f a = Inr b)"
  by (cases r) auto

lemma try_bind_Inl_iff:
  "try_bind r f = Inl e \<longleftrightarrow> r = Inl e \<or> (\<exists>a. r = Inr a \<and> f a = Inl e)"
  by (cases r) auto

lemma map_err_simps [simp]:
  "map_err f (Inl e) = Inl (f e)"
  "map_err f (Inr a) = Inr a"
  by (simp_all add: map_err_def)

lemma map_err_Inr_iff [simp]: "map_err f r = Inr a \<longleftrightarrow> r = Inr a"
  by (cases r) auto

lemma ok_or_else_simps [simp]:
  "ok_or_else None e = Inl e"
  "ok_or_else (Some a) e = Inr a"
  by (simp_all add: ok_or_else_def)

lemma ok_or_else_Inr_iff [simp]: "ok_or_else v e = Inr a \<longleftrightarrow> v = Some a"
  by (cases v) auto

lemma result_ok_simps [simp]:
  "result_ok (Inl e) = None"
  "result_ok (Inr a) = Some a"
  by (simp_all add: result_ok_def)

section \<open>Lists\<close>

lemma prefix_concat_append: "prefix (concat xs) (concat (xs @ ys))"
  by simp

lemma sum_list_length_concat: "sum_list (map length xss) = length (concat xss)"
  by (simp add: length_concat)

lemma map_conv_concat: "concat (map (\<lambda>x. [f x]) xs) = map f xs"
  by (induction xs) auto

lemma takeWhile_append_stop:
  "(\<And>x. x \<in> set xs \<Longrightarrow> P x) \<Longrightarrow> \<not> P y \<Longrightarrow> takeWhile P (xs @ y # ys) = xs"
  by (induction xs) auto

lemma dropWhile_append_stop:
  "(\<And>x. x \<in> set xs \<Longrightarrow> P x) \<Longrightarrow> \<not> P y \<Longrightarrow> dropWhile P (xs @ y # ys) = y # ys"
  by (induction xs) auto

section \<open>Words\<close>

lemma unat_add_no_wrap:
  fixes a b :: "'a::len word"
  assumes "unat a + unat b < 2 ^ LENGTH('a)"
  shows "unat (a + b) = unat a + unat b"
  using assms by (simp add: unat_word_ariths)

lemma unat_of_nat_no_wrap:
  "n < 2 ^ LENGTH('a) \<Longrightarrow> unat (of_nat n :: 'a::len word) = n"
  by (simp add: unat_of_nat)

lemma unat_add_of_nat:
  fixes a :: "'a::len word"
  assumes "unat a + n < 2 ^ LENGTH('a)"
  shows "unat (a + of_nat n) = unat a + n"
  using assms by (simp add: unat_word_ariths unat_of_nat)

lemma unat_sub_no_wrap:
  fixes a b :: "'a::len word"
  shows "unat b \<le> unat a \<Longrightarrow> unat (a - b) = unat a - unat b"
  by (simp add: unat_sub word_le_nat_alt)

lemma unat_u64_less: "unat (a :: u64) < 2 ^ 64"
  using unsigned_less [of a] by simp

section \<open>Interface: an encoder and its decoder\<close>

text \<open>
  What several parts of the crate rely on: text that goes onto the wire is read back as
  the value it was made from. The consequences the code needs (no two values share a
  text) are proved once here.
\<close>

locale codec =
  fixes enc :: "'a \<Rightarrow> 'b"
    and dec :: "'b \<Rightarrow> 'a"
    and valid :: "'a \<Rightarrow> bool"
  assumes dec_enc: "valid a \<Longrightarrow> dec (enc a) = a"
begin

lemma enc_inj: "valid a \<Longrightarrow> valid b \<Longrightarrow> enc a = enc b \<longleftrightarrow> a = b"
  by (metis dec_enc)

lemma enc_dec_enc: "valid a \<Longrightarrow> enc (dec (enc a)) = enc a"
  by (simp add: dec_enc)

lemma enc_inj_on: "inj_on enc {a. valid a}"
  by (auto simp: inj_on_def enc_inj)

lemma map_dec_enc: "(\<And>a. a \<in> set as \<Longrightarrow> valid a) \<Longrightarrow> map dec (map enc as) = as"
  by (induction as) (auto simp: dec_enc)

end

section \<open>Interface: a transition system and its invariant\<close>

text \<open>
  \<open>run\<close> is a list of inputs folded from the left; a component provides its start state,
  its step and an invariant that the step keeps, and gets that every state of every run
  has it.
\<close>

fun run_steps :: "('s \<Rightarrow> 'e \<Rightarrow> 's) \<Rightarrow> 's \<Rightarrow> 'e list \<Rightarrow> 's" where
  "run_steps step s [] = s"
| "run_steps step s (e # es) = run_steps step (step s e) es"

lemma run_steps_append:
  "run_steps step s (xs @ ys) = run_steps step (run_steps step s xs) ys"
  by (induction xs arbitrary: s) auto

fun steps_ok :: "('s \<Rightarrow> 'e \<Rightarrow> 's) \<Rightarrow> ('e \<Rightarrow> 's \<Rightarrow> bool) \<Rightarrow> 's \<Rightarrow> 'e list \<Rightarrow> bool" where
  "steps_ok step ok s [] = True"
| "steps_ok step ok s (e # es) = (ok e s \<and> steps_ok step ok (step s e) es)"

lemma steps_ok_always: "(\<And>e s. ok e s) \<Longrightarrow> steps_ok step ok s es"
  by (induction es arbitrary: s) auto

locale transition_system =
  fixes start :: "'s \<Rightarrow> bool"
    and step :: "'s \<Rightarrow> 'e \<Rightarrow> 's"
    and ok :: "'e \<Rightarrow> 's \<Rightarrow> bool"
    and inv :: "'s \<Rightarrow> bool"
  assumes start_inv: "start s \<Longrightarrow> inv s"
    and step_inv: "inv s \<Longrightarrow> ok e s \<Longrightarrow> inv (step s e)"
begin

lemma run_inv: "inv s \<Longrightarrow> steps_ok step ok s es \<Longrightarrow> inv (run_steps step s es)"
  by (induction es arbitrary: s) (auto intro: step_inv)

lemma run_from_start: "start s \<Longrightarrow> steps_ok step ok s es \<Longrightarrow> inv (run_steps step s es)"
  by (blast intro: start_inv run_inv)

end

end
