(* ===== verification/Rust_Std.thy ===== *)
theory Rust_Std
  imports Prelude
begin

text \<open>
  What the crate uses of the Rust standard library, over byte lists: UTF-8 validation and
  lossy decoding, decimal formatting and \<open>parse::<u64>\<close>, \<open>trim\<close>,
  \<open>eq_ignore_ascii_case\<close>, \<open>split\<close>, \<open>split_once\<close> and \<open>starts_with\<close>.
  The facts the components rely on: a formatted number parses back (interpretation
  \<open>dec_codec\<close>), a parsed number is below \<open>2 ^ 64\<close>, and splitting undoes joining.
\<close>

section \<open>Bytes and ASCII\<close>

abbreviation byte_val :: "char \<Rightarrow> nat" where
  "byte_val c \<equiv> of_char c"

definition in_range :: "nat \<Rightarrow> nat \<Rightarrow> char \<Rightarrow> bool" where
  "in_range lo hi c \<longleftrightarrow> lo \<le> byte_val c \<and> byte_val c \<le> hi"

definition is_ascii_digit :: "char \<Rightarrow> bool" where
  "is_ascii_digit c \<longleftrightarrow> in_range 48 57 c"

definition to_ascii_lowercase :: "char \<Rightarrow> char" where
  "to_ascii_lowercase c = (if in_range 65 90 c then char_of (byte_val c + 32) else c)"

definition eq_ignore_ascii_case :: "bytes \<Rightarrow> bytes \<Rightarrow> bool" where
  "eq_ignore_ascii_case a b \<longleftrightarrow> map to_ascii_lowercase a = map to_ascii_lowercase b"

lemma eq_ignore_ascii_case_refl [simp]: "eq_ignore_ascii_case a a"
  by (simp add: eq_ignore_ascii_case_def)

section \<open>UTF-8\<close>

text \<open>
  \<open>utf8_step\<close> looks at the first character of a non-empty byte list: whether it is
  well formed, and how many bytes it spans (for a malformed one, the maximal prefix that
  one replacement character stands for). The table is the one of
  \<open>core::str::lossy::Utf8Chunks\<close>.
\<close>

definition utf8_char_width :: "char \<Rightarrow> nat" where
  "utf8_char_width c =
     (if byte_val c < 128 then 1
      else if in_range 0xC2 0xDF c then 2
      else if in_range 0xE0 0xEF c then 3
      else if in_range 0xF0 0xF4 c then 4
      else 0)"

definition is_cont :: "char \<Rightarrow> bool" where
  "is_cont c \<longleftrightarrow> in_range 0x80 0xBF c"

definition second_ok :: "char \<Rightarrow> char \<Rightarrow> bool" where
  "second_ok b c \<longleftrightarrow>
     (if byte_val b = 0xE0 then in_range 0xA0 0xBF c
      else if byte_val b = 0xED then in_range 0x80 0x9F c
      else if byte_val b = 0xF0 then in_range 0x90 0xBF c
      else if byte_val b = 0xF4 then in_range 0x80 0x8F c
      else is_cont c)"

fun conts :: "nat \<Rightarrow> bytes \<Rightarrow> nat" where
  "conts (Suc n) (c # cs) = (if is_cont c then Suc (conts n cs) else 0)"
| "conts _ _ = 0"

fun utf8_step :: "bytes \<Rightarrow> bool \<times> nat" where
  "utf8_step [] = (False, 0)"
| "utf8_step [b] = (utf8_char_width b = 1, 1)"
| "utf8_step (b # c # cs) =
     (let w = utf8_char_width b in
      if w = 1 then (True, 1)
      else if w = 0 \<or> \<not> second_ok b c then (False, 1)
      else let k = 2 + conts (w - 2) cs in (k = w, k))"

lemma utf8_step_pos: "bs \<noteq> [] \<Longrightarrow> 0 < snd (utf8_step bs)"
  by (cases bs rule: utf8_step.cases) (auto simp: Let_def)

lemma utf8_step_shrinks: "bs \<noteq> [] \<Longrightarrow> length bs - snd (utf8_step bs) < length bs"
  using utf8_step_pos [of bs] by (cases bs) auto

function from_utf8_ok :: "bytes \<Rightarrow> bool" where
  "from_utf8_ok bs =
     (if bs = [] then True
      else fst (utf8_step bs) \<and> from_utf8_ok (drop (snd (utf8_step bs)) bs))"
  by pat_completeness auto
termination
  by (relation "measure length") (auto simp: utf8_step_shrinks)

declare from_utf8_ok.simps [simp del]

text \<open>\<open>String::from_utf8_lossy\<close>: every malformed piece becomes U+FFFD.\<close>

definition replacement_char :: bytes where
  "replacement_char = [CHR 0xEF, CHR 0xBF, CHR 0xBD]"

function from_utf8_lossy :: "bytes \<Rightarrow> bytes" where
  "from_utf8_lossy bs =
     (if bs = [] then []
      else (if fst (utf8_step bs) then take (snd (utf8_step bs)) bs else replacement_char)
           @ from_utf8_lossy (drop (snd (utf8_step bs)) bs))"
  by pat_completeness auto
termination
  by (relation "measure length") (auto simp: utf8_step_shrinks)

declare from_utf8_lossy.simps [simp del]

lemma from_utf8_ok_Nil [simp]: "from_utf8_ok []"
  by (simp add: from_utf8_ok.simps)

lemma from_utf8_lossy_Nil [simp]: "from_utf8_lossy [] = []"
  by (simp add: from_utf8_lossy.simps)

lemma utf8_step_ascii: "byte_val b < 128 \<Longrightarrow> utf8_step (b # bs) = (True, 1)"
  by (cases bs) (auto simp: utf8_char_width_def)

lemma from_utf8_ok_ascii_Cons [simp]:
  "byte_val b < 128 \<Longrightarrow> from_utf8_ok (b # bs) = from_utf8_ok bs"
  by (subst from_utf8_ok.simps) (simp add: utf8_step_ascii)

lemma from_utf8_lossy_ascii_Cons [simp]:
  "byte_val b < 128 \<Longrightarrow> from_utf8_lossy (b # bs) = b # from_utf8_lossy bs"
  by (subst from_utf8_lossy.simps) (simp add: utf8_step_ascii)

text \<open>Lossy decoding changes nothing that was valid.\<close>

lemma from_utf8_lossy_id: "from_utf8_ok bs \<Longrightarrow> from_utf8_lossy bs = bs"
proof (induction bs rule: from_utf8_ok.induct)
  case (1 bs)
  show ?case
  proof (cases "bs = []")
    case False
    with 1 show ?thesis
      by (subst from_utf8_lossy.simps) (auto simp: from_utf8_ok.simps [of bs])
  qed simp
qed

section \<open>Decimal numbers\<close>

definition digit_char :: "nat \<Rightarrow> char" where
  "digit_char d = char_of (48 + d)"

definition digit_val :: "char \<Rightarrow> nat" where
  "digit_val c = byte_val c - 48"

fun dec_of_nat :: "nat \<Rightarrow> bytes" where
  "dec_of_nat n =
     (if n < 10 then [digit_char n] else dec_of_nat (n div 10) @ [digit_char (n mod 10)])"

declare dec_of_nat.simps [simp del]

definition dec_of_int :: "int \<Rightarrow> bytes" where
  "dec_of_int i = (if i < 0 then ''-'' @ dec_of_nat (nat (- i)) else dec_of_nat (nat i))"

text \<open>
  \<open>str::parse::<u64>\<close>: an optional \<open>+\<close>, then at least one digit, and an error as soon as
  the number read so far does not fit.
\<close>

fun parse_digits :: "nat \<Rightarrow> bytes \<Rightarrow> nat option" where
  "parse_digits acc [] = Some acc"
| "parse_digits acc (c # cs) =
     (if is_ascii_digit c \<and> 10 * acc + digit_val c < 2 ^ 64
      then parse_digits (10 * acc + digit_val c) cs else None)"

definition parse_u64 :: "bytes \<Rightarrow> u64 option" where
  "parse_u64 s =
     (let ds = (case s of c # cs \<Rightarrow> if c = CHR ''+'' then cs else s | [] \<Rightarrow> s) in
      if ds = [] then None else map_option of_nat (parse_digits 0 ds))"

lemma digit_char_props:
  assumes "d < 10"
  shows "is_ascii_digit (digit_char d)" "digit_val (digit_char d) = d"
    "byte_val (digit_char d) = 48 + d"
  using assms by (simp_all add: is_ascii_digit_def digit_char_def digit_val_def in_range_def)

lemma dec_of_nat_digits: "c \<in> set (dec_of_nat n) \<Longrightarrow> is_ascii_digit c"
proof (induction n rule: dec_of_nat.induct)
  case (1 n)
  then show ?case
    by (cases "n < 10") (auto simp: dec_of_nat.simps [of n] digit_char_props)
qed

lemma dec_of_nat_not_Nil [simp]: "dec_of_nat n \<noteq> []"
  by (subst dec_of_nat.simps) simp

lemma parse_digits_append:
  "parse_digits acc (xs @ ys) =
     (case parse_digits acc xs of None \<Rightarrow> None | Some a \<Rightarrow> parse_digits a ys)"
  by (induction acc xs rule: parse_digits.induct) auto

lemma parse_digits_dec: "n < 2 ^ 64 \<Longrightarrow> parse_digits 0 (dec_of_nat n) = Some n"
proof (induction n rule: dec_of_nat.induct)
  case (1 n)
  show ?case
  proof (cases "n < 10")
    case True
    with 1 show ?thesis by (simp add: dec_of_nat.simps [of n] digit_char_props)
  next
    case False
    have "n mod 10 < 10" by simp
    with False 1 show ?thesis
      by (simp add: dec_of_nat.simps [of n] parse_digits_append digit_char_props)
  qed
qed

lemma parse_digits_bound: "parse_digits acc s = Some n \<Longrightarrow> acc < 2 ^ 64 \<Longrightarrow> n < 2 ^ 64"
  by (induction acc s rule: parse_digits.induct) (auto split: if_splits)

lemma is_ascii_digit_iff: "is_ascii_digit c \<longleftrightarrow> 48 \<le> byte_val c \<and> byte_val c \<le> 57"
  by (simp add: is_ascii_digit_def in_range_def)

lemma plus_not_digit [simp]: "\<not> is_ascii_digit CHR ''+''"
  by (simp add: is_ascii_digit_iff)

lemma parse_u64_dec: "n < 2 ^ 64 \<Longrightarrow> parse_u64 (dec_of_nat n) = Some (of_nat n)"
proof -
  assume n: "n < 2 ^ 64"
  obtain c cs where eq: "dec_of_nat n = c # cs"
    by (cases "dec_of_nat n") auto
  then have "is_ascii_digit c"
    using dec_of_nat_digits [of c n] by simp
  then have "c \<noteq> CHR ''+''" by auto
  with eq n show ?thesis
    using parse_digits_dec [of n] by (simp add: parse_u64_def)
qed

definition u64_to_string :: "u64 \<Rightarrow> bytes" where
  "u64_to_string n = dec_of_nat (unat n)"

lemma parse_u64_to_string: "parse_u64 (u64_to_string n) = Some n"
  using parse_u64_dec [OF unat_u64_less, of n] by (simp add: u64_to_string_def)

interpretation dec_codec: codec u64_to_string "\<lambda>s. the (parse_u64 s)" "\<lambda>_. True"
  by unfold_locales (simp add: parse_u64_to_string)

text \<open>No byte of a formatted number is one of the separators of the wire formats.\<close>

lemma dec_of_nat_no_sep: "\<not> is_ascii_digit c \<Longrightarrow> c \<notin> set (dec_of_nat n)"
  using dec_of_nat_digits by blast

section \<open>trim\<close>

text \<open>The encodings of the characters with the Unicode property \<open>White_Space\<close>.\<close>

definition ws_encodings :: "bytes list" where
  "ws_encodings =
     map (\<lambda>c. [c]) [CHR 0x09, CHR 0x0A, CHR 0x0B, CHR 0x0C, CHR 0x0D, CHR 0x20]
     @ [[CHR 0xC2, CHR 0x85], [CHR 0xC2, CHR 0xA0], [CHR 0xE1, CHR 0x9A, CHR 0x80]]
     @ map (\<lambda>c. [CHR 0xE2, CHR 0x80, c])
         [CHR 0x80, CHR 0x81, CHR 0x82, CHR 0x83, CHR 0x84, CHR 0x85, CHR 0x86, CHR 0x87,
          CHR 0x88, CHR 0x89, CHR 0x8A, CHR 0xA8, CHR 0xA9, CHR 0xAF]
     @ [[CHR 0xE2, CHR 0x81, CHR 0x9F], [CHR 0xE3, CHR 0x80, CHR 0x80]]"

definition leading_word :: "bytes list \<Rightarrow> bytes \<Rightarrow> bytes option" where
  "leading_word ws bs = find (\<lambda>w. w \<noteq> [] \<and> prefix w bs) ws"

lemma leading_word_SomeD: "leading_word ws bs = Some w \<Longrightarrow> w \<noteq> [] \<and> prefix w bs"
  by (auto simp: leading_word_def find_Some_iff)

function strip_front :: "bytes list \<Rightarrow> bytes \<Rightarrow> bytes" where
  "strip_front ws bs =
     (case leading_word ws bs of
        None \<Rightarrow> bs
      | Some w \<Rightarrow> strip_front ws (drop (length w) bs))"
  by pat_completeness auto
termination
  by (relation "measure (\<lambda>(ws, bs). length bs)")
    (auto dest!: leading_word_SomeD simp: prefix_def)

declare strip_front.simps [simp del]

definition trim :: "bytes \<Rightarrow> bytes" where
  "trim s = rev (strip_front (map rev ws_encodings) (rev (strip_front ws_encodings s)))"

lemma strip_front_none: "leading_word ws bs = None \<Longrightarrow> strip_front ws bs = bs"
  by (simp add: strip_front.simps)

lemma leading_word_none_if_ascii:
  assumes "bs = [] \<or> (\<forall>w\<in>set ws. w \<noteq> [] \<longrightarrow> hd w \<noteq> hd bs)"
  shows "leading_word ws bs = None"
  using assms
  by (cases bs) (auto simp: leading_word_def find_None_iff prefix_def neq_Nil_conv)

text \<open>A text whose first and last byte are visible ASCII characters is its own \<open>trim\<close>.\<close>

definition visible :: "char \<Rightarrow> bool" where
  "visible c \<longleftrightarrow> in_range 0x21 0x7E c"

lemma trim_visible:
  assumes "s \<noteq> [] \<Longrightarrow> visible (hd s) \<and> visible (last s)"
  shows "trim s = s"
proof (cases "s = []")
  case False
  have ws: "\<forall>w\<in>set ws_encodings. w \<noteq> [] \<longrightarrow> \<not> visible (hd w) \<and> \<not> visible (last w)"
    by (simp add: ws_encodings_def visible_def in_range_def)
  have "leading_word ws_encodings s = None"
    by (rule leading_word_none_if_ascii) (use ws assms False in metis)
  moreover have "leading_word (map rev ws_encodings) (rev s) = None"
    by (rule leading_word_none_if_ascii) (use ws assms False in \<open>fastforce simp: hd_rev\<close>)
  ultimately show ?thesis by (simp add: trim_def strip_front_none)
qed (simp add: trim_def strip_front_none leading_word_none_if_ascii)

lemma trim_digits:
  assumes "\<And>c. c \<in> set s \<Longrightarrow> is_ascii_digit c"
  shows "trim s = s"
proof (rule trim_visible)
  assume "s \<noteq> []"
  then have "is_ascii_digit (hd s)" "is_ascii_digit (last s)" using assms by simp_all
  then show "visible (hd s) \<and> visible (last s)" by (simp add: is_ascii_digit_iff visible_def in_range_def)
qed

lemma trim_dec_of_nat [simp]: "trim (dec_of_nat n) = dec_of_nat n"
  by (rule trim_digits) (rule dec_of_nat_digits)

lemma trim_u64_to_string [simp]: "trim (u64_to_string n) = u64_to_string n"
  by (simp add: u64_to_string_def)

section \<open>Splitting and joining\<close>

text \<open>\<open>str::split(char)\<close>: always at least one piece.\<close>

fun split_on :: "char \<Rightarrow> bytes \<Rightarrow> bytes list" where
  "split_on sep [] = [[]]"
| "split_on sep (c # cs) =
     (if c = sep then [] # split_on sep cs
      else case split_on sep cs of [] \<Rightarrow> [[c]] | p # ps \<Rightarrow> (c # p) # ps)"

text \<open>\<open>str::split_once(char)\<close>.\<close>

fun split_once :: "char \<Rightarrow> bytes \<Rightarrow> (bytes \<times> bytes) option" where
  "split_once sep [] = None"
| "split_once sep (c # cs) =
     (if c = sep then Some ([], cs)
      else map_option (\<lambda>(a, b). (c # a, b)) (split_once sep cs))"

text \<open>\<open>slice::join\<close>.\<close>

fun join_with :: "bytes \<Rightarrow> bytes list \<Rightarrow> bytes" where
  "join_with sep [] = []"
| "join_with sep [p] = p"
| "join_with sep (p # q # ps) = p @ sep @ join_with sep (q # ps)"

lemma split_on_not_Nil [simp]: "split_on sep s \<noteq> []"
  by (induction s) (auto split: list.split)

lemma split_on_no_sep: "sep \<notin> set s \<Longrightarrow> split_on sep s = [s]"
  by (induction s) auto

lemma split_on_append:
  "sep \<notin> set a \<Longrightarrow> split_on sep (a @ sep # b) = a # split_on sep b"
  by (induction a) auto

lemma split_on_join:
  assumes "ps \<noteq> []" "\<And>p. p \<in> set ps \<Longrightarrow> sep \<notin> set p"
  shows "split_on sep (join_with [sep] ps) = ps"
  using assms
  by (induction "[sep]" ps rule: join_with.induct) (auto simp: split_on_append split_on_no_sep)

lemma split_once_append:
  "sep \<notin> set a \<Longrightarrow> split_once sep (a @ sep # b) = Some (a, b)"
  by (induction a) auto

lemma split_once_none: "split_once sep s = None \<longleftrightarrow> sep \<notin> set s"
  by (induction s) auto

lemma split_once_SomeD: "split_once sep s = Some (a, b) \<Longrightarrow> s = a @ sep # b \<and> sep \<notin> set a"
  by (induction s arbitrary: a) (auto split: if_splits)

lemma join_with_Cons:
  "join_with sep (p # ps) = (if ps = [] then p else p @ sep @ join_with sep ps)"
  by (cases ps) auto

lemma join_with_append:
  "join_with sep (ps @ qs) =
     (if ps = [] then join_with sep qs else if qs = [] then join_with sep ps
      else join_with sep ps @ sep @ join_with sep qs)"
  by (induction ps) (auto simp: join_with_Cons)

lemma set_join_with:
  "set (join_with sep ps) \<subseteq> set sep \<union> (\<Union>p\<in>set ps. set p)"
  by (induction sep ps rule: join_with.induct) auto

text \<open>\<open>str::starts_with\<close> and the text behind a literal prefix.\<close>

abbreviation starts_with :: "bytes \<Rightarrow> bytes \<Rightarrow> bool" where
  "starts_with s p \<equiv> prefix p s"

section \<open>Debug\<close>

text \<open>
  What a \<open>Debug\<close> implementation built with \<open>debug_struct(...).field(...)\<close> and
  \<open>finish_non_exhaustive\<close> shows: a name and fields with their values. How the standard
  library lays them out is left out.
\<close>

datatype debug_value =
    DebugStr bytes
  | DebugNum nat
  | DebugBool bool
  | DebugOpt "debug_value option"

type_synonym debug_struct = "bytes \<times> (bytes \<times> debug_value) list"

end
