(* ===== verification/S3_Region.thy ===== *)
theory S3_Region
  imports Rust_Std
begin

text \<open>
  \<^verbatim>\<open>src/region.rs\<close>: the region a client is configured for. \<open>S3Region\<close> has the
  source's variants (\<open>Other\<close> is \<open>OtherRegion\<close>, to leave the name to the error type),
  \<open>as_str\<close> and \<open>from_str\<close> are its two matches in the source's order. Shown: parsing
  never changes the text (interpretation \<open>region_text\<close>), a region is read back as itself
  unless it is a hand-made \<open>Other\<close> of a catalogued name, and \<open>us-east-1\<close> is recognised
  by its text.
\<close>

section \<open>Definitions\<close>

datatype S3Region =
    AwsUsEast1 | AwsUsEast2 | AwsUsWest1 | AwsUsWest2
  | AwsCaCentral1 | AwsCaWest1 | AwsMxCentral1 | AwsSaEast1
  | AwsEuWest1 | AwsEuWest2 | AwsEuWest3 | AwsEuCentral1
  | AwsEuCentral2 | AwsEuNorth1 | AwsEuSouth1 | AwsEuSouth2
  | AwsApEast1 | AwsApSouth1 | AwsApSouth2 | AwsApSoutheast1
  | AwsApSoutheast2 | AwsApSoutheast3 | AwsApSoutheast4 | AwsApNortheast1
  | AwsApNortheast2 | AwsApNortheast3 | AwsMeCentral1 | AwsMeSouth1
  | AwsIlCentral1 | AwsAfSouth1 | AwsUsGovEast1 | AwsUsGovWest1
  | AwsCnNorth1 | AwsCnNorthwest1 | HetznerFsn1 | HetznerNbg1
  | HetznerHel1
  | OtherRegion bytes

primrec as_str :: "S3Region \<Rightarrow> bytes" where
  "as_str AwsUsEast1 = ''us-east-1''"
| "as_str AwsUsEast2 = ''us-east-2''"
| "as_str AwsUsWest1 = ''us-west-1''"
| "as_str AwsUsWest2 = ''us-west-2''"
| "as_str AwsCaCentral1 = ''ca-central-1''"
| "as_str AwsCaWest1 = ''ca-west-1''"
| "as_str AwsMxCentral1 = ''mx-central-1''"
| "as_str AwsSaEast1 = ''sa-east-1''"
| "as_str AwsEuWest1 = ''eu-west-1''"
| "as_str AwsEuWest2 = ''eu-west-2''"
| "as_str AwsEuWest3 = ''eu-west-3''"
| "as_str AwsEuCentral1 = ''eu-central-1''"
| "as_str AwsEuCentral2 = ''eu-central-2''"
| "as_str AwsEuNorth1 = ''eu-north-1''"
| "as_str AwsEuSouth1 = ''eu-south-1''"
| "as_str AwsEuSouth2 = ''eu-south-2''"
| "as_str AwsApEast1 = ''ap-east-1''"
| "as_str AwsApSouth1 = ''ap-south-1''"
| "as_str AwsApSouth2 = ''ap-south-2''"
| "as_str AwsApSoutheast1 = ''ap-southeast-1''"
| "as_str AwsApSoutheast2 = ''ap-southeast-2''"
| "as_str AwsApSoutheast3 = ''ap-southeast-3''"
| "as_str AwsApSoutheast4 = ''ap-southeast-4''"
| "as_str AwsApNortheast1 = ''ap-northeast-1''"
| "as_str AwsApNortheast2 = ''ap-northeast-2''"
| "as_str AwsApNortheast3 = ''ap-northeast-3''"
| "as_str AwsMeCentral1 = ''me-central-1''"
| "as_str AwsMeSouth1 = ''me-south-1''"
| "as_str AwsIlCentral1 = ''il-central-1''"
| "as_str AwsAfSouth1 = ''af-south-1''"
| "as_str AwsUsGovEast1 = ''us-gov-east-1''"
| "as_str AwsUsGovWest1 = ''us-gov-west-1''"
| "as_str AwsCnNorth1 = ''cn-north-1''"
| "as_str AwsCnNorthwest1 = ''cn-northwest-1''"
| "as_str HetznerFsn1 = ''fsn1''"
| "as_str HetznerNbg1 = ''nbg1''"
| "as_str HetznerHel1 = ''hel1''"
| "as_str (OtherRegion region) = region"

definition from_str :: "bytes \<Rightarrow> S3Region" where
  "from_str src =
     (if src = ''us-east-1'' then AwsUsEast1
      else if src = ''us-east-2'' then AwsUsEast2
      else if src = ''us-west-1'' then AwsUsWest1
      else if src = ''us-west-2'' then AwsUsWest2
      else if src = ''ca-central-1'' then AwsCaCentral1
      else if src = ''ca-west-1'' then AwsCaWest1
      else if src = ''mx-central-1'' then AwsMxCentral1
      else if src = ''sa-east-1'' then AwsSaEast1
      else if src = ''eu-west-1'' then AwsEuWest1
      else if src = ''eu-west-2'' then AwsEuWest2
      else if src = ''eu-west-3'' then AwsEuWest3
      else if src = ''eu-central-1'' then AwsEuCentral1
      else if src = ''eu-central-2'' then AwsEuCentral2
      else if src = ''eu-north-1'' then AwsEuNorth1
      else if src = ''eu-south-1'' then AwsEuSouth1
      else if src = ''eu-south-2'' then AwsEuSouth2
      else if src = ''ap-east-1'' then AwsApEast1
      else if src = ''ap-south-1'' then AwsApSouth1
      else if src = ''ap-south-2'' then AwsApSouth2
      else if src = ''ap-southeast-1'' then AwsApSoutheast1
      else if src = ''ap-southeast-2'' then AwsApSoutheast2
      else if src = ''ap-southeast-3'' then AwsApSoutheast3
      else if src = ''ap-southeast-4'' then AwsApSoutheast4
      else if src = ''ap-northeast-1'' then AwsApNortheast1
      else if src = ''ap-northeast-2'' then AwsApNortheast2
      else if src = ''ap-northeast-3'' then AwsApNortheast3
      else if src = ''me-central-1'' then AwsMeCentral1
      else if src = ''me-south-1'' then AwsMeSouth1
      else if src = ''il-central-1'' then AwsIlCentral1
      else if src = ''af-south-1'' then AwsAfSouth1
      else if src = ''us-gov-east-1'' then AwsUsGovEast1
      else if src = ''us-gov-west-1'' then AwsUsGovWest1
      else if src = ''cn-north-1'' then AwsCnNorth1
      else if src = ''cn-northwest-1'' then AwsCnNorthwest1
      else if src = ''fsn1'' then HetznerFsn1
      else if src = ''nbg1'' then HetznerNbg1
      else if src = ''hel1'' then HetznerHel1
      else OtherRegion src)"

definition is_us_east_1 :: "S3Region \<Rightarrow> bool" where
  "is_us_east_1 r \<longleftrightarrow> as_str r = ''us-east-1''"

definition region_is_empty :: "S3Region \<Rightarrow> bool" where
  "region_is_empty r \<longleftrightarrow> as_str r = []"

text \<open>\<open>Display\<close>, and the three \<open>From\<close> conversions.\<close>

definition region_fmt :: "S3Region \<Rightarrow> bytes" where
  "region_fmt r = as_str r"

definition region_from_str_ref :: "bytes \<Rightarrow> S3Region" where
  "region_from_str_ref v = from_str v"

definition region_from_string :: "bytes \<Rightarrow> S3Region" where
  "region_from_string v = (case from_str v of OtherRegion _ \<Rightarrow> OtherRegion v | known \<Rightarrow> known)"

definition region_from_string_ref :: "bytes \<Rightarrow> S3Region" where
  "region_from_string_ref v = from_str v"

section \<open>Facts\<close>

text \<open>The named variants, and the texts they stand for.\<close>

definition catalogue :: "S3Region list" where
  "catalogue =
     [AwsUsEast1, AwsUsEast2, AwsUsWest1, AwsUsWest2,
      AwsCaCentral1, AwsCaWest1, AwsMxCentral1, AwsSaEast1,
      AwsEuWest1, AwsEuWest2, AwsEuWest3, AwsEuCentral1,
      AwsEuCentral2, AwsEuNorth1, AwsEuSouth1, AwsEuSouth2,
      AwsApEast1, AwsApSouth1, AwsApSouth2, AwsApSoutheast1,
      AwsApSoutheast2, AwsApSoutheast3, AwsApSoutheast4, AwsApNortheast1,
      AwsApNortheast2, AwsApNortheast3, AwsMeCentral1, AwsMeSouth1,
      AwsIlCentral1, AwsAfSouth1, AwsUsGovEast1, AwsUsGovWest1,
      AwsCnNorth1, AwsCnNorthwest1, HetznerFsn1, HetznerNbg1,
      HetznerHel1]"

lemma catalogue_or_other: "r \<in> set catalogue \<or> (\<exists>s. r = OtherRegion s)"
  by (cases r) (simp_all add: catalogue_def)

lemma as_str_from_str [simp]: "as_str (from_str s) = s"
  by (simp add: from_str_def)

lemma from_str_as_str_catalogue: "r \<in> set catalogue \<Longrightarrow> from_str (as_str r) = r"
  by (cases r) (simp_all add: from_str_def catalogue_def)

lemma from_str_unknown: "s \<notin> as_str ` set catalogue \<Longrightarrow> from_str s = OtherRegion s"
  by (simp add: from_str_def catalogue_def)

text \<open>A parsed region is one the parser can give back: the texts that are not hand-made.\<close>

definition parsed_region :: "S3Region \<Rightarrow> bool" where
  "parsed_region r \<longleftrightarrow> (\<forall>s. r = OtherRegion s \<longrightarrow> s \<notin> as_str ` set catalogue)"

interpretation region_text: codec from_str as_str "\<lambda>_. True"
  by unfold_locales simp

interpretation region_value: codec as_str from_str parsed_region
proof
  fix r assume "parsed_region r"
  then show "from_str (as_str r) = r"
    using catalogue_or_other [of r]
    by (auto simp: parsed_region_def from_str_as_str_catalogue from_str_unknown)
qed

lemma parsed_region_from_str: "parsed_region (from_str s)"
proof (cases "s \<in> as_str ` set catalogue")
  case True
  then obtain r where "r \<in> set catalogue" "s = as_str r" by blast
  then show ?thesis
    by (auto simp: parsed_region_def from_str_as_str_catalogue catalogue_def)
next
  case False
  then show ?thesis by (simp add: parsed_region_def from_str_unknown)
qed

lemma from_str_us_east_1 [simp]: "is_us_east_1 (from_str s) \<longleftrightarrow> s = ''us-east-1''"
  by (simp add: is_us_east_1_def)

lemma region_conversions:
  "region_from_str_ref v = from_str v"
  "region_from_string v = from_str v"
  "region_from_string_ref v = from_str v"
proof -
  show "region_from_string v = from_str v"
    using as_str_from_str [of v]
    by (cases "from_str v") (simp_all add: region_from_string_def)
qed (simp_all add: region_from_str_ref_def region_from_string_ref_def)


text \<open>
  C19: a region read from configuration and written back is the same text, whatever the
  text; the three conversions agree with the parser; the named variants have distinct
  texts and each is the parse of its own; every other text is carried verbatim.
\<close>

theorem region_round_trip:
  "as_str (from_str s) = s
   \<and> region_from_string s = from_str s
   \<and> distinct (map as_str catalogue)
   \<and> map from_str (map as_str catalogue) = catalogue
   \<and> (from_str s = OtherRegion s \<longleftrightarrow> s \<notin> set (map as_str catalogue))"
proof (intro conjI)
  show "distinct (map as_str catalogue)" by (simp add: catalogue_def)
  show "map from_str (map as_str catalogue) = catalogue"
    by (rule region_value.map_dec_enc) (auto simp: parsed_region_def catalogue_def)
  show "from_str s = OtherRegion s \<longleftrightarrow> s \<notin> set (map as_str catalogue)"
    using parsed_region_from_str [of s] by (auto simp: parsed_region_def from_str_unknown)
qed (simp_all add: region_conversions)

end
