(* ===== verification/S3_Error.thy ===== *)
theory S3_Error
  imports Rust_Std
begin

text \<open>
  \<^verbatim>\<open>src/error.rs\<close>: the error every operation of the crate returns, and
  \<open>std::io::Error\<close>, which carries one inside when a reader's request failed
  (\<open>to_io_error\<close> of \<^verbatim>\<open>src/reader.rs\<close>) and is carried by one when an upload's body
  could not be produced.

  \<open>FlUrlError\<close> belongs to the HTTP client the crate calls. The crate only ever asks a value
  of it whether it is a timeout, which of four groups of variants it is in, and for its
  \<open>Debug\<close> and \<open>Display\<close> texts; \<open>fl_url_error\<close> is the record of those answers. Every such
  value comes out of an argument that stands for the HTTP client.
\<close>

section \<open>Definitions\<close>

text \<open>
  The kinds of \<open>std::io::ErrorKind\<close> the crate makes itself; every other kind, which only a
  caller's producer can bring, is \<open>AnyKind\<close>.
\<close>

datatype io_error_kind =
    NotFound | BrokenPipe | InvalidInput | InvalidData | UnexpectedEof | OtherKind
  | AnyKind nat

datatype fl_url_error_variant =
    FlIoError
  | FlReadingHyperBodyError
  | FlMyHttpClientError bool  \<comment> \<open>what the inner error's own \<open>is_retryable\<close> answers\<close>
  | FlOtherVariant

record fl_url_error =
  fl_is_timeout :: bool
  fl_variant :: fl_url_error_variant
  fl_debug :: bytes
  fl_display :: bytes

datatype S3Error =
    FlUrlError fl_url_error
  | BucketAlreadyExists
  | BucketAlreadyOwnedByYou
  | BucketNotFound
  | KeyNotFound
  | NoSuchUpload
  | EntityTooSmall
  | RangeNotSatisfiable
  | UnexpectedStatusCode u16 "bytes option" bytes
  | UploadProducerFailed io_error
  | Other bytes
and io_error =
    IoMessage io_error_kind bytes
  | IoSource io_error_kind S3Error

primrec io_error_kind_of :: "io_error \<Rightarrow> io_error_kind" where
  "io_error_kind_of (IoMessage k m) = k"
| "io_error_kind_of (IoSource k e) = k"

definition is_bucket_already_exists :: "S3Error \<Rightarrow> bool" where
  "is_bucket_already_exists e \<longleftrightarrow> (case e of BucketAlreadyExists \<Rightarrow> True | _ \<Rightarrow> False)"

definition is_bucket_already_owned_by_you :: "S3Error \<Rightarrow> bool" where
  "is_bucket_already_owned_by_you e \<longleftrightarrow> (case e of BucketAlreadyOwnedByYou \<Rightarrow> True | _ \<Rightarrow> False)"

definition bucket_name_is_taken :: "S3Error \<Rightarrow> bool" where
  "bucket_name_is_taken e \<longleftrightarrow>
     (case e of BucketAlreadyExists \<Rightarrow> True | BucketAlreadyOwnedByYou \<Rightarrow> True | _ \<Rightarrow> False)"

definition is_bucket_not_found :: "S3Error \<Rightarrow> bool" where
  "is_bucket_not_found e \<longleftrightarrow> (case e of BucketNotFound \<Rightarrow> True | _ \<Rightarrow> False)"

definition is_key_not_found :: "S3Error \<Rightarrow> bool" where
  "is_key_not_found e \<longleftrightarrow> (case e of KeyNotFound \<Rightarrow> True | _ \<Rightarrow> False)"

definition is_no_such_upload :: "S3Error \<Rightarrow> bool" where
  "is_no_such_upload e \<longleftrightarrow> (case e of NoSuchUpload \<Rightarrow> True | _ \<Rightarrow> False)"

definition is_entity_too_small :: "S3Error \<Rightarrow> bool" where
  "is_entity_too_small e \<longleftrightarrow> (case e of EntityTooSmall \<Rightarrow> True | _ \<Rightarrow> False)"

definition is_range_not_satisfiable :: "S3Error \<Rightarrow> bool" where
  "is_range_not_satisfiable e \<longleftrightarrow> (case e of RangeNotSatisfiable \<Rightarrow> True | _ \<Rightarrow> False)"

definition is_upload_producer_failed :: "S3Error \<Rightarrow> bool" where
  "is_upload_producer_failed e \<longleftrightarrow> (case e of UploadProducerFailed _ \<Rightarrow> True | _ \<Rightarrow> False)"

definition get_upload_producer_error :: "S3Error \<Rightarrow> io_error option" where
  "get_upload_producer_error e = (case e of UploadProducerFailed err \<Rightarrow> Some err | _ \<Rightarrow> None)"

definition get_status_code :: "S3Error \<Rightarrow> u16 option" where
  "get_status_code e = (case e of UnexpectedStatusCode sc _ _ \<Rightarrow> Some sc | _ \<Rightarrow> None)"

text \<open>The codes S3 asks for a retry by.\<close>

definition retry_by_name :: "bytes list" where
  "retry_by_name =
     [''SlowDown'', ''RequestTimeout'', ''RequestTimeTooSkewed'', ''InternalError'',
      ''ServiceUnavailable'']"

definition fl_url_error_is_retryable :: "fl_url_error \<Rightarrow> bool" where
  "fl_url_error_is_retryable err =
     (if fl_is_timeout err then True
      else case fl_variant err of
             FlIoError \<Rightarrow> True
           | FlReadingHyperBodyError \<Rightarrow> True
           | FlMyHttpClientError b \<Rightarrow> b
           | FlOtherVariant \<Rightarrow> False)"

primrec is_retryable :: "S3Error \<Rightarrow> bool" where
  "is_retryable (FlUrlError err) = fl_url_error_is_retryable err"
| "is_retryable (UnexpectedStatusCode status_code error_code body) =
     (if (case error_code of Some c \<Rightarrow> c \<in> set retry_by_name | None \<Rightarrow> False) then True
      else status_code \<ge> 500 \<or> status_code = 429)"
| "is_retryable BucketAlreadyExists = False"
| "is_retryable BucketAlreadyOwnedByYou = False"
| "is_retryable BucketNotFound = False"
| "is_retryable KeyNotFound = False"
| "is_retryable NoSuchUpload = False"
| "is_retryable EntityTooSmall = False"
| "is_retryable RangeNotSatisfiable = False"
| "is_retryable (UploadProducerFailed err) = False"
| "is_retryable (Other msg) = False"

text \<open>\<open>Display\<close> of both error types.\<close>

primrec s3_error_fmt :: "S3Error \<Rightarrow> bytes"
  and io_error_fmt :: "io_error \<Rightarrow> bytes" where
  "s3_error_fmt (FlUrlError err) = ''FlUrl error: '' @ fl_debug err"
| "s3_error_fmt BucketAlreadyExists = ''BucketAlreadyExists''"
| "s3_error_fmt BucketAlreadyOwnedByYou = ''BucketAlreadyOwnedByYou''"
| "s3_error_fmt BucketNotFound = ''NoSuchBucket''"
| "s3_error_fmt KeyNotFound = ''NoSuchKey''"
| "s3_error_fmt NoSuchUpload = ''NoSuchUpload''"
| "s3_error_fmt EntityTooSmall = ''EntityTooSmall''"
| "s3_error_fmt RangeNotSatisfiable = ''RangeNotSatisfiable''"
| "s3_error_fmt (UnexpectedStatusCode status_code error_code body) =
     ''Status Code: '' @ dec_of_nat (unat status_code) @ ''. Err: '' @ body"
| "s3_error_fmt (UploadProducerFailed err) =
     ''The upload body could not be produced: '' @ io_error_fmt err"
| "s3_error_fmt (Other msg) = msg"
| "io_error_fmt (IoMessage k m) = m"
| "io_error_fmt (IoSource k e) = s3_error_fmt e"

text \<open>The \<open>From\<close> conversions that \<open>?\<close> goes through.\<close>

definition from_fl_url_error :: "fl_url_error \<Rightarrow> S3Error" where
  "from_fl_url_error value = FlUrlError value"

definition from_string :: "bytes \<Rightarrow> S3Error" where
  "from_string value = Other value"

section \<open>Facts\<close>

lemmas error_predicate_defs =
  is_bucket_already_exists_def is_bucket_already_owned_by_you_def bucket_name_is_taken_def
  is_bucket_not_found_def is_key_not_found_def is_no_such_upload_def is_entity_too_small_def
  is_range_not_satisfiable_def is_upload_producer_failed_def get_upload_producer_error_def
  get_status_code_def

lemma is_retryable_iff:
  "is_retryable e \<longleftrightarrow>
     (\<exists>f. e = FlUrlError f \<and> fl_url_error_is_retryable f)
     \<or> (\<exists>sc ec b. e = UnexpectedStatusCode sc ec b
          \<and> (ec \<in> Some ` set retry_by_name \<or> sc \<ge> 500 \<or> sc = 429))"
  by (cases e) (auto split: option.split)

lemma is_upload_producer_failed_iff:
  "is_upload_producer_failed e \<longleftrightarrow> (\<exists>err. e = UploadProducerFailed err)"
  by (cases e) (auto simp: error_predicate_defs)

lemma is_bucket_already_owned_by_you_iff [simp]:
  "is_bucket_already_owned_by_you e \<longleftrightarrow> e = BucketAlreadyOwnedByYou"
  by (cases e) (auto simp: error_predicate_defs)

lemma is_key_not_found_iff [simp]: "is_key_not_found e \<longleftrightarrow> e = KeyNotFound"
  by (cases e) (auto simp: error_predicate_defs)

lemma upload_producer_failed_not_retryable:
  "is_upload_producer_failed e \<Longrightarrow> \<not> is_retryable e"
  by (auto simp: is_upload_producer_failed_iff)

end
