(* ===== verification/Sig_V4.thy ===== *)
theory Sig_V4
  imports S3_Region S3_Error "HOL-Library.Multiset"
begin

text \<open>
  \<^verbatim>\<open>src/utils.rs\<close>: the SigV4 signer, and \<open>S3Client\<close> of \<^verbatim>\<open>src/s3_client.rs\<close>, whose
  credentials and region it signs with.

  Three things are not in the crate and are arguments of the model: the primitives of the
  \<open>sha2\<close>, \<open>hmac\<close> and \<open>hex\<close> crates (\<open>crypto\<close>; an HMAC takes a key of any length, so neither
  an \<open>unwrap\<close> nor the \<open>map_err\<close> on its constructor ever has an error to deal with), the
  clock's RFC 3339 text (\<open>now\<close>), and the url builder of \<open>FlUrl\<close> (\<open>flurl\<close>, the operations the
  crate calls on it).

  Shown: URI encoding is inverted by percent-decoding and its output has no separator in
  it; the canonical query is the sorted list of the pairs that were sent, and a query built
  with \<open>append_query_param\<close> has exactly the parameters it was given and is unchanged by
  decoding and re-encoding it under the RFC 3986 rule. That the signature is the one a server
  computes is shown in \<open>Signed_Requests\<close>.
\<close>

section \<open>Definitions\<close>

record S3Client =
  access_key :: bytes
  secret_key :: bytes
  region :: S3Region
  endpoint :: bytes
  debug_on :: bool

definition new_client :: "bytes \<Rightarrow> bytes \<Rightarrow> S3Region \<Rightarrow> bytes \<Rightarrow> S3Client" where
  "new_client ak sk r e =
     \<lparr>access_key = ak, secret_key = sk, region = r, endpoint = e, debug_on = False\<rparr>"

definition debug_to_console :: "S3Client \<Rightarrow> S3Client" where
  "debug_to_console s3 = s3\<lparr>debug_on := True\<rparr>"

record crypto =
  sha256 :: "bytes \<Rightarrow> bytes"
  hmac_sha256 :: "bytes \<Rightarrow> bytes \<Rightarrow> bytes"
  hex_encode :: "bytes \<Rightarrow> bytes"

text \<open>What \<open>get_url_builder\<close> gives access to: the very strings that go on the wire.\<close>

record url_builder =
  host_port :: bytes
  url_path :: bytes
  url_query :: "bytes option"

record 'u flurl =
  fl_new :: "bytes \<Rightarrow> 'u"
  append_path_segment :: "bytes \<Rightarrow> 'u \<Rightarrow> 'u"
  append_query_flag :: "bytes \<Rightarrow> 'u \<Rightarrow> 'u"
  append_raw_ending_to_url :: "bytes \<Rightarrow> 'u \<Rightarrow> 'u"
  set_timeout :: "nat \<Rightarrow> 'u \<Rightarrow> 'u"
  with_retries :: "nat \<Rightarrow> 'u \<Rightarrow> 'u"
  with_header :: "bytes \<Rightarrow> bytes \<Rightarrow> 'u \<Rightarrow> 'u"
  get_url_builder :: "'u \<Rightarrow> (url_builder, fl_url_error) result"

text \<open>
  The pairs of a query as it stands: split at \<open>&\<close>, empty pieces dropped, each piece split
  at its first \<open>=\<close>, a piece without one being a name with an empty value.
\<close>

definition query_pair :: "bytes \<Rightarrow> bytes \<times> bytes" where
  "query_pair p = (case split_once CHR ''='' p of Some nv \<Rightarrow> nv | None \<Rightarrow> (p, []))"

definition query_pairs :: "bytes \<Rightarrow> (bytes \<times> bytes) list" where
  "query_pairs query = map query_pair (filter (\<lambda>p. p \<noteq> []) (split_on CHR ''&'' query))"

definition join_pairs :: "(bytes \<times> bytes) list \<Rightarrow> bytes" where
  "join_pairs ps = join_with ''&'' (map (\<lambda>(n, v). n @ ''='' @ v) ps)"

definition canonical_query_string :: "bytes option \<Rightarrow> bytes" where
  "canonical_query_string query =
     (case query of
        None \<Rightarrow> []
      | Some q \<Rightarrow> if q = [] then [] else join_pairs (sort (query_pairs q)))"

definition unreserved :: "char \<Rightarrow> bool" where
  "unreserved b \<longleftrightarrow>
     in_range 65 90 b \<or> in_range 97 122 b \<or> in_range 48 57 b \<or> b \<in> set ''-_.~''"

definition hex_digit :: "nat \<Rightarrow> char" where
  "hex_digit n = ''0123456789ABCDEF'' ! n"

text \<open>The loop over the bytes, pushing onto \<open>dest\<close>.\<close>

fun encode_uri_component :: "bytes \<Rightarrow> bytes \<Rightarrow> bytes" where
  "encode_uri_component [] dest = dest"
| "encode_uri_component (b # src) dest =
     encode_uri_component src
       (if unreserved b then dest @ [b]
        else dest @ [CHR ''%'', hex_digit (byte_val b div 16), hex_digit (byte_val b mod 16)])"

definition append_query_param :: "bytes \<Rightarrow> bytes \<Rightarrow> bytes option \<Rightarrow> bytes" where
  "append_query_param query name value =
     (case value of
        None \<Rightarrow> query
      | Some v \<Rightarrow>
          let q1 = (if query \<noteq> [] then query @ ''&'' else query);
              q2 = encode_uri_component name q1;
              q3 = q2 @ ''=''
          in encode_uri_component v q3)"

definition get_signature_key :: "crypto \<Rightarrow> bytes \<Rightarrow> bytes \<Rightarrow> bytes \<Rightarrow> bytes \<Rightarrow> bytes" where
  "get_signature_key cr secret date reg service =
     (let k_secret = ''AWS4'' @ secret;
          k_date = hmac_sha256 cr k_secret date;
          k_region = hmac_sha256 cr k_date reg;
          k_service = hmac_sha256 cr k_region service
      in hmac_sha256 cr k_service ''aws4_request'')"

text \<open>
  \<open>now\<close> is the clock's RFC 3339 text, which is ASCII, so \<open>pop\<close> drops one byte.
\<close>

function pop_while_longer :: "nat \<Rightarrow> bytes \<Rightarrow> bytes" where
  "pop_while_longer n s = (if length s > n then pop_while_longer n (butlast s) else s)"
  by pat_completeness auto
termination
  by (relation "measure (\<lambda>(_, s). length s)") auto

declare pop_while_longer.simps [simp del]

definition get_amz_timestamp :: "bytes \<Rightarrow> bytes" where
  "get_amz_timestamp now =
     pop_while_longer 15 (filter (\<lambda>c. c \<noteq> CHR '':'') (filter (\<lambda>c. c \<noteq> CHR ''-'') now)) @ ''Z''"

definition nl :: bytes where
  "nl = [CHR 0x0A]"

definition canonical_request :: "bytes \<Rightarrow> bytes \<Rightarrow> bytes \<Rightarrow> bytes \<Rightarrow> bytes \<Rightarrow> bytes \<Rightarrow> bytes" where
  "canonical_request meth uri query host payload_hash timestamp =
     meth @ nl @ uri @ nl @ query @ nl @ ''host:'' @ host @ nl
     @ ''x-amz-content-sha256:'' @ payload_hash @ nl @ ''x-amz-date:'' @ timestamp @ nl @ nl
     @ ''host;x-amz-content-sha256;x-amz-date'' @ nl @ payload_hash"

definition authorization :: "crypto \<Rightarrow> S3Client \<Rightarrow> bytes \<Rightarrow> bytes \<Rightarrow> bytes" where
  "authorization cr s3 timestamp canonical =
     (let date = take 8 timestamp;
          hashed_canonical_request = hex_encode cr (sha256 cr canonical);
          scope = date @ ''/'' @ as_str (region s3) @ ''/'' @ ''s3'' @ ''/aws4_request'';
          string_to_sign =
            ''AWS4-HMAC-SHA256'' @ nl @ timestamp @ nl @ scope @ nl @ hashed_canonical_request;
          signing_key = get_signature_key cr (secret_key s3) date (as_str (region s3)) ''s3'';
          signature = hex_encode cr (hmac_sha256 cr signing_key string_to_sign)
      in ''AWS4-HMAC-SHA256 Credential='' @ access_key s3 @ ''/'' @ scope
         @ '',SignedHeaders=host;x-amz-content-sha256;x-amz-date,Signature='' @ signature)"

definition sign_request_with_payload_hash ::
  "'u flurl \<Rightarrow> crypto \<Rightarrow> bytes \<Rightarrow> S3Client \<Rightarrow> 'u \<Rightarrow> bytes \<Rightarrow> bytes \<Rightarrow> ('u, S3Error) result"
where
  "sign_request_with_payload_hash fl cr now s3 fl_url meth payload_hash =
     (case get_url_builder fl fl_url of
        Inl err \<Rightarrow> Inl (Other (''Can not sign the request: '' @ fl_display err))
      | Inr builder \<Rightarrow>
          let host = host_port builder;
              canonical_uri = url_path builder;
              canonical_query = canonical_query_string (url_query builder);
              timestamp = get_amz_timestamp now;
              canonical =
                canonical_request meth canonical_uri canonical_query host payload_hash timestamp;
              auth = authorization cr s3 timestamp canonical
          in Inr (with_header fl ''Authorization'' auth
               (with_header fl ''X-Amz-Date'' timestamp
                 (with_header fl ''X-Amz-Content-Sha256'' payload_hash fl_url))))"

definition sign_request ::
  "'u flurl \<Rightarrow> crypto \<Rightarrow> bytes \<Rightarrow> S3Client \<Rightarrow> 'u \<Rightarrow> bytes \<Rightarrow> bytes \<Rightarrow> ('u, S3Error) result"
where
  "sign_request fl cr now s3 fl_url meth payload =
     sign_request_with_payload_hash fl cr now s3 fl_url meth (hex_encode cr (sha256 cr payload))"

section \<open>URI encoding\<close>

definition uri_encode_byte :: "char \<Rightarrow> bytes" where
  "uri_encode_byte b =
     (if unreserved b then [b]
      else [CHR ''%'', hex_digit (byte_val b div 16), hex_digit (byte_val b mod 16)])"

definition uri_encode :: "bytes \<Rightarrow> bytes" where
  "uri_encode src = concat (map uri_encode_byte src)"

lemma encode_uri_component_eq: "encode_uri_component src dest = dest @ uri_encode src"
  by (induction src arbitrary: dest) (auto simp: uri_encode_def uri_encode_byte_def)

text \<open>What RFC 3986 percent-decoding reads: \<open>%\<close> and two hexadecimal digits are one byte.\<close>

definition hex_value :: "char \<Rightarrow> nat option" where
  "hex_value c =
     (if in_range 48 57 c then Some (byte_val c - 48)
      else if in_range 65 70 c then Some (byte_val c - 55)
      else if in_range 97 102 c then Some (byte_val c - 87)
      else None)"

fun percent_decode :: "bytes \<Rightarrow> bytes" where
  "percent_decode (p # h # l # rest) =
     (case (p = CHR ''%'', hex_value h, hex_value l) of
        (True, Some x, Some y) \<Rightarrow> char_of (16 * x + y) # percent_decode rest
      | _ \<Rightarrow> p # percent_decode (h # l # rest))"
| "percent_decode bs = bs"

lemma hex_digit_cases:
  assumes "n < 16"
  shows "hex_value (hex_digit n) = Some n" "unreserved (hex_digit n)"
proof -
  have "list_all (\<lambda>n. hex_value (hex_digit n) = Some n \<and> unreserved (hex_digit n)) [0..<16]"
    by code_simp
  with assms show "hex_value (hex_digit n) = Some n" "unreserved (hex_digit n)"
    unfolding list_all_iff set_upt by auto
qed

lemma percent_not_unreserved [simp]: "\<not> unreserved CHR ''%''"
  by (simp add: unreserved_def in_range_def)

lemma nibbles: "byte_val b div 16 < 16" "byte_val b mod 16 < 16"
  using nat_of_char_less_256 [of b] by (simp_all add: less_mult_imp_div_less)

lemma percent_decode_plain: "b \<noteq> CHR ''%'' \<Longrightarrow> percent_decode (b # bs) = b # percent_decode bs"
  by (cases "(b, bs)" rule: prod.exhaust; cases bs; cases "tl bs") auto

lemma percent_decode_encode_byte: "percent_decode (uri_encode_byte b @ rest) = b # percent_decode rest"
proof (cases "unreserved b")
  case True
  then have "b \<noteq> CHR ''%''" by auto
  then show ?thesis using True by (simp add: uri_encode_byte_def percent_decode_plain)
next
  case False
  then show ?thesis by (simp add: uri_encode_byte_def hex_digit_cases nibbles)
qed

interpretation uri_codec: codec uri_encode percent_decode "\<lambda>_. True"
proof
  fix a :: bytes
  show "percent_decode (uri_encode a) = a"
    by (induction a) (simp_all add: uri_encode_def percent_decode_encode_byte)
qed

lemma uri_encode_chars: "c \<in> set (uri_encode s) \<Longrightarrow> unreserved c \<or> c = CHR ''%''"
proof -
  have "c \<in> set (uri_encode_byte b) \<Longrightarrow> unreserved c \<or> c = CHR ''%''" for b
    by (auto simp: uri_encode_byte_def hex_digit_cases nibbles split: if_splits)
  then show "c \<in> set (uri_encode s) \<Longrightarrow> unreserved c \<or> c = CHR ''%''"
    by (auto simp: uri_encode_def)
qed

lemma uri_encode_no_sep: "CHR ''&'' \<notin> set (uri_encode s)" "CHR ''='' \<notin> set (uri_encode s)"
proof -
  have "\<not> unreserved CHR ''&''" "\<not> unreserved CHR ''=''" by code_simp+
  then show "CHR ''&'' \<notin> set (uri_encode s)" "CHR ''='' \<notin> set (uri_encode s)"
    using uri_encode_chars [of "CHR ''&''" s] uri_encode_chars [of "CHR ''=''" s] by auto
qed

section \<open>Queries\<close>

text \<open>A pair that can be told apart in a query: no separator where it would be one.\<close>

definition wire_pair :: "bytes \<times> bytes \<Rightarrow> bool" where
  "wire_pair p \<longleftrightarrow>
     CHR ''&'' \<notin> set (fst p) \<and> CHR ''='' \<notin> set (fst p) \<and> CHR ''&'' \<notin> set (snd p)"

lemma split_on_pieces: "p \<in> set (split_on sep s) \<Longrightarrow> sep \<notin> set p"
  by (induction s arbitrary: p) (auto split: if_splits list.splits)

lemma query_pairs_wire: "list_all wire_pair (query_pairs q)"
  by (auto simp: list_all_iff query_pairs_def query_pair_def wire_pair_def split_once_none
      split: option.split dest!: split_once_SomeD split_on_pieces)

lemma query_pair_join: "wire_pair (n, v) \<Longrightarrow> query_pair (n @ CHR ''='' # v) = (n, v)"
  by (simp add: query_pair_def wire_pair_def split_once_append)

lemma query_pairs_join:
  assumes "list_all wire_pair ps"
  shows "query_pairs (join_pairs ps) = ps"
proof (cases "ps = []")
  case True
  then show ?thesis by (simp add: query_pairs_def join_pairs_def)
next
  case False
  let ?f = "\<lambda>(n, v). n @ ''='' @ v"
  have "split_on CHR ''&'' (join_pairs ps) = map ?f ps"
    unfolding join_pairs_def using False assms
    by (intro split_on_join) (auto simp: wire_pair_def list_all_iff)
  moreover have "filter (\<lambda>p. p \<noteq> []) (map ?f ps) = map ?f ps"
    by (auto simp: filter_id_conv)
  ultimately show ?thesis
    using assms by (auto simp: query_pairs_def list_all_iff query_pair_join intro!: map_idI)
qed

lemma canonical_query_pairs:
  "query_pairs (canonical_query_string (Some q)) = sort (query_pairs q)"
proof -
  have "list_all wire_pair (sort (query_pairs q))"
    using query_pairs_wire [of q] by (simp add: list_all_iff)
  moreover have "q = [] \<Longrightarrow> query_pairs q = []" by (simp add: query_pairs_def)
  ultimately show ?thesis
    by (auto simp: canonical_query_string_def query_pairs_join)
qed

text \<open>Appending a parameter to a query that is a list of pairs.\<close>

definition encoded_param :: "bytes \<Rightarrow> bytes option \<Rightarrow> (bytes \<times> bytes) list" where
  "encoded_param name value =
     (case value of None \<Rightarrow> [] | Some v \<Rightarrow> [(uri_encode name, uri_encode v)])"

lemma encoded_param_wire: "list_all wire_pair (encoded_param n v)"
  by (auto simp: encoded_param_def wire_pair_def uri_encode_no_sep split: option.split)

lemma join_pairs_nil [simp]: "join_pairs ps = [] \<longleftrightarrow> ps = []"
  by (cases ps) (auto simp: join_pairs_def join_with_Cons)

lemma join_pairs_empty [simp]: "join_pairs [] = []"
  by (simp add: join_pairs_def)

lemma append_query_param_pairs:
  "append_query_param (join_pairs ps) name value = join_pairs (ps @ encoded_param name value)"
  by (auto simp: append_query_param_def encoded_param_def encode_uri_component_eq Let_def
      join_with_append split: option.split)
    (auto simp: join_pairs_def join_with_append)

lemma list_type_query: "''list-type=2'' = join_pairs [(''list-type'', ''2'')]"
  by (simp add: join_pairs_def)


section \<open>Encoded queries\<close>

text \<open>
  A server does not take the query off the wire as it is: it decodes every name and value
  and encodes them again by the RFC 3986 rule before it sorts. A query is safe to sign when
  that changes nothing.
\<close>

definition rfc3986_encoded :: "bytes \<Rightarrow> bool" where
  "rfc3986_encoded s \<longleftrightarrow> uri_encode (percent_decode s) = s"

definition encoded_query :: "bytes option \<Rightarrow> bool" where
  "encoded_query query \<longleftrightarrow>
     (case query of
        None \<Rightarrow> True
      | Some q \<Rightarrow> list_all (\<lambda>p. rfc3986_encoded (fst p) \<and> rfc3986_encoded (snd p)) (query_pairs q))"

lemma rfc3986_encoded_uri_encode [simp]: "rfc3986_encoded (uri_encode s)"
  by (simp add: rfc3986_encoded_def uri_codec.dec_enc)

text \<open>The parameters of a listing, as the pairs its query is made of.\<close>

definition list_params ::
  "bytes option \<Rightarrow> bytes option \<Rightarrow> bytes option \<Rightarrow> bytes option \<Rightarrow> (bytes \<times> bytes) list"
where
  "list_params p d t m =
     [(''list-type'', ''2'')] @ encoded_param ''prefix'' p @ encoded_param ''delimiter'' d
     @ encoded_param ''continuation-token'' t @ encoded_param ''max-keys'' m"

lemma list_params_wire: "list_all wire_pair (list_params p d t m)"
  using encoded_param_wire by (simp add: list_params_def wire_pair_def)

lemma list_params_pairs:
  "map (map_prod percent_decode percent_decode) (query_pairs (join_pairs (list_params p d t m)))
   = (''list-type'', ''2'')
     # concat (map (\<lambda>(n, v). case v of None \<Rightarrow> [] | Some x \<Rightarrow> [(n, x)])
         [(''prefix'', p), (''delimiter'', d), (''continuation-token'', t), (''max-keys'', m)])"
  unfolding query_pairs_join [OF list_params_wire]
  by (auto simp: list_params_def encoded_param_def uri_codec.dec_enc split: option.split)

lemma list_params_encoded: "encoded_query (Some (join_pairs (list_params p d t m)))"
proof -
  have enc: "list_all (\<lambda>p. rfc3986_encoded (fst p) \<and> rfc3986_encoded (snd p)) (encoded_param n v)" for n v
    by (simp add: encoded_param_def split: option.split)
  have "rfc3986_encoded ''list-type''" "rfc3986_encoded ''2''" by code_simp+
  then show ?thesis
    unfolding encoded_query_def option.case query_pairs_join [OF list_params_wire]
    by (simp add: list_params_def enc)
qed

section \<open>Properties\<close>

text \<open>
  C20: the canonical query has exactly the pairs of the query that is sent, each as often,
  in ascending order of name and then value, and canonicalising it again changes nothing.
\<close>

theorem canonical_query_sorted:
  "let c = canonical_query_string (Some q)
   in mset (query_pairs c) = mset (query_pairs q) \<and> sorted (query_pairs c)
      \<and> canonical_query_string (Some c) = c"
proof -
  let ?c = "canonical_query_string (Some q)"
  have p: "query_pairs ?c = sort (query_pairs q)" by (rule canonical_query_pairs)
  have "canonical_query_string (Some ?c) = ?c"
  proof (cases "q = []")
    case False
    then have c: "?c = join_pairs (sort (query_pairs q))" by (simp add: canonical_query_string_def)
    show ?thesis using p by (simp add: canonical_query_string_def c sort_key_id_if_sorted split: if_splits)
  qed (simp add: canonical_query_string_def)
  then show ?thesis using p by simp
qed

text \<open>
  A url builder to evaluate the model with: a request is its target and its headers, path
  segments are appended as they are.
\<close>

type_synonym plain_request = "url_builder \<times> (bytes \<times> bytes) list"

definition raw_ending :: "bytes \<Rightarrow> url_builder \<Rightarrow> url_builder" where
  "raw_ending e b =
     (case split_once CHR ''?'' e of
        None \<Rightarrow> b\<lparr>url_path := url_path b @ e\<rparr>
      | Some (p, q) \<Rightarrow> b\<lparr>url_path := url_path b @ p, url_query := Some q\<rparr>)"

definition plain_flurl :: "plain_request flurl" where
  "plain_flurl =
     \<lparr>fl_new = (\<lambda>h. (\<lparr>host_port = h, url_path = [], url_query = None\<rparr>, [])),
      append_path_segment = (\<lambda>p (b, hs). (b\<lparr>url_path := url_path b @ ''/'' @ p\<rparr>, hs)),
      append_query_flag = (\<lambda>n (b, hs). (b\<lparr>url_query := Some n\<rparr>, hs)),
      append_raw_ending_to_url = (\<lambda>e (b, hs). (raw_ending e b, hs)),
      set_timeout = (\<lambda>_ u. u),
      with_retries = (\<lambda>_ u. u),
      with_header = (\<lambda>n v (b, hs). (b, hs @ [(n, v)])),
      get_url_builder = (\<lambda>(b, hs). Inr b)\<rparr>"

definition plain_crypto :: crypto where
  "plain_crypto =
     \<lparr>sha256 = rev, hmac_sha256 = (\<lambda>k m. k @ m), hex_encode = (\<lambda>b. b)\<rparr>"

definition sample_client :: S3Client where
  "sample_client = new_client ''AK'' ''SK'' (from_str ''fsn1'') ''h''"

section \<open>The timestamp\<close>

lemma pop_while_longer_take: "pop_while_longer n s = take n s"
proof (induction n s rule: pop_while_longer.induct)
  case (1 n s)
  show ?case
  proof (cases "length s > n")
    case True
    then have "pop_while_longer n s = take n (butlast s)"
      using 1 by (simp add: pop_while_longer.simps [of n s])
    also have "\<dots> = take n s" using True by (simp add: take_butlast)
    finally show ?thesis .
  qed (simp add: pop_while_longer.simps)
qed

text \<open>
  From the clock's RFC 3339 text (a date, \<open>T\<close>, a time, and whatever follows) the
  timestamp is the compact form SigV4 requires: eight digits of date, \<open>T\<close>, six digits of
  time, \<open>Z\<close>; its first eight bytes are the date the scope is made of.
\<close>

lemma amz_timestamp_compact:
  assumes "length y = 4" "length mo = 2" "length d = 2" "length h = 2" "length mi = 2" "length se = 2"
    and "list_all is_ascii_digit (y @ mo @ d @ h @ mi @ se)"
  shows "get_amz_timestamp (y @ ''-'' @ mo @ ''-'' @ d @ ''T'' @ h @ '':'' @ mi @ '':'' @ se @ rest)
      = y @ mo @ d @ ''T'' @ h @ mi @ se @ ''Z''
    \<and> take 8 (get_amz_timestamp (y @ ''-'' @ mo @ ''-'' @ d @ ''T'' @ h @ '':'' @ mi @ '':'' @ se @ rest))
      = y @ mo @ d"
proof -
  have seps: "\<not> is_ascii_digit CHR ''-''" "\<not> is_ascii_digit CHR '':''" by code_simp+
  have keep: "filter (\<lambda>c. c \<noteq> CHR ''-'') x = x" "filter (\<lambda>c. c \<noteq> CHR '':'') x = x"
    if "list_all is_ascii_digit x" for x
    using that seps by (auto simp: filter_id_conv list_all_iff)
  have all: "list_all is_ascii_digit y" "list_all is_ascii_digit mo" "list_all is_ascii_digit d"
    "list_all is_ascii_digit h" "list_all is_ascii_digit mi" "list_all is_ascii_digit se"
    using assms(7) by simp_all
  show ?thesis
    using assms(1-6) by (simp add: get_amz_timestamp_def pop_while_longer_take keep all)
qed

lemma amz_timestamp_compact_example:
  "get_amz_timestamp ''2024-01-02T03:04:05.678901+00:00'' = ''20240102T030405Z''"
proof -
  have "list_all is_ascii_digit (''2024'' @ ''01'' @ ''02'' @ ''03'' @ ''04'' @ ''05'')" by code_simp
  from amz_timestamp_compact [of "''2024''" "''01''" "''02''" "''03''" "''04''" "''05''" "''.678901+00:00''",
      OF _ _ _ _ _ _ this]
  show ?thesis by simp
qed
text \<open>A clock's RFC 3339 text.\<close>

definition rfc3339 :: "bytes \<Rightarrow> bool" where
  "rfc3339 now \<longleftrightarrow>
     (\<exists>y mo d h mi se rest.
        now = y @ ''-'' @ mo @ ''-'' @ d @ ''T'' @ h @ '':'' @ mi @ '':'' @ se @ rest
        \<and> length y = 4 \<and> length mo = 2 \<and> length d = 2 \<and> length h = 2 \<and> length mi = 2 \<and> length se = 2
        \<and> list_all is_ascii_digit (y @ mo @ d @ h @ mi @ se))"

lemma rfc3339_timestamp:
  assumes "rfc3339 now"
  obtains date time where "get_amz_timestamp now = date @ ''T'' @ time @ ''Z''"
    "length date = 8" "length time = 6" "list_all is_ascii_digit (date @ time)"
proof -
  from assms obtain y mo d h mi se rest where
    now: "now = y @ ''-'' @ mo @ ''-'' @ d @ ''T'' @ h @ '':'' @ mi @ '':'' @ se @ rest"
    and len: "length y = 4" "length mo = 2" "length d = 2" "length h = 2" "length mi = 2" "length se = 2"
    and digits: "list_all is_ascii_digit (y @ mo @ d @ h @ mi @ se)"
    unfolding rfc3339_def by blast
  have "get_amz_timestamp now = (y @ mo @ d) @ ''T'' @ (h @ mi @ se) @ ''Z''"
    using amz_timestamp_compact [OF len digits, of rest] now by simp
  from that [OF this] len digits show ?thesis by simp
qed

end
