(* ===== verification/Utf8.thy ===== *)
theory Utf8
  imports Rust_Std
begin

text \<open>
  Which byte lists are Rust strings. \<open>String\<close> and \<open>str\<close> hold UTF-8, and the compiler
  keeps it so; here that is a predicate, \<open>from_utf8_ok\<close>, and these are the facts by which
  the operations on texts keep it: concatenation, cutting at an ASCII byte (which is the
  only place the code ever cuts a text), and the two ways the code makes a text out of
  bytes, \<open>from_utf8\<close> and \<open>from_utf8_lossy\<close>.
\<close>

section \<open>One character\<close>

lemma conts_le: "conts n cs \<le> n"
  by (induction n cs rule: conts.induct) auto

lemma conts_append: "conts n cs = n \<Longrightarrow> conts n (cs @ ds) = n"
  by (induction n cs rule: conts.induct) (auto split: if_splits)

lemma conts_cut: "conts n (cs @ ds) = n \<Longrightarrow> n \<le> length cs \<Longrightarrow> conts n cs = n"
  by (induction n cs rule: conts.induct) (auto split: if_splits)

lemma conts_nth: "conts n cs = n \<Longrightarrow> i < n \<Longrightarrow> i < length cs \<and> is_cont (cs ! i)"
  by (induction n cs arbitrary: i rule: conts.induct) (auto split: if_splits simp: nth_Cons' less_Suc_eq_0_disj)

lemma second_ok_high: "second_ok b c \<Longrightarrow> 128 \<le> byte_val c"
  by (auto simp: second_ok_def is_cont_def in_range_def split: if_splits)

lemma utf8_char_width_le: "utf8_char_width b \<le> 4"
  by (simp add: utf8_char_width_def)

text \<open>A well-formed character is there in full and is not changed by what follows it.\<close>

lemma utf8_step_append:
  assumes "fst (utf8_step a)"
  shows "utf8_step (a @ b) = utf8_step a \<and> snd (utf8_step a) \<le> length a"
proof (cases a rule: utf8_step.cases)
  case (2 c)
  then show ?thesis using assms by (cases b) (simp_all add: Let_def)
next
  case (3 c d cs)
  let ?w = "utf8_char_width c"
  show ?thesis
  proof (cases "?w = 1")
    case False
    then have w: "?w \<noteq> 0" "second_ok c d" "conts (?w - 2) cs = ?w - 2" "2 \<le> ?w"
      using assms 3 by (auto simp: Let_def split: if_splits)
    have "?w - 2 \<le> length cs"
      using conts_nth [OF w(3), of "?w - 3"] by (cases "?w = 2") force+
    then show ?thesis using w 3 False conts_append [OF w(3), of b] by (auto simp: Let_def)
  qed (simp add: 3)
qed (use assms in simp)

lemma utf8_step_cut:
  assumes "fst (utf8_step (a @ b))" "snd (utf8_step (a @ b)) \<le> length a"
  shows "utf8_step a = utf8_step (a @ b)"
proof (cases a rule: utf8_step.cases)
  case 1
  then show ?thesis using assms utf8_step_pos [of b] by (cases b) auto
next
  case (2 c)
  then show ?thesis using assms by (cases b) (auto simp: Let_def split: if_splits)
next
  case (3 c d cs)
  then show ?thesis
    using assms conts_cut [of "utf8_char_width c - 2" cs b]
    by (auto simp: Let_def split: if_splits)
qed

text \<open>The bytes of a character behind its first are not ASCII.\<close>

lemma utf8_step_tail:
  assumes "fst (utf8_step s)" "0 < i" "i < snd (utf8_step s)"
  shows "128 \<le> byte_val (s ! i)"
proof (cases s rule: utf8_step.cases)
  case (3 c d cs)
  let ?w = "utf8_char_width c"
  have w: "second_ok c d" "conts (?w - 2) cs = ?w - 2" "snd (utf8_step s) = ?w" "?w \<noteq> 1"
    using assms 3 by (auto simp: Let_def split: if_splits)
  show ?thesis
  proof (cases "i = 1")
    case True
    then show ?thesis using 3 second_ok_high [OF w(1)] by simp
  next
    case False
    then have "i - 2 < ?w - 2" "s ! i = cs ! (i - 2)" using 3 assms(2,3) w(3) by (auto simp: nth_Cons' numeral_2_eq_2)
    then show ?thesis using conts_nth [OF w(2), of "i - 2"] by (simp add: is_cont_def in_range_def)
  qed
qed (use assms in \<open>auto split: if_splits\<close>)

section \<open>Texts\<close>

lemma from_utf8_ok_step:
  "bs \<noteq> [] \<Longrightarrow> from_utf8_ok bs \<longleftrightarrow> fst (utf8_step bs) \<and> from_utf8_ok (drop (snd (utf8_step bs)) bs)"
  by (subst from_utf8_ok.simps) simp

lemma from_utf8_ok_append [simp]: "from_utf8_ok a \<Longrightarrow> from_utf8_ok (a @ b) \<longleftrightarrow> from_utf8_ok b"
proof (induction a rule: from_utf8_ok.induct)
  case (1 a)
  show ?case
  proof (cases "a = []")
    case False
    then have a: "fst (utf8_step a)" "from_utf8_ok (drop (snd (utf8_step a)) a)"
      using 1(2) from_utf8_ok_step by blast+
    have k: "utf8_step (a @ b) = utf8_step a" "snd (utf8_step a) \<le> length a"
      using utf8_step_append [OF a(1)] by simp_all
    have "drop (snd (utf8_step a)) (a @ b) = drop (snd (utf8_step a)) a @ b" using k(2) by simp
    then show ?thesis
      using 1(1) [OF False a(2)] False a(1) k(1) from_utf8_ok_step [of "a @ b"] by simp
  qed simp
qed

lemma from_utf8_ok_concat: "list_all from_utf8_ok ts \<Longrightarrow> from_utf8_ok (concat ts)"
  by (induction ts) auto

lemma from_utf8_ok_ascii: "list_all (\<lambda>c. byte_val c < 128) s \<Longrightarrow> from_utf8_ok s"
  by (induction s) auto

text \<open>A text cut at an ASCII byte gives two texts.\<close>

lemma from_utf8_ok_before:
  assumes "byte_val c < 128"
  shows "from_utf8_ok (a @ c # b) \<Longrightarrow> from_utf8_ok a"
proof (induction a rule: length_induct)
  case (1 a)
  show ?case
  proof (cases "a = []")
    case False
    let ?k = "snd (utf8_step (a @ c # b))"
    have s: "fst (utf8_step (a @ c # b))" "from_utf8_ok (drop ?k (a @ c # b))"
      using 1(2) from_utf8_ok_step [of "a @ c # b"] by simp_all
    have k: "?k \<le> length a"
      using utf8_step_tail [OF s(1), of "length a"] assms False by (auto simp: not_less [symmetric])
    then have "from_utf8_ok (drop ?k a @ c # b)" using s(2) by simp
    moreover have "length (drop ?k a) < length a"
      using utf8_step_pos [of "a @ c # b"] False by simp
    ultimately have "from_utf8_ok (drop ?k a)" using 1(1) by blast
    then show ?thesis using utf8_step_cut [OF s(1) k] s(1) False from_utf8_ok_step [of a] by simp
  qed simp
qed

lemma from_utf8_ok_cut:
  "byte_val c < 128 \<Longrightarrow> from_utf8_ok (a @ c # b) \<longleftrightarrow> from_utf8_ok a \<and> from_utf8_ok b"
  using from_utf8_ok_before [of c a b] by auto

lemma replacement_char_ok: "from_utf8_ok replacement_char"
  by code_simp

lemma utf8_char_ok: "bs \<noteq> [] \<Longrightarrow> fst (utf8_step bs) \<Longrightarrow> from_utf8_ok (take (snd (utf8_step bs)) bs)"
proof -
  assume b: "bs \<noteq> []" "fst (utf8_step bs)"
  let ?k = "snd (utf8_step bs)"
  have k: "?k \<le> length bs" using utf8_step_append [OF b(2)] by simp
  have "utf8_step (take ?k bs) = utf8_step bs"
    using utf8_step_cut [of "take ?k bs" "drop ?k bs"] b k by simp
  moreover have "take ?k bs \<noteq> []" using utf8_step_pos [OF b(1)] b(1) by simp
  ultimately show ?thesis using b k from_utf8_ok_step [of "take ?k bs"] by simp
qed

text \<open>Whatever the bytes, \<open>from_utf8_lossy\<close> makes a text of them.\<close>

lemma from_utf8_lossy_ok: "from_utf8_ok (from_utf8_lossy bs)"
proof (induction bs rule: from_utf8_lossy.induct)
  case (1 bs)
  then show ?case
    by (subst from_utf8_lossy.simps) (auto simp: utf8_char_ok replacement_char_ok)
qed

lemma dec_of_nat_ok: "from_utf8_ok (dec_of_nat n)"
  by (rule from_utf8_ok_ascii) (auto simp: list_all_iff is_ascii_digit_iff dest!: dec_of_nat_digits)

end
