(* ===== verification/Xml.thy ===== *)
theory Xml
  imports Utf8
begin

text \<open>
  \<^verbatim>\<open>src/xml.rs\<close>: the guard in front of the XML reader, the entity decoder, and the walker
  over the children of a document.

  \<open>my_xml_reader\<close> is a crate of its own: \<open>xml_reader\<close> is the record of the operations the
  code calls on it, over a reader state of any type, and nothing is assumed about them here.

  Shown: \<open>is_safe_to_read\<close> accepts exactly the UTF-8 bodies whose tags are a word of the
  bracket language, so a stray closing tag or an unclosed one is refused; a document cut
  anywhere between its first and its last byte is refused; the entity decoder inverts
  escaping, and every text that is read is valid UTF-8, whatever the reader answers.
\<close>

section \<open>Definitions\<close>

text \<open>
  The scan: from a \<open><\<close> to the next \<open>>\<close> is a tag. \<open>tag.get(1)\<close> is the byte behind \<open><\<close>,
  \<open>tag[tag.len() - 2]\<close> the one before \<open>>\<close>.
\<close>

definition next_tag :: "bytes \<Rightarrow> (bytes \<times> bytes) option option" where
  "next_tag body =
     (case dropWhile (\<lambda>b. b \<noteq> CHR ''<'') body of
        [] \<Rightarrow> None
      | tail \<Rightarrow>
          (case dropWhile (\<lambda>b. b \<noteq> CHR ''>'') tail of
             [] \<Rightarrow> Some None
           | gt # rest \<Rightarrow> Some (Some (takeWhile (\<lambda>b. b \<noteq> CHR ''>'') tail @ [gt], rest))))"

lemma next_tag_shrinks: "next_tag body = Some (Some (tag, rest)) \<Longrightarrow> length rest < length body"
  using length_dropWhile_le [of "\<lambda>b. b \<noteq> CHR ''<''" body]
    length_dropWhile_le [of "\<lambda>b. b \<noteq> CHR ''>''" "dropWhile (\<lambda>b. b \<noteq> CHR ''<'') body"]
  by (auto simp: next_tag_def split: list.splits)

function scan_tags :: "nat \<Rightarrow> bytes \<Rightarrow> bool" where
  "scan_tags depth body =
     (case next_tag body of
        None \<Rightarrow> depth = 0
      | Some None \<Rightarrow> False
      | Some (Some (tag, rest)) \<Rightarrow>
          if tag ! 1 \<in> set ''?!'' then scan_tags depth rest
          else if tag ! 1 = CHR ''/'' then
            (if depth = 0 then False else scan_tags (depth - 1) rest)
          else if tag ! (length tag - 2) \<noteq> CHR ''/'' then scan_tags (depth + 1) rest
          else scan_tags depth rest)"
  by pat_completeness auto
termination
  by (relation "measure (\<lambda>(_, body). length body)") (auto dest: next_tag_shrinks)

declare scan_tags.simps [simp del]

definition is_safe_to_read :: "bytes \<Rightarrow> bool" where
  "is_safe_to_read body = (if \<not> from_utf8_ok body then False else scan_tags 0 body)"

text \<open>The entity decoder, one pass from left to right.\<close>

definition entities :: "(bytes \<times> char) list" where
  "entities =
     [(''&amp;'', CHR ''&''), (''&lt;'', CHR ''<''), (''&gt;'', CHR ''>''), (''&quot;'', CHR 0x22),
      (''&apos;'', CHR 0x27)]"

function unescape_from :: "bytes \<Rightarrow> bytes \<Rightarrow> bytes" where
  "unescape_from result rest =
     (case dropWhile (\<lambda>c. c \<noteq> CHR ''&'') rest of
        [] \<Rightarrow> result @ rest
      | tail \<Rightarrow>
          (let before = takeWhile (\<lambda>c. c \<noteq> CHR ''&'') rest in
           case find (\<lambda>(entity, _). starts_with tail entity) entities of
             Some (entity, decoded) \<Rightarrow> unescape_from (result @ before @ [decoded]) (drop (length entity) tail)
           | None \<Rightarrow> unescape_from (result @ before @ [CHR ''&'']) (drop 1 tail)))"
  by pat_completeness auto
termination
proof (relation "measure (\<lambda>(_, rest). length rest)"; clarsimp simp: Let_def)
  fix rest t ts e d
  assume d: "dropWhile (\<lambda>c. c \<noteq> CHR ''&'') rest = t # ts"
    and f: "find (\<lambda>(entity, _). starts_with (t # ts) entity) entities = Some (e, d)"
  have "e \<noteq> []" using f by (auto simp: find_Some_iff entities_def nth_Cons' split: if_splits)
  moreover have "Suc (length ts) \<le> length rest"
    using length_dropWhile_le [of "\<lambda>c. c \<noteq> CHR ''&''" rest] d by simp
  ultimately show "Suc (length ts) - length e < length rest" by (cases e) auto
next
  fix rest t ts
  assume d: "dropWhile (\<lambda>c. c \<noteq> CHR ''&'') rest = t # ts"
  then show "length ts < length rest"
    using length_dropWhile_le [of "\<lambda>c. c \<noteq> CHR ''&''" rest] by simp
qed

declare unescape_from.simps [simp del]

definition unescape :: "bytes \<Rightarrow> bytes" where
  "unescape src = (if CHR ''&'' \<notin> set src then src else unescape_from [] src)"

record xml_tag_info =
  tag_name :: bytes
  tag_raw :: bytes
  tag_level :: nat
  start_pos :: nat
  end_pos :: nat

record xml_node =
  node_name :: bytes
  inner_content :: "bytes option"

record 'r xml_reader =
  from_slice :: "bytes \<Rightarrow> ('r, bytes) result"
  find_the_open_node :: "bytes \<Rightarrow> 'r \<Rightarrow> (xml_tag_info option, bytes) result \<times> 'r"
  read_next_tag :: "'r \<Rightarrow> (xml_tag_info option, bytes) result \<times> 'r"
  find_any_of_these_nodes_inside_parent ::
    "xml_tag_info \<Rightarrow> bytes list \<Rightarrow> 'r \<Rightarrow> (xml_tag_info option, bytes) result \<times> 'r"
  read_the_whole_node :: "xml_tag_info \<Rightarrow> 'r \<Rightarrow> (xml_node, bytes) result \<times> 'r"

definition read_node_text :: "'r xml_reader \<Rightarrow> bytes \<Rightarrow> bytes \<Rightarrow> bytes option" where
  "read_node_text x body x_path =
     (if \<not> is_safe_to_read body then None
      else
        case from_slice x body of
          Inl _ \<Rightarrow> None
        | Inr reader \<Rightarrow>
            (case find_the_open_node x x_path reader of
               (Inr (Some open_node), reader') \<Rightarrow>
                 (case read_next_tag x reader' of
                    (Inr (Some close_node), _) \<Rightarrow>
                      (let fr = end_pos open_node + 1; to = start_pos close_node in
                       if fr > to \<or> to > length body then Some []
                       else
                         (let text = take (to - fr) (drop fr body) in
                          if from_utf8_ok text then Some (unescape text) else None))
                  | _ \<Rightarrow> None)
             | _ \<Rightarrow> None))"

record 'r XmlWalker =
  walker_reader :: 'r
  walker_root :: xml_tag_info

definition not_safe :: bytes where
  "not_safe = ''body is not XML this reader can be driven over safely''"

definition open_walker ::
  "'r xml_reader \<Rightarrow> bytes \<Rightarrow> bytes \<Rightarrow> ('r XmlWalker option, bytes) result"
where
  "open_walker x body root_name =
     (if \<not> is_safe_to_read body then Inl not_safe
      else
        try_bind (from_slice x body) (\<lambda>reader.
          (case find_the_open_node x root_name reader of
             (Inl e, _) \<Rightarrow> Inl e
           | (Inr None, _) \<Rightarrow> Inr None
           | (Inr (Some root), reader') \<Rightarrow>
               Inr (Some \<lparr>walker_reader = reader', walker_root = root\<rparr>))))"

definition is_self_closing :: "xml_tag_info \<Rightarrow> bool" where
  "is_self_closing node \<longleftrightarrow> suffix ''/>'' (tag_raw node)"

text \<open>The loop of \<open>next_direct_child\<close>; a reader that never runs out of deep nodes never ends it.\<close>

partial_function (option) next_direct_child ::
  "'r xml_reader \<Rightarrow> xml_tag_info \<Rightarrow> bytes list \<Rightarrow> 'r
   \<Rightarrow> ((xml_tag_info option, bytes) result \<times> 'r) option"
where
  "next_direct_child x parent names reader =
     (case find_any_of_these_nodes_inside_parent x parent names reader of
        (Inl e, reader') \<Rightarrow> Some (Inl e, reader')
      | (Inr None, reader') \<Rightarrow> Some (Inr None, reader')
      | (Inr (Some found), reader') \<Rightarrow>
          if tag_level found = tag_level parent + 1 then Some (Inr (Some found), reader')
          else next_direct_child x parent names reader')"

definition next_child_of ::
  "'r xml_reader \<Rightarrow> xml_tag_info \<Rightarrow> bytes list \<Rightarrow> 'r XmlWalker
   \<Rightarrow> ((xml_tag_info option, bytes) result \<times> 'r XmlWalker) option"
where
  "next_child_of x parent names w =
     (if is_self_closing parent then Some (Inr None, w)
      else map_option (\<lambda>(a, r). (a, w\<lparr>walker_reader := r\<rparr>))
             (next_direct_child x parent names (walker_reader w)))"

definition next_child ::
  "'r xml_reader \<Rightarrow> bytes list \<Rightarrow> 'r XmlWalker
   \<Rightarrow> ((xml_tag_info option, bytes) result \<times> 'r XmlWalker) option"
where
  "next_child x names w =
     (if is_self_closing (walker_root w) then Some (Inr None, w)
      else map_option (\<lambda>(a, r). (a, w\<lparr>walker_reader := r\<rparr>))
             (next_direct_child x (walker_root w) names (walker_reader w)))"

definition read_text ::
  "'r xml_reader \<Rightarrow> xml_tag_info \<Rightarrow> 'r XmlWalker \<Rightarrow> (bytes, bytes) result \<times> 'r XmlWalker"
where
  "read_text x node w =
     (case read_the_whole_node x node (walker_reader w) of
        (Inl e, r) \<Rightarrow> (Inl e, w\<lparr>walker_reader := r\<rparr>)
      | (Inr n, r) \<Rightarrow>
          ((case inner_content n of
              None \<Rightarrow> Inr []
            | Some content \<Rightarrow>
                if from_utf8_ok content then Inr (unescape content)
                else Inl (''<'' @ node_name n @ ''> holds bytes that are not UTF-8'')),
           w\<lparr>walker_reader := r\<rparr>))"


section \<open>The guard and the bracket language\<close>

datatype bracket = Opens | Closes | Flat

definition bracket_of :: "bytes \<Rightarrow> bracket" where
  "bracket_of tag =
     (if tag ! 1 \<in> set ''?!'' then Flat
      else if tag ! 1 = CHR ''/'' then Closes
      else if tag ! (length tag - 2) = CHR ''/'' then Flat
      else Opens)"

text \<open>The tags of a body in order; none for a body that is cut inside a tag.\<close>

function brackets :: "bytes \<Rightarrow> bracket list option" where
  "brackets body =
     (case next_tag body of
        None \<Rightarrow> Some []
      | Some None \<Rightarrow> None
      | Some (Some (tag, rest)) \<Rightarrow> map_option ((#) (bracket_of tag)) (brackets rest))"
  by pat_completeness auto
termination
  by (relation "measure length") (auto dest: next_tag_shrinks)

declare brackets.simps [simp del]

inductive balanced :: "bracket list \<Rightarrow> bool" where
  bal_nothing: "balanced []"
| bal_flat: "balanced w \<Longrightarrow> balanced (Flat # w)"
| bal_node: "balanced u \<Longrightarrow> balanced v \<Longrightarrow> balanced (Opens # u @ Closes # v)"

inductive_cases balanced_elims [elim]:
  "balanced (Closes # w)" "balanced (Flat # w)" "balanced (Opens # w)"

fun depth_ok :: "nat \<Rightarrow> bracket list \<Rightarrow> bool" where
  "depth_ok n [] \<longleftrightarrow> n = 0"
| "depth_ok n (Opens # w) \<longleftrightarrow> depth_ok (Suc n) w"
| "depth_ok n (Flat # w) \<longleftrightarrow> depth_ok n w"
| "depth_ok 0 (Closes # w) \<longleftrightarrow> False"
| "depth_ok (Suc n) (Closes # w) \<longleftrightarrow> depth_ok n w"

lemma scan_tags_step:
  "next_tag body = Some (Some (tag, rest)) \<Longrightarrow>
   scan_tags d body =
     (case bracket_of tag of
        Flat \<Rightarrow> scan_tags d rest
      | Opens \<Rightarrow> scan_tags (Suc d) rest
      | Closes \<Rightarrow> d \<noteq> 0 \<and> scan_tags (d - 1) rest)"
  by (subst scan_tags.simps) (simp add: bracket_of_def)

lemma scan_tags_depth: "scan_tags d body \<longleftrightarrow> (\<exists>w. brackets body = Some w \<and> depth_ok d w)"
proof (induction body arbitrary: d rule: length_induct)
  case (1 body)
  consider "next_tag body = None" | "next_tag body = Some None"
    | tag rest where "next_tag body = Some (Some (tag, rest))"
    by (metis not_None_eq surj_pair)
  then show ?case
  proof cases
    case (3 tag rest)
    have ih: "scan_tags d rest \<longleftrightarrow> (\<exists>w. brackets rest = Some w \<and> depth_ok d w)" for d
      using 1 next_tag_shrinks [OF 3] by blast
    show ?thesis
      using 3 by (cases "bracket_of tag"; cases d)
        (auto simp: scan_tags_step ih brackets.simps [of body])
  qed (simp_all add: scan_tags.simps [of d body] brackets.simps [of body])
qed

lemma balanced_append: "balanced u \<Longrightarrow> depth_ok n (u @ v) = depth_ok n v"
  by (induction u arbitrary: n v rule: balanced.induct) simp_all

lemma depth_ok_Suc:
  "depth_ok (Suc n) w \<Longrightarrow> \<exists>u v. w = u @ Closes # v \<and> balanced u \<and> depth_ok n v"
proof (induction w arbitrary: n rule: length_induct)
  case (1 w)
  show ?case
  proof (cases w)
    case Nil
    then show ?thesis using 1(2) by simp
  next
    case (Cons b w')
    show ?thesis
    proof (cases b)
      case Closes
      then show ?thesis using Cons 1(2) balanced.bal_nothing by (intro exI [of _ "[]"] exI [of _ w']) simp
    next
      case Flat
      then have "depth_ok (Suc n) w'" using Cons 1(2) by simp
      then obtain u v where "w' = u @ Closes # v" "balanced u" "depth_ok n v"
        using 1(1) Cons by force
      then show ?thesis using Cons Flat balanced.bal_flat [of u] by (intro exI [of _ "Flat # u"] exI [of _ v]) simp
    next
      case Opens
      then have "depth_ok (Suc (Suc n)) w'" using Cons 1(2) by simp
      then obtain u v where uv: "w' = u @ Closes # v" "balanced u" "depth_ok (Suc n) v"
        using 1(1) Cons by force
      then obtain u2 v2 where "v = u2 @ Closes # v2" "balanced u2" "depth_ok n v2"
        using 1(1) Cons by force
      then show ?thesis
        using uv Cons Opens balanced.bal_node [of u u2]
        by (intro exI [of _ "Opens # u @ Closes # u2"] exI [of _ v2]) simp
    qed
  qed
qed

lemma balanced_iff_depth: "balanced w \<longleftrightarrow> depth_ok 0 w"
proof
  show "balanced w \<Longrightarrow> depth_ok 0 w" using balanced_append [of w 0 "[]"] by simp
  show "depth_ok 0 w \<Longrightarrow> balanced w"
  proof (induction w rule: length_induct)
    case (1 w)
    show ?case
    proof (cases w)
      case Nil
      then show ?thesis by (simp add: balanced.bal_nothing)
    next
      case (Cons b w')
      show ?thesis
      proof (cases b)
        case Opens
        then obtain u v where "w' = u @ Closes # v" "balanced u" "depth_ok 0 v"
          using depth_ok_Suc [of 0 w'] Cons 1(2) by auto
        then show ?thesis using 1(1) Cons Opens by (auto intro: balanced.bal_node)
      qed (use 1 Cons in \<open>auto intro: balanced.bal_flat\<close>)
    qed
  qed
qed

text \<open>
  C30: the guard accepts exactly the UTF-8 bodies that are not cut inside a tag and whose
  tags, self-closing ones and declarations apart, form a word of the bracket language:
  every closing tag has an open one to close, and everything opened is closed.
\<close>

theorem safe_iff_balanced:
  "is_safe_to_read body \<longleftrightarrow>
     from_utf8_ok body \<and> (\<exists>w. brackets body = Some w \<and> balanced w)"
  by (simp add: is_safe_to_read_def scan_tags_depth balanced_iff_depth)


section \<open>A document that was cut\<close>

lemma next_tag_None: "CHR ''<'' \<notin> set a \<Longrightarrow> next_tag a = None"
proof -
  assume "CHR ''<'' \<notin> set a"
  then have d: "dropWhile (\<lambda>b. b \<noteq> CHR ''<'') a = []" by auto
  show "next_tag a = None" by (simp only: next_tag_def d list.case)
qed

lemma next_tag_cut:
  assumes "CHR ''<'' \<notin> set tx" "CHR ''>'' \<notin> set inner"
  shows "next_tag (tx @ CHR ''<'' # inner) = Some None"
proof -
  have d1: "dropWhile (\<lambda>b. b \<noteq> CHR ''<'') (tx @ CHR ''<'' # inner) = CHR ''<'' # inner"
    by (rule dropWhile_append_stop) (use assms in auto)
  have d2: "dropWhile (\<lambda>b. b \<noteq> CHR ''>'') (CHR ''<'' # inner) = []" using assms by auto
  show ?thesis by (simp only: next_tag_def d1 d2 list.case)
qed

lemma next_tag_whole:
  assumes "CHR ''<'' \<notin> set tx" "CHR ''>'' \<notin> set inner"
  shows "next_tag (tx @ CHR ''<'' # inner @ CHR ''>'' # rest)
    = Some (Some (CHR ''<'' # inner @ [CHR ''>''], rest))"
proof -
  have "dropWhile (\<lambda>b. b \<noteq> CHR ''<'') (tx @ CHR ''<'' # inner @ CHR ''>'' # rest)
      = CHR ''<'' # inner @ CHR ''>'' # rest"
    by (rule dropWhile_append_stop) (use assms in auto)
  moreover have "dropWhile (\<lambda>b. b \<noteq> CHR ''>'') ((CHR ''<'' # inner) @ CHR ''>'' # rest) = CHR ''>'' # rest"
    by (rule dropWhile_append_stop) (use assms in auto)
  moreover have "takeWhile (\<lambda>b. b \<noteq> CHR ''>'') ((CHR ''<'' # inner) @ CHR ''>'' # rest) = CHR ''<'' # inner"
    by (rule takeWhile_append_stop) (use assms in auto)
  ultimately show ?thesis by (simp add: next_tag_def)
qed

text \<open>The three shapes a body can have, by its first tag.\<close>

lemma body_cases:
  obtains (plain) "CHR ''<'' \<notin> set body"
  | (torn) tx inner where "body = tx @ CHR ''<'' # inner" "CHR ''<'' \<notin> set tx" "CHR ''>'' \<notin> set inner"
  | (tagged) tx inner rest where "body = tx @ CHR ''<'' # inner @ CHR ''>'' # rest"
      "CHR ''<'' \<notin> set tx" "CHR ''>'' \<notin> set inner"
proof (cases "CHR ''<'' \<in> set body")
  case True
  then obtain tx inner where b: "body = tx @ CHR ''<'' # inner" "CHR ''<'' \<notin> set tx"
    using split_list_first [of "CHR ''<''" body] by blast
  show ?thesis
  proof (cases "CHR ''>'' \<in> set inner")
    case True
    then obtain inner' rest where "inner = inner' @ CHR ''>'' # rest" "CHR ''>'' \<notin> set inner'"
      using split_list_first [of "CHR ''>''" inner] by blast
    then show ?thesis using b by (intro tagged [of tx inner' rest]) simp_all
  qed (use torn b in blast)
qed (use plain in blast)

lemma brackets_text: "CHR ''<'' \<notin> set a \<Longrightarrow> brackets a = Some []"
  by (simp add: brackets.simps [of a] next_tag_None)

lemma brackets_cut:
  "CHR ''<'' \<notin> set tx \<Longrightarrow> CHR ''>'' \<notin> set inner \<Longrightarrow> brackets (tx @ CHR ''<'' # inner) = None"
  by (simp add: brackets.simps [of "tx @ CHR ''<'' # inner"] next_tag_cut)

lemma brackets_tag:
  "CHR ''<'' \<notin> set tx \<Longrightarrow> CHR ''>'' \<notin> set inner \<Longrightarrow>
   brackets (tx @ CHR ''<'' # inner @ CHR ''>'' # rest)
   = map_option ((#) (bracket_of (CHR ''<'' # inner @ [CHR ''>'']))) (brackets rest)"
  by (simp add: brackets.simps [of "tx @ CHR ''<'' # inner @ CHR ''>'' # rest"] next_tag_whole)

lemma brackets_text_append:
  assumes "CHR ''<'' \<notin> set a"
  shows "brackets (a @ b) = brackets b"
proof (cases b rule: body_cases)
  case plain
  then show ?thesis using assms by (simp add: brackets_text)
next
  case (torn tx inner)
  then show ?thesis
    using assms brackets_cut [of "a @ tx" inner] brackets_cut [of tx inner] by simp
next
  case (tagged tx inner rest)
  then show ?thesis
    using assms brackets_tag [of "a @ tx" inner rest] brackets_tag [of tx inner rest] by simp
qed

lemma brackets_append:
  "brackets a = Some w \<Longrightarrow> brackets (a @ b) = map_option ((@) w) (brackets b)"
proof (induction a arbitrary: w rule: length_induct)
  case (1 a)
  show ?case
  proof (cases a rule: body_cases)
    case plain
    then show ?thesis
      using 1(2) by (simp add: brackets_text brackets_text_append option.map_ident)
  next
    case (torn tx inner)
    then show ?thesis using 1(2) by (simp add: brackets_cut)
  next
    case (tagged tx inner rest)
    let ?b = "bracket_of (CHR ''<'' # inner @ [CHR ''>''])"
    obtain w' where w': "brackets rest = Some w'" "w = ?b # w'"
      using 1(2) tagged by (auto simp: brackets_tag)
    then have "brackets (rest @ b) = map_option ((@) w') (brackets b)"
      using 1(1) tagged(1) by simp
    then show ?thesis
      using tagged w'(2) brackets_tag [of tx inner "rest @ b"]
      by (simp add: option.map_comp comp_def)
  qed
qed

lemma brackets_prefix: "brackets a = Some v \<Longrightarrow> brackets (a @ b) = Some w \<Longrightarrow> prefix v w"
  using brackets_append [of a v b] by (cases "brackets b") auto

lemma depth_ok_count:
  "depth_ok n w \<Longrightarrow> count_list w Closes = n + count_list w Opens"
  by (induction n w rule: depth_ok.induct) auto

lemma depth_ok_prefix_count:
  "depth_ok n (u @ v) \<Longrightarrow> count_list u Closes \<le> n + count_list u Opens"
  by (induction n u rule: depth_ok.induct) auto

text \<open>Inside an element: what has been opened around a part of balanced content stays open.\<close>

lemma inside_not_balanced:
  assumes "balanced w" "prefix u w"
  shows "\<not> balanced (Opens # u)"
proof
  assume "balanced (Opens # u)"
  then have "count_list u Closes = 1 + count_list u Opens"
    using depth_ok_count [of 0 "Opens # u"] by (simp add: balanced_iff_depth)
  moreover have "count_list u Closes \<le> count_list u Opens"
    using assms depth_ok_prefix_count [of 0 u] by (auto simp: balanced_iff_depth prefix_def)
  ultimately show False by simp
qed


text \<open>The inside of an opening tag: nothing in it that the scan would take for something else.\<close>

definition element_name :: "bytes \<Rightarrow> bool" where
  "element_name n \<longleftrightarrow>
     n \<noteq> [] \<and> CHR ''<'' \<notin> set n \<and> CHR ''>'' \<notin> set n \<and> hd n \<notin> set ''/?!'' \<and> last n \<noteq> CHR ''/''"

text \<open>An element: its name, the rest of its opening tag (attributes and white space), its content.\<close>

definition element :: "bytes \<Rightarrow> bytes \<Rightarrow> bytes \<Rightarrow> bytes" where
  "element name attrs content = ''<'' @ name @ attrs @ ''>'' @ content @ ''</'' @ name @ ''>''"

lemma bracket_of_open: "element_name n \<Longrightarrow> bracket_of (CHR ''<'' # n @ [CHR ''>'']) = Opens"
proof -
  assume n: "element_name n"
  then obtain c cs where c: "n = c # cs" by (cases n) (auto simp: element_name_def)
  have "(CHR ''<'' # n @ [CHR ''>'']) ! (length (CHR ''<'' # n @ [CHR ''>'']) - 2) = last n"
    using c by (auto simp: nth_append last_conv_nth nth_Cons')
  then show ?thesis using n c by (auto simp: bracket_of_def element_name_def)
qed

lemma bracket_of_close: "bracket_of (CHR ''<'' # (CHR ''/'' # n) @ [CHR ''>'']) = Closes"
  by (simp add: bracket_of_def)

lemma brackets_open:
  "element_name n \<Longrightarrow> brackets (''<'' @ n @ ''>'' @ rest) = map_option ((#) Opens) (brackets rest)"
  using brackets_tag [of "[]" n rest] by (simp add: bracket_of_open element_name_def)

lemma brackets_close:
  "CHR ''>'' \<notin> set n \<Longrightarrow> brackets (''</'' @ n @ ''>'' @ rest) = map_option ((#) Closes) (brackets rest)"
  using brackets_tag [of "[]" "CHR ''/'' # n" rest] bracket_of_close [of n] by simp

lemma brackets_element:
  assumes "element_name (n @ a)" "brackets content = Some w"
  shows "brackets (element n a content) = Some (Opens # w @ [Closes])"
proof -
  have "brackets (''</'' @ n @ ''>'') = Some [Closes]"
    using brackets_close [of n "[]"] assms(1) brackets_text [of "[]"] by (simp add: element_name_def)
  then have "brackets (content @ ''</'' @ n @ ''>'') = Some (w @ [Closes])"
    using brackets_append [OF assms(2)] by simp
  then show ?thesis using brackets_open [OF assms(1)] by (simp add: element_def)
qed

text \<open>The prolog: declarations, comments and white space, complete.\<close>

definition prolog :: "bytes \<Rightarrow> bool" where
  "prolog p \<longleftrightarrow> (\<exists>k. brackets p = Some (replicate k Flat))"

lemma balanced_flats: "balanced (replicate k Flat @ w) \<longleftrightarrow> balanced w"
  by (induction k) (auto intro: balanced.bal_flat)

lemma cut_inside_element:
  assumes n: "element_name (n @ a)" and c: "brackets content = Some w" "balanced w"
    and cut: "0 < i" "i < length (element n a content)" and u: "brackets (take i (element n a content)) = Some u"
  shows "\<not> balanced u"
proof -
  let ?open = "''<'' @ n @ a @ ''>''" and ?close = "''</'' @ n @ ''>''"
  have no_gt: "CHR ''>'' \<notin> set n" "CHR ''>'' \<notin> set (n @ a)" using n by (simp_all add: element_name_def)
  consider (in_open) "i < length ?open" | (in_content) "length ?open \<le> i" "i \<le> length ?open + length content"
    | (in_close) "length ?open + length content < i" by linarith
  then show ?thesis
  proof cases
    case in_open
    then obtain j where "i = Suc j" "j \<le> length (n @ a)" using cut(1) by (cases i) auto
    then have "take i (element n a content) = [] @ CHR ''<'' # take j (n @ a)" by (simp add: element_def)
    moreover have "CHR ''>'' \<notin> set (take j (n @ a))" using no_gt(2) by (meson in_set_takeD)
    ultimately show ?thesis using u brackets_cut [of "[]" "take j (n @ a)"] by simp
  next
    case in_content
    let ?m = "take (i - length ?open) content"
    have t: "take i (element n a content) = ''<'' @ (n @ a) @ ''>'' @ ?m"
      using in_content by (simp add: element_def take_Cons')
    then have "map_option ((#) Opens) (brackets ?m) = Some u"
      using u brackets_open [OF n, of ?m] by simp
    then obtain v where v: "brackets ?m = Some v" "u = Opens # v"
      by (auto simp only: map_option_eq_Some)
    have "prefix v w"
      using brackets_prefix [OF v(1), of "drop (i - length ?open) content" w] c(1) by simp
    then show ?thesis using v(2) inside_not_balanced [OF c(2)] by simp
  next
    case in_close
    let ?j = "i - length ?open - length content"
    have j: "0 < ?j" "?j < length ?close" using in_close cut(2) by (simp_all add: element_def)
    then obtain j' where j': "?j = Suc j'" "j' \<le> Suc (length n)" by (cases ?j) auto
    have "take i (element n a content) = ''<'' @ (n @ a) @ ''>'' @ content @ take ?j ?close"
      using in_close by (simp add: element_def take_Cons')
    moreover have "take ?j ?close = [] @ CHR ''<'' # take j' (CHR ''/'' # n)"
      using j' by (auto simp: take_Cons')
    moreover have "brackets ([] @ CHR ''<'' # take j' (CHR ''/'' # n)) = None"
      using no_gt by (intro brackets_cut) (auto simp: take_Cons' dest: in_set_takeD)
    ultimately show ?thesis
      using u brackets_open [OF n] brackets_append [OF c(1)] by simp
  qed
qed

lemma cut_not_safe:
  assumes "prolog p" "element_name (n @ a)" "brackets content = Some w" "balanced w"
    and i: "length p < i" "i < length (p @ element n a content)"
  shows "\<not> is_safe_to_read (take i (p @ element n a content))"
proof -
  obtain k where k: "brackets p = Some (replicate k Flat)" using assms(1) by (auto simp: prolog_def)
  let ?e = "take (i - length p) (element n a content)"
  have "take i (p @ element n a content) = p @ ?e" using i by simp
  moreover have "\<not> balanced u" if "brackets ?e = Some u" for u
    using cut_inside_element [OF assms(2-4) _ _ that] i by simp
  ultimately show ?thesis
    using brackets_append [OF k, of ?e]
    by (auto simp: is_safe_to_read_def scan_tags_depth balanced_iff_depth [symmetric] balanced_flats)
qed

lemma whole_is_safe:
  assumes "prolog p" "element_name (n @ a)" "brackets content = Some w" "balanced w"
    and "from_utf8_ok (p @ element n a content)"
  shows "is_safe_to_read (p @ element n a content)"
proof -
  obtain k where k: "brackets p = Some (replicate k Flat)" using assms(1) by (auto simp: prolog_def)
  have "brackets (p @ element n a content) = Some (replicate k Flat @ Opens # w @ [Closes])"
    using brackets_append [OF k] brackets_element [OF assms(2,3)] by simp
  moreover have "balanced (Opens # w @ [Closes])"
    using balanced.bal_node [OF assms(4) balanced.bal_nothing] by simp
  ultimately show ?thesis
    using assms(5)
    by (auto simp: is_safe_to_read_def scan_tags_depth balanced_iff_depth [symmetric] balanced_flats)
qed

text \<open>
  A document that the connection cut short is refused wherever the cut falls: of a
  prolog followed by one element with complete content, no part that ends inside the
  element is accepted, while the whole document is.
\<close>

lemma cut_document_is_refused:
  assumes "prolog p" "element_name (n @ a)" "brackets content = Some w" "balanced w"
  shows "(length p < i \<and> i < length (p @ element n a content) \<longrightarrow>
            \<not> is_safe_to_read (take i (p @ element n a content)))
    \<and> (from_utf8_ok (p @ element n a content) \<longrightarrow> is_safe_to_read (p @ element n a content))"
  using cut_not_safe [OF assms] whole_is_safe [OF assms] by blast

lemma cut_document_is_refused_example:
  "\<not> is_safe_to_read ''<?xml version=1.0?><A x=1><B>text</B>''
   \<and> is_safe_to_read ''<?xml version=1.0?><A x=1><B>text</B></A>''"
proof -
  have p: "prolog ''<?xml version=1.0?>''"
    unfolding prolog_def by (rule exI [of _ 1]) code_simp
  have n: "element_name (''A'' @ '' x=1'')" by code_simp
  have c: "brackets ''<B>text</B>'' = Some [Opens, Closes]" by code_simp
  have b: "balanced [Opens, Closes]" by (simp add: balanced_iff_depth)
  have u: "from_utf8_ok (''<?xml version=1.0?>'' @ element ''A'' '' x=1'' ''<B>text</B>'')" by code_simp
  from cut_document_is_refused [OF p n c b, of 37] u show ?thesis
    by (simp add: element_def)
qed


section \<open>Entities\<close>

text \<open>What a storage does to a text before it puts it into a node.\<close>

definition escape_char :: "char \<Rightarrow> bytes" where
  "escape_char c =
     (if c = CHR ''&'' then ''&amp;''
      else if c = CHR ''<'' then ''&lt;''
      else if c = CHR ''>'' then ''&gt;''
      else if c = CHR 0x22 then ''&quot;''
      else if c = CHR 0x27 then ''&apos;''
      else [c])"

definition escape :: "bytes \<Rightarrow> bytes" where
  "escape s = concat (map escape_char s)"

lemma unescape_from_nil: "unescape_from result [] = result"
  by (simp add: unescape_from.simps [of result "[]"])

lemma unescape_from_plain:
  assumes "c \<noteq> CHR ''&''"
  shows "unescape_from result (c # rest) = unescape_from (result @ [c]) rest"
  unfolding unescape_from.simps [of result "c # rest"] unescape_from.simps [of "result @ [c]" rest]
  using assms
  by (cases "dropWhile (\<lambda>c. c \<noteq> CHR ''&'') rest") (simp_all del: dropWhile_eq_Nil_conv add: Let_def split: option.split prod.split)

lemma unescape_from_entity:
  "unescape_from result (escape_char c @ rest) = unescape_from (result @ [c]) rest"
proof (cases "c \<in> set [CHR ''&'', CHR ''<'', CHR ''>'', CHR 0x22, CHR 0x27]")
  case True
  then show ?thesis
    by (subst unescape_from.simps) (auto simp: escape_char_def entities_def)
next
  case False
  then show ?thesis by (simp add: escape_char_def unescape_from_plain)
qed

lemma unescape_from_escape: "unescape_from result (escape s) = result @ s"
  by (induction s arbitrary: result)
    (simp_all add: escape_def unescape_from_nil unescape_from_entity)

lemma unescape_from_no_entity: "CHR ''&'' \<notin> set src \<Longrightarrow> unescape_from result src = result @ src"
  by (induction src arbitrary: result) (auto simp: unescape_from_nil unescape_from_plain)

lemma unescape_eq: "unescape src = unescape_from [] src"
  by (simp add: unescape_def unescape_from_no_entity)

interpretation entity_codec: codec escape unescape "\<lambda>_. True"
  by unfold_locales (simp add: unescape_eq unescape_from_escape)

lemma escape_safe: "CHR ''<'' \<notin> set (escape s)" "CHR ''>'' \<notin> set (escape s)"
  by (induction s) (auto simp: escape_def escape_char_def)

text \<open>
  So a text put into a node with its special characters escaped is read back exactly,
  whatever it contains, and the escaped text cannot hold a tag.
\<close>

lemma unescape_escape: "unescape (escape s) = s" "brackets (escape s) = Some []"
  by (simp_all add: entity_codec.dec_enc brackets_text escape_safe)

section \<open>Texts are texts\<close>

text \<open>
  What is read is a text, whatever the reader answers: the bytes between two tags are
  checked, and the decoder only ever cuts a text at a \<open>&\<close> and behind an entity.
\<close>

lemma entity_utf8: "(ent, c) \<in> set entities \<Longrightarrow> from_utf8_ok ent \<and> byte_val c < 128"
  by (auto simp: entities_def)

lemma unescape_from_utf8:
  "from_utf8_ok result \<Longrightarrow> from_utf8_ok rest \<Longrightarrow> from_utf8_ok (unescape_from result rest)"
proof (induction result rest rule: unescape_from.induct)
  case (1 result rest)
  show ?case
  proof (cases "dropWhile (\<lambda>c. c \<noteq> CHR ''&'') rest")
    case Nil
    then show ?thesis using 1(3,4) by (simp add: unescape_from.simps [of result rest] del: dropWhile_eq_Nil_conv)
  next
    case (Cons amp tl)
    let ?before = "takeWhile (\<lambda>c. c \<noteq> CHR ''&'') rest"
    have amp: "amp = CHR ''&''" using hd_dropWhile [of "\<lambda>c. c \<noteq> CHR ''&''" rest] Cons by auto
    have rest: "rest = ?before @ amp # tl" using takeWhile_dropWhile_id [of "\<lambda>c. c \<noteq> CHR ''&''" rest] Cons by simp
    then have parts: "from_utf8_ok ?before" "from_utf8_ok tl" "from_utf8_ok (amp # tl)"
      using 1(4) from_utf8_ok_cut [of amp ?before tl] amp by simp_all
    show ?thesis
    proof (cases "find (\<lambda>(entity, _). starts_with (amp # tl) entity) entities")
      case None
      then have "unescape_from result rest = unescape_from (result @ ?before @ [CHR ''&'']) (drop 1 (amp # tl))"
        using Cons by (simp add: unescape_from.simps [of result rest])
      then show ?thesis using 1(1) [OF Cons refl None] 1(3) parts by simp
    next
      case (Some found)
      obtain ent c where f: "found = (ent, c)" by fastforce
      then have ent: "(ent, c) \<in> set entities" "starts_with (amp # tl) ent"
        using Some by (auto simp: find_Some_iff) (metis nth_mem)
      then obtain post where post: "amp # tl = ent @ post" by (auto simp: prefix_def)
      have "unescape_from result rest = unescape_from (result @ ?before @ [c]) (drop (length ent) (amp # tl))"
        using Cons Some f by (simp add: unescape_from.simps [of result rest])
      moreover have "from_utf8_ok post" using parts(3) post entity_utf8 [OF ent(1)] by simp
      ultimately show ?thesis
        using 1(2) [OF Cons refl Some f [symmetric]] 1(3) parts(1) post entity_utf8 [OF ent(1)] by simp
    qed
  qed
qed

lemma unescape_utf8: "from_utf8_ok s \<Longrightarrow> from_utf8_ok (unescape s)"
  by (simp add: unescape_eq unescape_from_utf8)

lemma escape_utf8: "from_utf8_ok s \<Longrightarrow> from_utf8_ok (escape s)"
proof (induction s rule: length_induct)
  case (1 s)
  let ?plain = "\<lambda>c. c \<notin> set [CHR ''&'', CHR ''<'', CHR ''>'', CHR 0x22, CHR 0x27]"
  have id: "escape a = a" if "\<forall>c\<in>set a. ?plain c" for a
    using that by (induction a) (auto simp: escape_def escape_char_def)
  show ?case
  proof (cases "\<forall>c\<in>set s. ?plain c")
    case True
    then show ?thesis using 1(2) id [of s] by simp
  next
    case False
    then obtain a c b where s: "s = a @ c # b" "\<not> ?plain c" "\<forall>c\<in>set a. ?plain c"
      using split_list_first_prop [of s "\<lambda>c. \<not> ?plain c"] by blast
    have ascii: "byte_val c < 128" using s(2) by auto
    have e: "from_utf8_ok (escape_char c)" using ascii by (simp add: escape_char_def)
    note id [OF s(3)]
    moreover have "from_utf8_ok a" "from_utf8_ok b" using 1(2) from_utf8_ok_cut [OF ascii] s by simp_all
    moreover have "escape s = escape a @ escape_char c @ escape b" using s by (simp add: escape_def)
    moreover have "length b < length s" using s by simp
    ultimately show ?thesis using 1(1) e by simp
  qed
qed

lemma read_node_text_utf8: "read_node_text x body path = Some s \<Longrightarrow> from_utf8_ok s"
  by (auto simp: read_node_text_def Let_def unescape_utf8
      split: if_splits sum.splits option.splits prod.splits)

lemma read_text_utf8: "read_text x t w = (Inr s, w') \<Longrightarrow> from_utf8_ok s"
  by (auto simp: read_text_def unescape_utf8 split: if_splits sum.splits option.splits prod.splits)

end
