(* ===== verification/List_Objects.thy ===== *)
theory List_Objects
  imports Xml S3_Error
begin

text \<open>
  \<^verbatim>\<open>src/list_objects.rs\<close>: reading one page of a \<open>ListObjectsV2\<close> answer.

  The three loops over child elements end when the XML reader says so, so they are
  \<open>partial_function (option)\<close>: \<open>None\<close> is a loop that a reader never lets end. \<open>walks\<close>
  describes what the reader makes of a document (its children in order, each with its
  text); for such a reader the parse returns, and its result is the one of a plain fold
  over the children.

  Shown: a page has a continuation token exactly when the storage said the listing is
  truncated, and truncated without a token is an error; a size that is missing or not a
  number is never defaulted; every string of a page is valid UTF-8, for any reader and any
  body. What whole documents are parsed to is in \<open>Listing_Documents\<close>.
\<close>

section \<open>Definitions\<close>

record S3ListObjectsRequest =
  req_prefix :: "bytes option"
  req_delimiter :: "bytes option"
  req_continuation_token :: "bytes option"
  req_max_keys :: "u32 option"

record S3ObjectInfo =
  obj_key :: bytes
  obj_size :: u64
  obj_last_modified :: bytes
  obj_etag :: "bytes option"

record S3ListObjectsPage =
  common_prefixes :: "bytes list"
  objects :: "S3ObjectInfo list"
  next_continuation_token :: "bytes option"

definition PAGE_ELEMENTS :: "bytes list" where
  "PAGE_ELEMENTS = [''Contents'', ''CommonPrefixes'', ''IsTruncated'', ''NextContinuationToken'']"

definition OBJECT_ELEMENTS :: "bytes list" where
  "OBJECT_ELEMENTS = [''Key'', ''Size'', ''LastModified'', ''ETag'']"

definition malformed :: "bytes \<Rightarrow> S3Error" where
  "malformed err = Other (''ListObjectsV2 answered with malformed XML: '' @ err)"

definition required :: "bytes option \<Rightarrow> bytes \<Rightarrow> (bytes, S3Error) result" where
  "required value name =
     ok_or_else value (Other (''ListObjectsV2 sent a <Contents> with no <'' @ name @ ''> in it''))"

text \<open>The four \<open>let mut\<close> of \<open>read_object\<close>.\<close>

record object_fields =
  f_key :: "bytes option"
  f_size :: "bytes option"
  f_last_modified :: "bytes option"
  f_etag :: "bytes option"

definition no_fields :: object_fields where
  "no_fields = \<lparr>f_key = None, f_size = None, f_last_modified = None, f_etag = None\<rparr>"

definition set_field :: "bytes \<Rightarrow> bytes \<Rightarrow> object_fields \<Rightarrow> object_fields" where
  "set_field name value f =
     (if name = ''Key'' then f\<lparr>f_key := Some value\<rparr>
      else if name = ''Size'' then f\<lparr>f_size := Some value\<rparr>
      else if name = ''LastModified'' then f\<lparr>f_last_modified := Some value\<rparr>
      else if name = ''ETag'' then f\<lparr>f_etag := Some value\<rparr>
      else f)"

partial_function (option) read_fields ::
  "'r xml_reader \<Rightarrow> xml_tag_info \<Rightarrow> object_fields \<Rightarrow> 'r XmlWalker
   \<Rightarrow> ((object_fields, S3Error) result \<times> 'r XmlWalker) option"
where
  "read_fields x contents f walker =
     (case next_child_of x contents OBJECT_ELEMENTS walker of
        None \<Rightarrow> None
      | Some (Inl e, w1) \<Rightarrow> Some (Inl (malformed e), w1)
      | Some (Inr None, w1) \<Rightarrow> Some (Inr f, w1)
      | Some (Inr (Some field), w1) \<Rightarrow>
          (case read_text x field w1 of
             (Inl e, w2) \<Rightarrow> Some (Inl (malformed e), w2)
           | (Inr value, w2) \<Rightarrow> read_fields x contents (set_field (tag_name field) value f) w2))"

text \<open>The end of \<open>read_object\<close>: what has to be there, and a size that has to be a number.\<close>

definition object_of :: "object_fields \<Rightarrow> (S3ObjectInfo, S3Error) result" where
  "object_of f =
     try_bind (required (f_key f) ''Key'') (\<lambda>key.
     try_bind (required (f_last_modified f) ''LastModified'') (\<lambda>last_modified.
     try_bind (required (f_size f) ''Size'') (\<lambda>sz.
     try_bind
       (ok_or_else (parse_u64 (trim sz))
          (Other (''ListObjectsV2 gave <Size>'' @ sz @ ''</Size> for key '' @ key
                  @ '', which is not a byte count'')))
       (\<lambda>n. Inr \<lparr>obj_key = key, obj_size = n, obj_last_modified = last_modified,
                obj_etag = f_etag f\<rparr>))))"

definition read_object ::
  "'r xml_reader \<Rightarrow> xml_tag_info \<Rightarrow> 'r XmlWalker
   \<Rightarrow> ((S3ObjectInfo, S3Error) result \<times> 'r XmlWalker) option"
where
  "read_object x contents walker =
     map_option (\<lambda>(f, w). (try_bind f object_of, w)) (read_fields x contents no_fields walker)"

partial_function (option) read_prefixes ::
  "'r xml_reader \<Rightarrow> xml_tag_info \<Rightarrow> bool \<Rightarrow> bytes list \<Rightarrow> 'r XmlWalker
   \<Rightarrow> ((bool \<times> bytes list, S3Error) result \<times> 'r XmlWalker) option"
where
  "read_prefixes x node found dest walker =
     (case next_child_of x node [''Prefix''] walker of
        None \<Rightarrow> None
      | Some (Inl e, w1) \<Rightarrow> Some (Inl (malformed e), w1)
      | Some (Inr None, w1) \<Rightarrow> Some (Inr (found, dest), w1)
      | Some (Inr (Some child), w1) \<Rightarrow>
          (case read_text x child w1 of
             (Inl e, w2) \<Rightarrow> Some (Inl (malformed e), w2)
           | (Inr value, w2) \<Rightarrow> read_prefixes x node True (dest @ [value]) w2))"

definition no_prefix :: S3Error where
  "no_prefix = Other ''ListObjectsV2 sent a <CommonPrefixes> with no <Prefix> in it''"

definition read_common_prefixes ::
  "'r xml_reader \<Rightarrow> xml_tag_info \<Rightarrow> bytes list \<Rightarrow> 'r XmlWalker
   \<Rightarrow> ((bytes list, S3Error) result \<times> 'r XmlWalker) option"
where
  "read_common_prefixes x node dest walker =
     map_option
       (\<lambda>(a, w). (try_bind a (\<lambda>(found, dest'). if \<not> found then Inl no_prefix else Inr dest'), w))
       (read_prefixes x node False dest walker)"

text \<open>The four \<open>let mut\<close> of the page loop.\<close>

record page_state =
  pg_prefixes :: "bytes list"
  pg_objects :: "S3ObjectInfo list"
  pg_truncated :: bool
  pg_token :: "bytes option"

definition empty_page :: page_state where
  "empty_page = \<lparr>pg_prefixes = [], pg_objects = [], pg_truncated = False, pg_token = None\<rparr>"

definition is_true :: "bytes \<Rightarrow> bool" where
  "is_true value \<longleftrightarrow> eq_ignore_ascii_case (trim value) ''true''"

text \<open>One arm of the \<open>match node.name\<close>.\<close>

definition read_element ::
  "'r xml_reader \<Rightarrow> xml_tag_info \<Rightarrow> page_state \<Rightarrow> 'r XmlWalker
   \<Rightarrow> ((page_state, S3Error) result \<times> 'r XmlWalker) option"
where
  "read_element x node pg walker =
     (if tag_name node = ''Contents'' then
        map_option (\<lambda>(o', w). (try_bind o' (\<lambda>ob. Inr (pg\<lparr>pg_objects := pg_objects pg @ [ob]\<rparr>)), w))
          (read_object x node walker)
      else if tag_name node = ''CommonPrefixes'' then
        map_option (\<lambda>(p, w). (try_bind p (\<lambda>ps. Inr (pg\<lparr>pg_prefixes := ps\<rparr>)), w))
          (read_common_prefixes x node (pg_prefixes pg) walker)
      else if tag_name node = ''IsTruncated'' then
        (let (v, w) = read_text x node walker in
         Some (try_bind (map_err malformed v) (\<lambda>value. Inr (pg\<lparr>pg_truncated := is_true value\<rparr>)), w))
      else if tag_name node = ''NextContinuationToken'' then
        (let (v, w) = read_text x node walker in
         Some (try_bind (map_err malformed v)
           (\<lambda>value. Inr (if value \<noteq> [] then pg\<lparr>pg_token := Some value\<rparr> else pg)), w))
      else Some (Inr pg, walker))"

partial_function (option) read_page ::
  "'r xml_reader \<Rightarrow> page_state \<Rightarrow> 'r XmlWalker \<Rightarrow> (page_state, S3Error) result option"
where
  "read_page x pg walker =
     (case next_child x PAGE_ELEMENTS walker of
        None \<Rightarrow> None
      | Some (Inl e, w1) \<Rightarrow> Some (Inl (malformed e))
      | Some (Inr None, w1) \<Rightarrow> Some (Inr pg)
      | Some (Inr (Some node), w1) \<Rightarrow>
          (case read_element x node pg w1 of
             None \<Rightarrow> None
           | Some (Inl e, w2) \<Rightarrow> Some (Inl e)
           | Some (Inr pg', w2) \<Rightarrow> read_page x pg' w2))"

definition truncated_without_token :: S3Error where
  "truncated_without_token =
     Other ''ListObjectsV2 reported a truncated listing but sent no NextContinuationToken''"

definition page_of :: "page_state \<Rightarrow> (S3ListObjectsPage, S3Error) result" where
  "page_of pg =
     (if \<not> pg_truncated pg then
        Inr \<lparr>common_prefixes = pg_prefixes pg, objects = pg_objects pg, next_continuation_token = None\<rparr>
      else if pg_token pg = None then Inl truncated_without_token
      else
        Inr \<lparr>common_prefixes = pg_prefixes pg, objects = pg_objects pg,
             next_continuation_token = pg_token pg\<rparr>)"

definition not_a_listing :: "bytes \<Rightarrow> bytes \<Rightarrow> S3Error" where
  "not_a_listing why body =
     Other (''ListObjectsV2 answered with a body that is not a ListBucketResult'' @ why @ '': ''
            @ from_utf8_lossy body)"

definition parse_list_objects_v2 :: "'r xml_reader \<Rightarrow> bytes \<Rightarrow> (S3ListObjectsPage, S3Error) result option" where
  "parse_list_objects_v2 x body =
     (case open_walker x body ''ListBucketResult'' of
        Inl err \<Rightarrow> Some (Inl (not_a_listing ('' ('' @ err @ '')'') body))
      | Inr None \<Rightarrow> Some (Inl (not_a_listing [] body))
      | Inr (Some walker) \<Rightarrow>
          map_option (\<lambda>pg. try_bind pg page_of) (read_page x empty_page walker))"


section \<open>What a reader makes of a document\<close>

text \<open>The children of \<open>parent\<close> in order, each with its name and text, as the walker gives them.\<close>

inductive children_text ::
  "'r xml_reader \<Rightarrow> xml_tag_info \<Rightarrow> bytes list \<Rightarrow> 'r XmlWalker \<Rightarrow> (bytes \<times> bytes) list
   \<Rightarrow> 'r XmlWalker \<Rightarrow> bool"
for x parent names where
  no_child: "next_child_of x parent names w = Some (Inr None, w') \<Longrightarrow> children_text x parent names w [] w'"
| a_child: "next_child_of x parent names w = Some (Inr (Some t), w1) \<Longrightarrow> read_text x t w1 = (Inr v, w2) \<Longrightarrow>
    children_text x parent names w2 fs w' \<Longrightarrow> children_text x parent names w ((tag_name t, v) # fs) w'"

datatype page_element =
    Contents "(bytes \<times> bytes) list"
  | CommonPrefixes "bytes list"
  | IsTruncated bytes
  | NextContinuationToken bytes

inductive walks :: "'r xml_reader \<Rightarrow> 'r XmlWalker \<Rightarrow> page_element list \<Rightarrow> bool" for x where
  walk_end: "next_child x PAGE_ELEMENTS w = Some (Inr None, w') \<Longrightarrow> walks x w []"
| walk_contents: "next_child x PAGE_ELEMENTS w = Some (Inr (Some t), w1) \<Longrightarrow> tag_name t = ''Contents'' \<Longrightarrow>
    children_text x t OBJECT_ELEMENTS w1 fs w2 \<Longrightarrow> walks x w2 es \<Longrightarrow> walks x w (Contents fs # es)"
| walk_prefixes: "next_child x PAGE_ELEMENTS w = Some (Inr (Some t), w1) \<Longrightarrow> tag_name t = ''CommonPrefixes'' \<Longrightarrow>
    children_text x t [''Prefix''] w1 fs w2 \<Longrightarrow> walks x w2 es \<Longrightarrow>
    walks x w (CommonPrefixes (map snd fs) # es)"
| walk_truncated: "next_child x PAGE_ELEMENTS w = Some (Inr (Some t), w1) \<Longrightarrow> tag_name t = ''IsTruncated'' \<Longrightarrow>
    read_text x t w1 = (Inr v, w2) \<Longrightarrow> walks x w2 es \<Longrightarrow> walks x w (IsTruncated v # es)"
| walk_token: "next_child x PAGE_ELEMENTS w = Some (Inr (Some t), w1) \<Longrightarrow>
    tag_name t = ''NextContinuationToken'' \<Longrightarrow>
    read_text x t w1 = (Inr v, w2) \<Longrightarrow> walks x w2 es \<Longrightarrow> walks x w (NextContinuationToken v # es)"

section \<open>The page as a function of its elements\<close>

definition fields_of :: "(bytes \<times> bytes) list \<Rightarrow> object_fields" where
  "fields_of fs = foldl (\<lambda>f (n, v). set_field n v f) no_fields fs"

fun add_element :: "page_element \<Rightarrow> page_state \<Rightarrow> (page_state, S3Error) result" where
  "add_element (Contents fs) pg =
     try_bind (object_of (fields_of fs)) (\<lambda>ob. Inr (pg\<lparr>pg_objects := pg_objects pg @ [ob]\<rparr>))"
| "add_element (CommonPrefixes ps) pg =
     (if ps = [] then Inl no_prefix else Inr (pg\<lparr>pg_prefixes := pg_prefixes pg @ ps\<rparr>))"
| "add_element (IsTruncated v) pg = Inr (pg\<lparr>pg_truncated := is_true v\<rparr>)"
| "add_element (NextContinuationToken v) pg = Inr (if v \<noteq> [] then pg\<lparr>pg_token := Some v\<rparr> else pg)"

fun add_elements :: "page_element list \<Rightarrow> page_state \<Rightarrow> (page_state, S3Error) result" where
  "add_elements [] pg = Inr pg"
| "add_elements (e # es) pg = try_bind (add_element e pg) (add_elements es)"

lemma read_fields_children:
  "children_text x t OBJECT_ELEMENTS w fs w' \<Longrightarrow>
   read_fields x t f w = Some (Inr (foldl (\<lambda>f (n, v). set_field n v f) f fs), w')"
proof (induction arbitrary: f rule: children_text.induct)
  case (no_child w w')
  then show ?case by (subst read_fields.simps) simp
next
  case (a_child w c w1 v w2 fs w')
  then show ?case by (subst read_fields.simps) simp
qed

lemma read_prefixes_children:
  "children_text x t [''Prefix''] w fs w' \<Longrightarrow>
   read_prefixes x t found dest w = Some (Inr (found \<or> fs \<noteq> [], dest @ map snd fs), w')"
proof (induction arbitrary: found dest rule: children_text.induct)
  case (no_child w w')
  then show ?case by (subst read_prefixes.simps) simp
next
  case (a_child w c w1 v w2 fs w')
  then show ?case by (subst read_prefixes.simps) simp
qed

lemma read_page_walks: "walks x w es \<Longrightarrow> read_page x pg w = Some (add_elements es pg)"
proof (induction arbitrary: pg rule: walks.induct)
  case (walk_end w w')
  then show ?case by (subst read_page.simps) simp
next
  case (walk_contents w t w1 fs w2 es)
  have "read_element x t pg w1 = Some (add_element (Contents fs) pg, w2)"
    using walk_contents(2,3)
    by (simp add: read_element_def read_object_def read_fields_children fields_of_def)
  then show ?case
    using walk_contents(1) walk_contents.IH
    by (subst read_page.simps) (cases "object_of (fields_of fs)"; simp)
next
  case (walk_prefixes w t w1 fs w2 es)
  have "read_element x t pg w1 = Some (add_element (CommonPrefixes (map snd fs)) pg, w2)"
    using walk_prefixes(2,3)
    by (simp add: read_element_def read_common_prefixes_def read_prefixes_children)
  then show ?case
    using walk_prefixes(1) walk_prefixes.IH by (subst read_page.simps) simp
next
  case (walk_truncated w t w1 v w2 es)
  then show ?case by (subst read_page.simps) (simp add: read_element_def)
next
  case (walk_token w t w1 v w2 es)
  then show ?case by (subst read_page.simps) (simp add: read_element_def)
qed

text \<open>The elements of each kind, in the order they came.\<close>

definition contents_of :: "page_element list \<Rightarrow> (bytes \<times> bytes) list list" where
  "contents_of es = concat (map (\<lambda>e. case e of Contents fs \<Rightarrow> [fs] | _ \<Rightarrow> []) es)"

definition prefixes_of :: "page_element list \<Rightarrow> bytes list list" where
  "prefixes_of es = concat (map (\<lambda>e. case e of CommonPrefixes ps \<Rightarrow> [ps] | _ \<Rightarrow> []) es)"

definition truncated_of :: "page_element list \<Rightarrow> bytes list" where
  "truncated_of es = concat (map (\<lambda>e. case e of IsTruncated v \<Rightarrow> [v] | _ \<Rightarrow> []) es)"

definition tokens_of :: "page_element list \<Rightarrow> bytes list" where
  "tokens_of es =
     concat (map (\<lambda>e. case e of NextContinuationToken v \<Rightarrow> if v \<noteq> [] then [v] else [] | _ \<Rightarrow> []) es)"

lemmas element_kinds = contents_of_def prefixes_of_def truncated_of_def tokens_of_def

definition gathered :: "page_element list \<Rightarrow> page_state \<Rightarrow> page_state" where
  "gathered es pg =
     \<lparr>pg_prefixes = pg_prefixes pg @ concat (prefixes_of es),
      pg_objects = pg_objects pg @ map (\<lambda>fs. projr (object_of (fields_of fs))) (contents_of es),
      pg_truncated = last (pg_truncated pg # map is_true (truncated_of es)),
      pg_token = last (pg_token pg # map Some (tokens_of es))\<rparr>"

definition readable :: "page_element list \<Rightarrow> bool" where
  "readable es \<longleftrightarrow>
     list_all (\<lambda>fs. \<not> isl (object_of (fields_of fs))) (contents_of es)
     \<and> list_all (\<lambda>ps. ps \<noteq> []) (prefixes_of es)"

lemma add_elements_gathered:
  "add_elements es pg = Inr pg' \<longleftrightarrow> readable es \<and> pg' = gathered es pg"
proof (induction es arbitrary: pg)
  case Nil
  show ?case by (auto simp: readable_def gathered_def element_kinds)
next
  case (Cons e es)
  show ?case
  proof (cases e)
    case (Contents fs)
    then show ?thesis
      by (cases "object_of (fields_of fs)")
        (auto simp: Cons.IH try_bind_Inr_iff readable_def gathered_def element_kinds)
  next
    case (CommonPrefixes ps)
    then show ?thesis
      by (auto simp: Cons.IH readable_def gathered_def element_kinds)
  next
    case (IsTruncated v)
    then show ?thesis
      by (auto simp: Cons.IH readable_def gathered_def element_kinds)
  next
    case (NextContinuationToken v)
    then show ?thesis
      by (auto simp: Cons.IH readable_def gathered_def element_kinds)
  qed
qed


section \<open>The page\<close>

lemma parse_walks:
  "open_walker x body ''ListBucketResult'' = Inr (Some w) \<Longrightarrow> walks x w es \<Longrightarrow>
   parse_list_objects_v2 x body = Some (try_bind (add_elements es empty_page) page_of)"
  by (simp add: parse_list_objects_v2_def read_page_walks)

text \<open>
  For a document whose elements the reader gives as \<open>es\<close>, the parse returns, and it
  succeeds exactly when every \<open><Contents>\<close> has its required fields and a numeric size, every
  \<open><CommonPrefixes>\<close> has a prefix, and a truncated listing has a token; the page then holds
  the objects and prefixes in document order, and the last token if the listing is
  truncated, none otherwise.
\<close>

lemma page_of_elements:
  "try_bind (add_elements es empty_page) page_of = Inr page \<longleftrightarrow>
     (let truncated = last (False # map is_true (truncated_of es)) in
      readable es \<and> (truncated \<longrightarrow> tokens_of es \<noteq> [])
      \<and> page = \<lparr>common_prefixes = concat (prefixes_of es),
                objects = map (\<lambda>fs. projr (object_of (fields_of fs))) (contents_of es),
                next_continuation_token = (if truncated then Some (last (tokens_of es)) else None)\<rparr>)"
proof -
  let ?t = "last (False # map is_true (truncated_of es))"
  have tok: "last (None # map Some (tokens_of es)) = (if tokens_of es = [] then None else Some (last (tokens_of es)))"
    by (simp add: last_map)
  have "page_of (gathered es empty_page) = Inr page \<longleftrightarrow>
      (?t \<longrightarrow> tokens_of es \<noteq> [])
      \<and> page = \<lparr>common_prefixes = concat (prefixes_of es),
                objects = map (\<lambda>fs. projr (object_of (fields_of fs))) (contents_of es),
                next_continuation_token = (if ?t then Some (last (tokens_of es)) else None)\<rparr>"
    using tok by (auto simp: page_of_def gathered_def empty_page_def)
  moreover have "try_bind (add_elements es empty_page) page_of = Inr page \<longleftrightarrow>
      readable es \<and> page_of (gathered es empty_page) = Inr page"
    by (auto simp: try_bind_Inr_iff add_elements_gathered)
  ultimately show ?thesis unfolding Let_def by blast
qed

lemma named_child:
  "next_child_of x parent names w = Some (Inr (Some t), w1) \<Longrightarrow> read_text x t w1 = (Inr v, w2) \<Longrightarrow>
   tag_name t = n \<Longrightarrow> children_text x parent names w2 fs w' \<Longrightarrow>
   children_text x parent names w ((n, v) # fs) w'"
  using children_text.a_child by blast

text \<open>
  An object of a page has what the storage sent and nothing made up: its key,
  modification time and size were all there, and the size is the number its text stands
  for; a size text that is not a number below \<open>2 ^ 64\<close> is an error, and the decimal text of
  any size is read back as that size.
\<close>

lemma object_fields_are_not_made_up:
  "(object_of f = Inr ob \<longleftrightarrow>
      f_key f = Some (obj_key ob) \<and> f_last_modified f = Some (obj_last_modified ob)
      \<and> f_etag f = obj_etag ob
      \<and> (\<exists>sz. f_size f = Some sz \<and> parse_u64 (trim sz) = Some (obj_size ob)))
   \<and> parse_u64 (trim (u64_to_string n)) = Some n"
proof (intro conjI)
  show "object_of f = Inr ob \<longleftrightarrow>
      f_key f = Some (obj_key ob) \<and> f_last_modified f = Some (obj_last_modified ob)
      \<and> f_etag f = obj_etag ob
      \<and> (\<exists>sz. f_size f = Some sz \<and> parse_u64 (trim sz) = Some (obj_size ob))"
    by (cases ob) (auto simp: object_of_def required_def try_bind_Inr_iff)
  show "parse_u64 (trim (u64_to_string n)) = Some n"
    by (simp add: parse_u64_to_string)
qed

section \<open>The strings of a page\<close>

text \<open>Every string of a page is a text, for any reader and any body.\<close>

definition text_opt :: "bytes option \<Rightarrow> bool" where
  "text_opt v = (case v of None \<Rightarrow> True | Some s \<Rightarrow> from_utf8_ok s)"

definition object_texts :: "S3ObjectInfo \<Rightarrow> bool" where
  "object_texts ob \<longleftrightarrow>
     from_utf8_ok (obj_key ob) \<and> from_utf8_ok (obj_last_modified ob) \<and> text_opt (obj_etag ob)"

definition page_texts :: "S3ListObjectsPage \<Rightarrow> bool" where
  "page_texts page \<longleftrightarrow>
     list_all from_utf8_ok (common_prefixes page) \<and> list_all object_texts (objects page)
     \<and> text_opt (next_continuation_token page)"

definition fields_texts :: "object_fields \<Rightarrow> bool" where
  "fields_texts f \<longleftrightarrow>
     text_opt (f_key f) \<and> text_opt (f_size f) \<and> text_opt (f_last_modified f) \<and> text_opt (f_etag f)"

definition state_texts :: "page_state \<Rightarrow> bool" where
  "state_texts pg \<longleftrightarrow>
     list_all from_utf8_ok (pg_prefixes pg) \<and> list_all object_texts (pg_objects pg) \<and> text_opt (pg_token pg)"

lemmas text_defs = text_opt_def object_texts_def page_texts_def fields_texts_def state_texts_def

lemma set_field_texts: "fields_texts f \<Longrightarrow> from_utf8_ok v \<Longrightarrow> fields_texts (set_field n v f)"
  by (simp add: fields_texts_def set_field_def text_opt_def)

lemma object_of_texts: "object_of f = Inr ob \<Longrightarrow> fields_texts f \<Longrightarrow> object_texts ob"
  by (auto simp: object_of_def required_def try_bind_Inr_iff text_defs)

lemmas read_fields_returns =
  read_fields.raw_induct [where xa = "(((x, c), f), w)" for x c f w, unfolded prod.case,
    rotated, consumes 1, case_names step]

lemmas read_prefixes_returns =
  read_prefixes.raw_induct [where xa = "((((x, c), found), dest), w)" for x c found dest w, unfolded prod.case,
    rotated, consumes 1, case_names step]

lemmas read_page_returns =
  read_page.raw_induct [where xa = "((x, pg), w)" for x pg w, unfolded prod.case, rotated, consumes 1, case_names step]

lemma read_fields_texts:
  assumes "read_fields x c f w = Some y"
  shows "fields_texts f \<Longrightarrow> fst y = Inr f' \<Longrightarrow> fields_texts f'"
  using assms
proof (induction arbitrary: f' rule: read_fields_returns)
  case (step rf x c f w y)
  show ?case
    using step(2-4) step(1) [of x c _ _ y f']
    by (auto split: option.splits sum.splits prod.splits dest: read_text_utf8 simp: set_field_texts)
qed

lemma read_prefixes_texts:
  assumes "read_prefixes x c found dest w = Some y"
  shows "list_all from_utf8_ok dest \<Longrightarrow> fst y = Inr (b, ps) \<Longrightarrow> list_all from_utf8_ok ps"
  using assms
proof (induction arbitrary: b ps rule: read_prefixes_returns)
  case (step rp x c found dest w y)
  show ?case
    using step(2-4) step(1) [of x c True _ _ y b ps]
    by (auto split: option.splits sum.splits prod.splits dest: read_text_utf8)
qed

lemma read_object_texts: "read_object x t w = Some (Inr ob, w') \<Longrightarrow> object_texts ob"
proof -
  assume "read_object x t w = Some (Inr ob, w')"
  then obtain f where f: "read_fields x t no_fields w = Some (Inr f, w')" "object_of f = Inr ob"
    by (auto simp: read_object_def try_bind_Inr_iff)
  have "fields_texts no_fields" by (simp add: fields_texts_def no_fields_def text_opt_def)
  with f show ?thesis using read_fields_texts [OF f(1), of f] object_of_texts by simp
qed

lemma read_common_prefixes_texts:
  "read_common_prefixes x t dest w = Some (Inr ps, w') \<Longrightarrow> list_all from_utf8_ok dest \<Longrightarrow> list_all from_utf8_ok ps"
  using read_prefixes_texts [of x t False dest w]
  by (fastforce simp: read_common_prefixes_def try_bind_Inr_iff split: if_splits prod.splits)

lemma read_element_texts:
  assumes "read_element x t pg w = Some (Inr pg', w')" "state_texts pg"
  shows "state_texts pg'"
proof -
  consider "tag_name t = ''Contents''" | "tag_name t = ''CommonPrefixes''"
    | "tag_name t \<noteq> ''Contents''" "tag_name t \<noteq> ''CommonPrefixes''" by blast
  then show ?thesis
  proof cases
    case 1
    then show ?thesis
      using assms by (auto simp: read_element_def try_bind_Inr_iff state_texts_def dest: read_object_texts)
  next
    case 2
    then show ?thesis
      using assms by (auto simp: read_element_def try_bind_Inr_iff state_texts_def dest: read_common_prefixes_texts)
  next
    case 3
    then show ?thesis
      using assms
      by (auto simp: read_element_def try_bind_Inr_iff map_err_def state_texts_def text_opt_def
          split: if_splits prod.splits sum.splits dest: read_text_utf8)
  qed
qed

lemma read_page_texts:
  assumes "read_page x pg w = Some y"
  shows "state_texts pg \<Longrightarrow> y = Inr pg' \<Longrightarrow> state_texts pg'"
  using assms
proof (induction arbitrary: pg' rule: read_page_returns)
  case (step rp x pg w y)
  show ?case
    using step(2-4) step(1) [of x _ _ y pg']
    by (auto split: option.splits sum.splits prod.splits dest: read_element_texts)
qed

lemma page_of_texts: "page_of pg = Inr page \<Longrightarrow> state_texts pg \<Longrightarrow> page_texts page"
  by (auto simp: page_of_def page_texts_def state_texts_def text_opt_def split: if_splits)

lemma parsed_page_texts: "parse_list_objects_v2 x body = Some (Inr page) \<Longrightarrow> page_texts page"
proof -
  assume "parse_list_objects_v2 x body = Some (Inr page)"
  then obtain w pg where "read_page x empty_page w = Some (Inr pg)" "page_of pg = Inr page"
    by (auto simp: parse_list_objects_v2_def try_bind_Inr_iff split: sum.splits option.splits)
  moreover have "state_texts empty_page" by (simp add: state_texts_def empty_page_def text_opt_def)
  ultimately show ?thesis using read_page_texts page_of_texts by blast
qed

end
