(* ===== verification/Download_Stream.thy ===== *)
theory Download_Stream
  imports S3_Error
begin

text \<open>
  \<^verbatim>\<open>src/download_stream.rs\<close>: an object's body, handed over a chunk at a time.

  The response and the body on the socket are the HTTP client's. A response is the record of
  what the crate asks it (\<open>fl_url_response\<close>); a body is a state of any type \<open>'b\<close>, read by the
  argument \<open>next_item\<close>, which gives the next piece, the end, or an error, and the body after
  that.

  Shown: the chunks come out in order and unchanged, \<open>received\<close> counts them, the end is
  reported only once the promised number of bytes has arrived, and reading to the end of a
  body that ends always returns.
\<close>

section \<open>Definitions\<close>

type_synonym 'b next_item = "'b \<Rightarrow> (bytes option, fl_url_error) result \<times> 'b"

record 'b fl_url_response =
  rs_status_code :: u16
  get_header_case_insensitive :: "bytes \<Rightarrow> (bytes option, fl_url_error) result"
  get_body :: "('b, fl_url_error) result"

record 'b S3DownloadStream =
  content_length :: "u64 option"
  content_type :: "bytes option"
  socket :: 'b
  received_bytes :: u64

text \<open>\<open>.ok().flatten()\<close>: a header that cannot be read is one that is not there.\<close>

definition header_of :: "'b fl_url_response \<Rightarrow> bytes \<Rightarrow> bytes option" where
  "header_of response name =
     Option.bind (result_ok (get_header_case_insensitive response name)) (\<lambda>v. v)"

definition content_length_of :: "'b fl_url_response \<Rightarrow> u64 option" where
  "content_length_of response =
     Option.bind (header_of response ''content-length'') (\<lambda>value. parse_u64 (trim value))"

definition from_response :: "'b fl_url_response \<Rightarrow> ('b S3DownloadStream, S3Error) result" where
  "from_response response =
     try_bind (map_err from_fl_url_error (get_body response))
       (\<lambda>b. Inr \<lparr>content_length = content_length_of response,
                 content_type = header_of response ''content-type'',
                 socket = b, received_bytes = 0\<rparr>)"

definition ended_early :: "u64 \<Rightarrow> u64 \<Rightarrow> S3Error" where
  "ended_early got expected =
     Other (''Download ended after '' @ u64_to_string got @ '' of the '' @ u64_to_string expected
            @ '' bytes the storage said the object has'')"

definition get_next_chunk ::
  "'b next_item \<Rightarrow> 'b S3DownloadStream \<Rightarrow> (bytes option, S3Error) result \<times> 'b S3DownloadStream"
where
  "get_next_chunk next_item self =
     (case next_item (socket self) of
        (Inl e, b) \<Rightarrow> (Inl (from_fl_url_error e), self\<lparr>socket := b\<rparr>)
      | (Inr None, b) \<Rightarrow>
          ((case content_length self of
              Some expected \<Rightarrow>
                if received_bytes self < expected then Inl (ended_early (received_bytes self) expected)
                else Inr None
            | None \<Rightarrow> Inr None),
           self\<lparr>socket := b\<rparr>)
      | (Inr (Some chunk), b) \<Rightarrow>
          (Inr (Some chunk),
           self\<lparr>socket := b, received_bytes := received_bytes self + of_nat (length chunk)\<rparr>))"

text \<open>
  The loop every caller writes around it, \<open>while let Some(chunk) = \<dots>? { \<dots> }\<close>, collecting the
  chunks. A body that never ends never returns: the value is \<open>None\<close> then.
\<close>

partial_function (option) read_to_end ::
  "'b next_item \<Rightarrow> bytes \<Rightarrow> 'b S3DownloadStream
   \<Rightarrow> ((bytes, S3Error) result \<times> 'b S3DownloadStream) option"
where
  "read_to_end next_item acc self =
     (case get_next_chunk next_item self of
        (Inl e, self') \<Rightarrow> Some (Inl e, self')
      | (Inr None, self') \<Rightarrow> Some (Inr acc, self')
      | (Inr (Some chunk), self') \<Rightarrow> read_to_end next_item (acc @ chunk) self')"

text \<open>\<open>Debug\<close>: neither the body nor what was read of it.\<close>

definition stream_debug :: "'b S3DownloadStream \<Rightarrow> debug_struct" where
  "stream_debug self =
     (''S3DownloadStream'',
      [(''content_length'', DebugOpt (map_option (\<lambda>n. DebugNum (unat n)) (content_length self))),
       (''content_type'', DebugOpt (map_option DebugStr (content_type self))),
       (''received'', DebugNum (unat (received_bytes self)))])"

lemma stream_debug_hides_body: "stream_debug (self\<lparr>socket := b\<rparr>) = stream_debug self"
  by (simp add: stream_debug_def)

section \<open>A body that ends\<close>

text \<open>\<open>delivers next_item b cs\<close>: the body \<open>b\<close> gives the pieces \<open>cs\<close> and then the end.\<close>

primrec delivers :: "'b next_item \<Rightarrow> 'b \<Rightarrow> bytes list \<Rightarrow> bool" where
  "delivers next_item b [] \<longleftrightarrow> fst (next_item b) = Inr None"
| "delivers next_item b (c # cs) \<longleftrightarrow>
     fst (next_item b) = Inr (Some c) \<and> delivers next_item (snd (next_item b)) cs"

lemma get_next_chunk_delivers:
  assumes "delivers next_item (socket self) (c # cs)"
  obtains b where
    "get_next_chunk next_item self =
       (Inr (Some c), self\<lparr>socket := b, received_bytes := received_bytes self + of_nat (length c)\<rparr>)"
    "delivers next_item b cs"
  using assms by (cases "next_item (socket self)") (auto simp: get_next_chunk_def)

text \<open>What the end of the body is reported as.\<close>

definition at_end :: "u64 option \<Rightarrow> u64 \<Rightarrow> 'a \<Rightarrow> ('a, S3Error) result" where
  "at_end len got data =
     (case len of
        Some n \<Rightarrow> if got < n then Inl (ended_early got n) else Inr data
      | None \<Rightarrow> Inr data)"

lemma get_next_chunk_ends:
  assumes "delivers next_item (socket self) []"
  obtains b where "get_next_chunk next_item self =
    (at_end (content_length self) (received_bytes self) None, self\<lparr>socket := b\<rparr>)"
  using assms
  by (cases "next_item (socket self)") (auto simp: get_next_chunk_def at_end_def split: option.splits)

lemma read_to_end_delivers:
  assumes "delivers next_item (socket self) cs"
  shows "\<exists>b. read_to_end next_item acc self =
    Some (at_end (content_length self) (received_bytes self + of_nat (length (concat cs))) (acc @ concat cs),
      self\<lparr>socket := b, received_bytes := received_bytes self + of_nat (length (concat cs))\<rparr>)"
  using assms
proof (induction cs arbitrary: acc self)
  case Nil
  from Nil obtain b where "get_next_chunk next_item self =
      (at_end (content_length self) (received_bytes self) None, self\<lparr>socket := b\<rparr>)"
    by (rule get_next_chunk_ends)
  then show ?case
    by (subst read_to_end.simps) (auto simp: at_end_def split: option.split)
next
  case (Cons c cs)
  from Cons.prems obtain b where
    g: "get_next_chunk next_item self =
      (Inr (Some c), self\<lparr>socket := b, received_bytes := received_bytes self + of_nat (length c)\<rparr>)"
    and d: "delivers next_item b cs"
    by (rule get_next_chunk_delivers)
  have "delivers next_item
      (socket (self\<lparr>socket := b, received_bytes := received_bytes self + of_nat (length c)\<rparr>)) cs"
    using d by simp
  from Cons.IH [OF this, of "acc @ c"] show ?case
    by (subst read_to_end.simps) (simp add: g add.assoc)
qed

section \<open>Properties\<close>

text \<open>
  Reading a body that delivers the chunks \<open>cs\<close> and then ends returns, and the result is
  exactly the concatenation of the chunks in order; but when the storage promised more
  bytes than came, it is an error, so a truncated object never looks whole.
\<close>

lemma download_is_whole_or_an_error:
  assumes "delivers next_item b cs" and "length (concat cs) < 2 ^ 64"
    and "get_body response = Inr b"
  shows "\<exists>stream self'. from_response response = Inr stream
    \<and> unat (received_bytes self') = length (concat cs)
    \<and> (case content_length_of response of
         Some n \<Rightarrow>
           if length (concat cs) < unat n
           then \<exists>e. read_to_end next_item [] stream = Some (Inl e, self')
           else read_to_end next_item [] stream = Some (Inr (concat cs), self')
       | None \<Rightarrow> read_to_end next_item [] stream = Some (Inr (concat cs), self'))"
proof -
  let ?s = "\<lparr>content_length = content_length_of response,
    content_type = header_of response ''content-type'', socket = b, received_bytes = 0\<rparr>"
  let ?n = "of_nat (length (concat cs)) :: u64"
  have r: "from_response response = Inr ?s" by (simp add: from_response_def assms(3))
  have n: "unat ?n = length (concat cs)"
    using assms(2) by (simp add: unat_of_nat_no_wrap)
  obtain b' where "read_to_end next_item [] ?s =
      Some (at_end (content_length_of response) ?n (concat cs), ?s\<lparr>socket := b', received_bytes := ?n\<rparr>)"
    using assms(1) read_to_end_delivers [of next_item ?s cs "[]"] by auto
  with r n show ?thesis
    by (intro exI [of _ ?s] exI [of _ "?s\<lparr>socket := b', received_bytes := ?n\<rparr>"])
      (auto simp: at_end_def word_less_nat_alt split: option.split)
qed

text \<open>A body that is a list of pieces, to evaluate the model with.\<close>

definition list_body :: "bytes list next_item" where
  "list_body cs = (case cs of [] \<Rightarrow> (Inr None, []) | c # cs' \<Rightarrow> (Inr (Some c), cs'))"

lemma list_body_delivers: "delivers list_body cs cs"
  by (induction cs) (simp_all add: list_body_def)

definition sample_response :: "bytes \<Rightarrow> bytes list \<Rightarrow> bytes list fl_url_response" where
  "sample_response len cs =
     \<lparr>rs_status_code = 200,
      get_header_case_insensitive = (\<lambda>n. Inr (if n = ''content-length'' then Some len else None)),
      get_body = Inr cs\<rparr>"

lemma download_is_whole_or_an_error_example:
  "(\<exists>stream self'. from_response (sample_response '' 5 '' [''ab'', ''cde'']) = Inr stream
     \<and> read_to_end list_body [] stream = Some (Inr ''abcde'', self'))
   \<and> (\<exists>stream self' e. from_response (sample_response ''6'' [''ab'', ''cde'']) = Inr stream
     \<and> read_to_end list_body [] stream = Some (Inl e, self'))"
proof -
  have cl: "content_length_of (sample_response '' 5 '' [''ab'', ''cde'']) = Some 5"
    "content_length_of (sample_response ''6'' [''ab'', ''cde'']) = Some 6"
  proof -
    have t: "trim '' 5 '' = ''5''" "trim ''6'' = ''6''" by code_simp+
    have "dec_of_nat 5 = ''5''" "dec_of_nat 6 = ''6''" by code_simp+
    then have "parse_u64 ''5'' = Some 5" "parse_u64 ''6'' = Some 6"
      using parse_u64_dec [of 5] parse_u64_dec [of 6] by simp_all
    with t show "content_length_of (sample_response '' 5 '' [''ab'', ''cde'']) = Some 5"
      "content_length_of (sample_response ''6'' [''ab'', ''cde'']) = Some 6"
      by (simp_all add: content_length_of_def header_of_def sample_response_def)
  qed
  have b: "get_body (sample_response l cs) = Inr cs" for l cs by (simp add: sample_response_def)
  note d = download_is_whole_or_an_error [OF list_body_delivers [of "[''ab'', ''cde'']"] _ b]
  show ?thesis
    using d [of "'' 5 ''"] d [of "''6''"] by (auto simp: cl)
qed

end
