(* ===== verification/S3_Reader.thy ===== *)
theory S3_Reader
  imports Download_Stream Sig_V4
begin

text \<open>
  \<^verbatim>\<open>src/reader.rs\<close>: one object as a random-access source, \<open>AsyncRead\<close> and \<open>AsyncSeek\<close>.

  A request in flight (\<open>PendingRead\<close>) is what its future has captured: the range and the
  number of bytes asked for. What polling that future gives in a call of \<open>poll_read\<close> is the
  argument \<open>get\<close>; \<open>collect_range\<close> is the loop the future runs once the response is open. The
  \<open>ReadBuf\<close> is the number of bytes it still has room for, and the bytes put into it are the
  value of a successful read.

  Shown: with a storage that answers a range with that range, any sequence of reads and
  seeks, cancelled reads included, delivers exactly the bytes of the object at the
  reader's position; short and long answers are errors that move nothing; every request is
  inside the object; offsets are computed without wrap-around. A seek that is completed
  while a request is in flight is the exception, and the last theorem shows what it does.
\<close>

section \<open>Definitions\<close>

record PendingRead =
  get_start :: u64
  get_end :: u64
  requested_len :: nat

record S3Reader =
  r_client :: S3Client
  r_bucket_name :: bytes
  r_key :: bytes
  r_size :: u64
  position :: u64
  r_pending :: "PendingRead option"
  leftover :: bytes
  seek_to :: "u64 option"

datatype SeekFrom = Start u64 | Current u64 | End u64  \<comment> \<open>the last two are \<open>i64\<close>: read with \<open>sint\<close>\<close>

definition new_reader :: "S3Client \<Rightarrow> bytes \<Rightarrow> bytes \<Rightarrow> u64 \<Rightarrow> S3Reader" where
  "new_reader s3 bucket k sz =
     \<lparr>r_client = s3, r_bucket_name = bucket, r_key = k, r_size = sz, position = 0,
      r_pending = None, leftover = [], seek_to = None\<rparr>"

definition drain_leftover :: "nat \<Rightarrow> S3Reader \<Rightarrow> bytes \<times> S3Reader" where
  "drain_leftover remaining r =
     (let taken = min (length (leftover r)) remaining in
      (take taken (leftover r),
       r\<lparr>leftover := drop taken (leftover r), position := position r + of_nat taken\<rparr>))"

definition start_read :: "nat \<Rightarrow> S3Reader \<Rightarrow> PendingRead" where
  "start_read remaining r =
     (let wanted = unat (min (of_nat remaining :: u64) (r_size r - position r));
          start = position r
      in \<lparr>get_start = start, get_end = start + of_nat wanted - 1, requested_len = wanted\<rparr>)"

text \<open>The body of the future, once \<open>download_file_range\<close> has given it the stream.\<close>

partial_function (option) collect_range ::
  "'b next_item \<Rightarrow> nat \<Rightarrow> bytes \<Rightarrow> 'b S3DownloadStream \<Rightarrow> (bytes, S3Error) result option"
where
  "collect_range next_item wanted acc stream =
     (case get_next_chunk next_item stream of
        (Inl e, _) \<Rightarrow> Some (Inl e)
      | (Inr None, _) \<Rightarrow> Some (Inr acc)
      | (Inr (Some chunk), stream') \<Rightarrow>
          if length (acc @ chunk) > wanted then Some (Inr (acc @ chunk))
          else collect_range next_item wanted (acc @ chunk) stream')"

definition to_io_error :: "S3Error \<Rightarrow> io_error" where
  "to_io_error err = (if is_key_not_found err then IoSource NotFound err else IoSource OtherKind err)"

definition wrong_length :: "io_error_kind \<Rightarrow> S3Reader \<Rightarrow> nat \<Rightarrow> bytes \<Rightarrow> io_error" where
  "wrong_length kind r wanted body =
     IoMessage kind
       (''S3Reader: asked '' @ r_bucket_name r @ ''/'' @ r_key r @ '' for '' @ dec_of_nat wanted
        @ '' bytes at offset '' @ u64_to_string (position r) @ '' and the body was ''
        @ dec_of_nat (length body) @ '' bytes'')"

text \<open>What \<open>poll_read\<close> does with the request it polls.\<close>

definition poll_request ::
  "(PendingRead \<Rightarrow> (bytes, S3Error) result poll) \<Rightarrow> nat \<Rightarrow> PendingRead \<Rightarrow> S3Reader
   \<Rightarrow> (bytes, io_error) result poll \<times> S3Reader"
where
  "poll_request get remaining pending r =
     (case get pending of
        Pending \<Rightarrow> (Pending, r\<lparr>r_pending := Some pending\<rparr>)
      | Ready (Inl err) \<Rightarrow> (Ready (Inl (to_io_error err)), r)
      | Ready (Inr body) \<Rightarrow>
          if length body < requested_len pending then
            (Ready (Inl (wrong_length UnexpectedEof r (requested_len pending) body)), r)
          else if length body > requested_len pending then
            (Ready (Inl (wrong_length InvalidData r (requested_len pending) body)), r)
          else
            (let (out, r') = drain_leftover remaining (r\<lparr>leftover := body\<rparr>)
             in (Ready (Inr out), r')))"

definition poll_read ::
  "(PendingRead \<Rightarrow> (bytes, S3Error) result poll) \<Rightarrow> nat \<Rightarrow> S3Reader
   \<Rightarrow> (bytes, io_error) result poll \<times> S3Reader"
where
  "poll_read get remaining r =
     (if leftover r \<noteq> [] then
        (let (out, r') = drain_leftover remaining r in (Ready (Inr out), r'))
      else
        case r_pending r of
          Some pending \<Rightarrow> poll_request get remaining pending (r\<lparr>r_pending := None\<rparr>)
        | None \<Rightarrow>
            if position r \<ge> r_size r \<or> remaining = 0 then (Ready (Inr []), r)
            else poll_request get remaining (start_read remaining r) r)"

definition seek_while_reading :: io_error where
  "seek_while_reading =
     IoMessage OtherKind
       ''S3Reader: cannot seek while a read is still in flight - poll the read to completion before seeking''"

definition seek_in_progress :: io_error where
  "seek_in_progress =
     IoMessage OtherKind
       ''S3Reader: a seek is already in progress - poll_complete it before starting another''"

definition resolve_offset :: "u64 \<Rightarrow> u64 \<Rightarrow> bytes \<Rightarrow> (u64, io_error) result" where
  "resolve_offset base delta base_name =
     (let target = uint base + sint delta in
      if target < 0 then
        Inl (IoMessage InvalidInput
          (''S3Reader: seeking '' @ dec_of_int (sint delta) @ '' from the '' @ base_name @ '' (''
           @ u64_to_string base @ '') lands at '' @ dec_of_int target
           @ '', before the start of the object''))
      else if target > 2 ^ 64 - 1 then
        Inl (IoMessage InvalidInput
          (''S3Reader: seeking '' @ dec_of_int (sint delta) @ '' from the '' @ base_name @ '' (''
           @ u64_to_string base @ '') overflows a 64-bit offset''))
      else Inr (word_of_int target))"

definition start_seek :: "SeekFrom \<Rightarrow> S3Reader \<Rightarrow> (unit, io_error) result \<times> S3Reader" where
  "start_seek whence r =
     (if r_pending r \<noteq> None then (Inl seek_while_reading, r)
      else if seek_to r \<noteq> None then (Inl seek_in_progress, r)
      else
        case (case whence of
                Start offset \<Rightarrow> Inr offset
              | Current delta \<Rightarrow> resolve_offset (position r) delta ''current position''
              | End delta \<Rightarrow> resolve_offset (r_size r) delta ''end of the object'') of
          Inl e \<Rightarrow> (Inl e, r)
        | Inr target \<Rightarrow> (Inr (), r\<lparr>seek_to := Some target\<rparr>))"

definition poll_complete :: "S3Reader \<Rightarrow> (u64, io_error) result poll \<times> S3Reader" where
  "poll_complete r =
     (let r' = (case seek_to r of
                  Some target \<Rightarrow> r\<lparr>seek_to := None, position := target, leftover := []\<rparr>
                | None \<Rightarrow> r)
      in (Ready (Inr (position r')), r'))"

text \<open>\<open>Debug\<close>: not the client, which has the secret key, and none of the object's bytes.\<close>

definition reader_debug :: "S3Reader \<Rightarrow> debug_struct" where
  "reader_debug r =
     (''S3Reader'',
      [(''bucket_name'', DebugStr (r_bucket_name r)), (''key'', DebugStr (r_key r)),
       (''size'', DebugNum (unat (r_size r))), (''position'', DebugNum (unat (position r))),
       (''read_in_flight'', DebugBool (r_pending r \<noteq> None))])"

lemma reader_debug_hides_client: "reader_debug (r\<lparr>r_client := c, leftover := l\<rparr>) = reader_debug r"
  by (simp add: reader_debug_def)

section \<open>The reader's invariant\<close>

text \<open>Length \<open>n\<close> of the object from offset \<open>i\<close> on.\<close>

definition piece :: "nat \<Rightarrow> nat \<Rightarrow> bytes \<Rightarrow> bytes" where
  "piece i n obj = take n (drop i obj)"

lemma piece_length: "i + n \<le> length obj \<Longrightarrow> length (piece i n obj) = n"
  by (simp add: piece_def)

lemma piece_append: "piece i n obj @ piece (i + n) m obj = piece i (n + m) obj"
  by (simp add: piece_def take_add add.commute [of i n])

lemma piece_take: "k \<le> n \<Longrightarrow> take k (piece i n obj) = piece i k obj"
  by (simp add: piece_def min_def)

lemma piece_drop: "drop k (piece i n obj) = piece (i + k) (n - k) obj"
  by (simp add: piece_def drop_take add.commute)

abbreviation at :: "S3Reader \<Rightarrow> nat" where
  "at r \<equiv> unat (position r)"

definition pending_ok :: "S3Reader \<Rightarrow> PendingRead \<Rightarrow> bool" where
  "pending_ok r p \<longleftrightarrow>
     get_start p = position r \<and> 0 < requested_len p
     \<and> unat (get_end p) + 1 = at r + requested_len p
     \<and> at r + requested_len p \<le> unat (r_size r)"

definition reader_ok :: "bytes \<Rightarrow> S3Reader \<Rightarrow> bool" where
  "reader_ok obj r \<longleftrightarrow>
     length obj = unat (r_size r)
     \<and> (leftover r \<noteq> [] \<longrightarrow>
          leftover r = piece (at r) (length (leftover r)) obj
          \<and> at r + length (leftover r) \<le> length obj \<and> r_pending r = None)
     \<and> (\<forall>p. r_pending r = Some p \<longrightarrow> pending_ok r p)"

text \<open>
  A storage that has the object: an answer of the length that was asked for has the bytes
  that were asked for. Nothing is asked of answers of any other length.
\<close>

definition honest :: "bytes \<Rightarrow> (PendingRead \<Rightarrow> (bytes, S3Error) result poll) \<Rightarrow> bool" where
  "honest obj get \<longleftrightarrow>
     (\<forall>p body. get p = Ready (Inr body) \<longrightarrow> length body = requested_len p \<longrightarrow>
        requested_len p = unat (get_end p) + 1 - unat (get_start p) \<longrightarrow>
        body = piece (unat (get_start p)) (requested_len p) obj)"

lemma start_read_ok:
  assumes "\<not> position r \<ge> r_size r" "remaining \<noteq> 0" "remaining < 2 ^ 64"
  shows "pending_ok r (start_read remaining r)"
    "requested_len (start_read remaining r) = min remaining (unat (r_size r) - at r)"
proof -
  have lt: "at r < unat (r_size r)" using assms(1) by (simp add: word_le_nat_alt not_le)
  have sub: "unat (r_size r - position r) = unat (r_size r) - at r"
    using lt by (simp add: unat_sub_no_wrap)
  have rem: "unat (of_nat remaining :: u64) = remaining"
    using assms(3) by (simp add: unat_of_nat_no_wrap)
  let ?n = "min remaining (unat (r_size r) - at r)"
  have n: "unat (min (of_nat remaining :: u64) (r_size r - position r)) = ?n"
    by (simp add: min_def word_le_nat_alt sub rem)
  then show len: "requested_len (start_read remaining r) = ?n"
    by (simp add: start_read_def Let_def)
  have pos: "0 < ?n" using assms(2) lt by simp
  have le: "at r + ?n \<le> unat (r_size r)" using lt by simp
  then have sum: "unat (position r + of_nat ?n) = at r + ?n"
    using unat_u64_less [of "r_size r"] by (intro unat_add_of_nat) simp
  have "unat (position r + of_nat ?n - 1) = at r + ?n - 1"
    using unat_sub_no_wrap [of 1 "position r + of_nat ?n"] sum pos
    by (simp del: of_nat_min)
  then have "unat (get_end (start_read remaining r)) + 1 = at r + ?n"
    using pos n by (simp add: start_read_def Let_def)
  then show "pending_ok r (start_read remaining r)"
    using len pos le by (simp add: pending_ok_def) (simp add: start_read_def Let_def)
qed

lemma drain_ok:
  assumes len: "length obj = unat (r_size r)" and none: "r_pending r = None"
    and left: "leftover r = piece (at r) (length (leftover r)) obj"
    and le: "at r + length (leftover r) \<le> length obj"
    and d: "drain_leftover remaining r = (out, r')"
  shows "reader_ok obj r'" "out = piece (at r) (length out) obj" "at r' = at r + length out"
    "length out = min (length (leftover r)) remaining" "r_size r' = r_size r" "seek_to r' = seek_to r"
proof -
  let ?k = "min (length (leftover r)) remaining"
  have r': "out = take ?k (leftover r)"
    "r' = r\<lparr>leftover := drop ?k (leftover r), position := position r + of_nat ?k\<rparr>"
    using d by (auto simp: drain_leftover_def Let_def)
  show out: "length out = ?k" using r'(1) by simp
  have at': "unat (position r + of_nat ?k) = at r + ?k"
    using le len unat_u64_less [of "r_size r"] by (intro unat_add_of_nat) simp
  then show "at r' = at r + length out" using out r'(2) by simp
  have "out = take ?k (piece (at r) (length (leftover r)) obj)" using r'(1) left by metis
  then show "out = piece (at r) (length out) obj" unfolding out by (simp add: piece_take)
  have "drop ?k (leftover r) = drop ?k (piece (at r) (length (leftover r)) obj)" using left by metis
  then have "drop ?k (leftover r) = piece (at r + ?k) (length (leftover r) - ?k) obj"
    by (simp add: piece_drop)
  moreover have "length (piece (at r + ?k) (length (leftover r) - ?k) obj) = length (leftover r) - ?k"
    using le by (intro piece_length) simp
  ultimately show "reader_ok obj r'"
    using r'(2) at' len none le by (simp add: reader_ok_def)
  show "r_size r' = r_size r" "seek_to r' = seek_to r" using r'(2) by simp_all
qed


text \<open>An answer of the right length is the range, and what fits of it is handed over.\<close>

lemma poll_request_delivers:
  assumes len: "length obj = unat (r_size r)" and none: "r_pending r = None" "leftover r = []"
    and p: "pending_ok r p" and h: "honest obj get"
    and g: "get p = Ready (Inr b)" "length b = requested_len p"
    and res: "poll_request get remaining p r = (a, r')"
  obtains out where "a = Ready (Inr out)" "reader_ok obj r'" "r_size r' = r_size r" "seek_to r' = seek_to r"
    "out = piece (at r) (length out) obj" "at r' = at r + length out"
    "length out = min (requested_len p) remaining"
proof -
  have n: "unat (get_end p) + 1 - unat (get_start p) = requested_len p"
    "unat (get_start p) = at r" "at r + requested_len p \<le> length obj"
    using p len by (auto simp: pending_ok_def)
  then have b: "b = piece (at r) (requested_len p) obj"
    using h g unfolding honest_def by metis
  obtain out r'' where d: "drain_leftover remaining (r\<lparr>leftover := b\<rparr>) = (out, r'')"
    by (cases "drain_leftover remaining (r\<lparr>leftover := b\<rparr>)")
  have "a = Ready (Inr out)" "r'' = r'"
    using res g d by (auto simp: poll_request_def)
  then show ?thesis
    using that drain_ok [of obj "r\<lparr>leftover := b\<rparr>" remaining out r'', OF _ _ _ _ d] len none b g(2) n(3)
    by simp
qed

lemma poll_request_ok:
  assumes len: "length obj = unat (r_size r)" and none: "r_pending r = None" "leftover r = []"
    and p: "pending_ok r p" and h: "honest obj get"
    and res: "poll_request get remaining p r = (a, r')"
  shows "reader_ok obj r'"
    "a = Ready (Inr out) \<Longrightarrow> out = piece (at r) (length out) obj \<and> at r' = at r + length out
       \<and> length out = min (requested_len p) remaining"
    "(\<And>o'. a \<noteq> Ready (Inr o')) \<Longrightarrow> position r' = position r"
    "r_size r' = r_size r" "seek_to r' = seek_to r"
proof -
  have ok_r: "reader_ok obj r" using len none by (simp add: reader_ok_def)
  have waits: "reader_ok obj (r\<lparr>r_pending := Some p\<rparr>)"
    using len none p by (simp add: reader_ok_def pending_ok_def)
  have all: "reader_ok obj r' \<and> r_size r' = r_size r \<and> seek_to r' = seek_to r
     \<and> ((\<exists>out. a = Ready (Inr out) \<and> out = piece (at r) (length out) obj
          \<and> at r' = at r + length out \<and> length out = min (requested_len p) remaining)
        \<or> ((\<forall>out. a \<noteq> Ready (Inr out)) \<and> position r' = position r))"
  proof (cases "\<exists>b. get p = Ready (Inr b) \<and> length b = requested_len p")
    case True
    then obtain b where "get p = Ready (Inr b)" "length b = requested_len p" by blast
    then show ?thesis by (rule poll_request_delivers [OF len none p h _ _ res]) blast
  next
    case False
    then show ?thesis
      using res ok_r waits by (auto simp: poll_request_def split: poll.splits sum.splits if_splits)
  qed
  from all show "reader_ok obj r'" "r_size r' = r_size r" "seek_to r' = seek_to r" by simp_all
  from all show "a = Ready (Inr out) \<Longrightarrow> out = piece (at r) (length out) obj \<and> at r' = at r + length out
       \<and> length out = min (requested_len p) remaining" by auto
  from all show "position r' = position r" if "\<And>o'. a \<noteq> Ready (Inr o')"
    using that by auto
qed


text \<open>What a read that is ready with \<open>out\<close> has done, and what any other has.\<close>

definition read_step :: "bytes \<Rightarrow> nat \<Rightarrow> S3Reader \<Rightarrow> (bytes, io_error) result poll \<Rightarrow> S3Reader \<Rightarrow> bool" where
  "read_step obj remaining r a r' \<longleftrightarrow>
     reader_ok obj r' \<and> r_size r' = r_size r \<and> seek_to r' = seek_to r
     \<and> (case a of
          Ready (Inr out) \<Rightarrow>
            out = piece (at r) (length out) obj \<and> at r' = at r + length out
            \<and> length out \<le> remaining \<and> (out = [] \<longrightarrow> remaining = 0 \<or> length obj \<le> at r)
        | _ \<Rightarrow> position r' = position r)"

lemma poll_request_step:
  assumes "length obj = unat (r_size r)" "r_pending r = None" "leftover r = []"
    and "pending_ok r p" "honest obj get" "poll_request get remaining p r = (a, r')"
  shows "read_step obj remaining r a r'"
proof -
  note ok = poll_request_ok [OF assms]
  have "0 < requested_len p" using assms(4) by (simp add: pending_ok_def)
  then show ?thesis
    using ok(1,4,5) ok(2) ok(3)
    by (fastforce simp: read_step_def split: poll.split sum.split)
qed

lemma poll_read_step:
  assumes ok: "reader_ok obj r" and h: "honest obj get" and rem: "remaining < 2 ^ 64"
    and res: "poll_read get remaining r = (a, r')"
  shows "read_step obj remaining r a r'"
proof -
  have len: "length obj = unat (r_size r)" using ok by (simp add: reader_ok_def)
  consider (left) "leftover r \<noteq> []"
    | (flight) p where "leftover r = []" "r_pending r = Some p"
    | (eof) "leftover r = []" "r_pending r = None" "position r \<ge> r_size r \<or> remaining = 0"
    | (new_get) "leftover r = []" "r_pending r = None" "\<not> position r \<ge> r_size r" "remaining \<noteq> 0"
    by fastforce
  then show ?thesis
  proof cases
    case left
    obtain out r'' where d: "drain_leftover remaining r = (out, r'')"
      by (cases "drain_leftover remaining r")
    then have "a = Ready (Inr out)" "r'' = r'" using res left by (auto simp: poll_read_def)
    moreover have "r_pending r = None" "leftover r = piece (at r) (length (leftover r)) obj"
      "at r + length (leftover r) \<le> length obj"
      using ok left by (auto simp: reader_ok_def)
    ultimately show ?thesis
      using drain_ok [OF len _ _ _ d] left
      by (auto simp: read_step_def min_def split: if_splits)
  next
    case (flight p)
    let ?r = "r\<lparr>r_pending := None\<rparr>"
    have "pending_ok ?r p" using ok flight by (simp add: reader_ok_def pending_ok_def)
    moreover have "poll_request get remaining p ?r = (a, r')"
      using res flight by (simp add: poll_read_def)
    ultimately have "read_step obj remaining ?r a r'"
      using poll_request_step [of obj ?r p get remaining a r'] len h flight by simp
    then show ?thesis by (auto simp: read_step_def split: poll.splits sum.splits)
  next
    case eof
    then show ?thesis
      using res ok len
      by (auto simp: poll_read_def read_step_def piece_def word_le_nat_alt)
  next
    case new_get
    then have "poll_request get remaining (start_read remaining r) r = (a, r')"
      using res by (simp add: poll_read_def)
    with poll_request_step [OF len new_get(2,1) start_read_ok(1) [OF new_get(3,4) rem] h] show ?thesis
      by simp
  qed
qed

section \<open>Runs of reads and seeks\<close>

text \<open>
  \<open>AsyncSeekExt::seek\<close>: complete what is left of an earlier seek, start, complete. No other
  operation of the reader comes in between.
\<close>

definition seek :: "SeekFrom \<Rightarrow> S3Reader \<Rightarrow> (u64, io_error) result \<times> S3Reader" where
  "seek whence r =
     (let (_, r0) = poll_complete r in
      case start_seek whence r0 of
        (Inl e, r1) \<Rightarrow> (Inl e, r1)
      | (Inr _, r1) \<Rightarrow>
          (case poll_complete r1 of (Ready x, r2) \<Rightarrow> (x, r2) | (Pending, r2) \<Rightarrow> (Inr 0, r2)))"

datatype reader_event =
    ReadInto "PendingRead \<Rightarrow> (bytes, S3Error) result poll" nat
  | SeekBy SeekFrom

fun reader_step :: "S3Reader \<Rightarrow> reader_event \<Rightarrow> S3Reader" where
  "reader_step r (ReadInto get remaining) = snd (poll_read get remaining r)"
| "reader_step r (SeekBy whence) = snd (seek whence r)"

fun honest_event :: "bytes \<Rightarrow> reader_event \<Rightarrow> S3Reader \<Rightarrow> bool" where
  "honest_event obj (ReadInto get remaining) r = (honest obj get \<and> remaining < 2 ^ 64)"
| "honest_event obj (SeekBy whence) r = True"

definition at_rest :: "bytes \<Rightarrow> S3Reader \<Rightarrow> bool" where
  "at_rest obj r \<longleftrightarrow> reader_ok obj r \<and> seek_to r = None"

definition seek_target :: "SeekFrom \<Rightarrow> S3Reader \<Rightarrow> int" where
  "seek_target whence r =
     (case whence of
        Start n \<Rightarrow> uint n
      | Current d \<Rightarrow> uint (position r) + sint d
      | End d \<Rightarrow> uint (r_size r) + sint d)"

lemma poll_complete_idle [simp]: "seek_to r = None \<Longrightarrow> poll_complete r = (Ready (Inr (position r)), r)"
  by (simp add: poll_complete_def)

lemma resolve_offset_ok:
  "0 \<le> uint base + sint delta \<Longrightarrow> uint base + sint delta < 2 ^ 64 \<Longrightarrow>
   resolve_offset base delta nm = Inr (word_of_int (uint base + sint delta))"
  by (simp add: resolve_offset_def Let_def)

lemma resolve_offset_err:
  "\<not> (0 \<le> uint base + sint delta \<and> uint base + sint delta < 2 ^ 64) \<Longrightarrow>
   \<exists>e. resolve_offset base delta nm = Inl e \<and> io_error_kind_of e = InvalidInput"
  by (auto simp: resolve_offset_def Let_def)

lemma seek_idle:
  assumes "seek_to r = None" "r_pending r = None"
    and "0 \<le> seek_target whence r" "seek_target whence r < 2 ^ 64"
  shows "seek whence r = (Inr (word_of_int (seek_target whence r)),
    r\<lparr>seek_to := None, position := word_of_int (seek_target whence r), leftover := []\<rparr>)"
  using assms
  by (cases whence)
    (simp_all add: seek_def start_seek_def seek_target_def resolve_offset_ok poll_complete_def)

lemma seek_refused:
  assumes "seek_to r = None" "r_pending r = None"
    and out: "\<not> (0 \<le> seek_target whence r \<and> seek_target whence r < 2 ^ 64)"
  shows "\<exists>e. seek whence r = (Inl e, r) \<and> io_error_kind_of e = InvalidInput"
proof (cases whence)
  case (Start n)
  then show ?thesis using out uint_lt2p [of n] by (simp add: seek_target_def)
next
  case (Current d)
  then show ?thesis
    using resolve_offset_err [of "position r" d "''current position''"] out assms(1,2)
    by (auto simp: seek_target_def seek_def start_seek_def)
next
  case (End d)
  then show ?thesis
    using resolve_offset_err [of "r_size r" d "''end of the object''"] out assms(1,2)
    by (auto simp: seek_target_def seek_def start_seek_def)
qed

lemma seek_in_flight:
  "seek_to r = None \<Longrightarrow> r_pending r \<noteq> None \<Longrightarrow> seek whence r = (Inl seek_while_reading, r)"
  by (simp add: seek_def start_seek_def)

lemma seek_at_rest:
  assumes "at_rest obj r"
  shows "at_rest obj (snd (seek whence r))"
proof (cases "r_pending r")
  case None
  have rest: "seek_to r = None" "length obj = unat (r_size r)"
    using assms by (simp_all add: at_rest_def reader_ok_def)
  show ?thesis
  proof (cases "0 \<le> seek_target whence r \<and> seek_target whence r < 2 ^ 64")
    case True
    then show ?thesis
      using seek_idle [OF rest(1) None, of whence] rest None by (simp add: at_rest_def reader_ok_def)
  next
    case False
    from seek_refused [OF rest(1) None False] assms show ?thesis by auto
  qed
next
  case (Some p)
  then show ?thesis using assms seek_in_flight [of r whence] by (simp add: at_rest_def)
qed

interpretation reading: transition_system
  "\<lambda>r. \<exists>c b k. r = new_reader c b k (of_nat (length obj)) \<and> length obj < 2 ^ 64"
  reader_step "honest_event obj" "at_rest obj"
proof
  show "at_rest obj r"
    if "\<exists>c b k. r = new_reader c b k (of_nat (length obj)) \<and> length obj < 2 ^ 64" for r
    using that by (auto simp: at_rest_def reader_ok_def new_reader_def unat_of_nat_no_wrap)
  show "at_rest obj (reader_step r e)" if "at_rest obj r" "honest_event obj e r" for r e
  proof (cases e)
    case (ReadInto get remaining)
    then have "read_step obj remaining r (fst (poll_read get remaining r)) (snd (poll_read get remaining r))"
      using that poll_read_step [of obj r get remaining] by (simp add: at_rest_def)
    then show ?thesis using that ReadInto by (simp add: at_rest_def read_step_def)
  next
    case (SeekBy x2)
    then show ?thesis using that seek_at_rest by simp
  qed
qed


section \<open>Interface: AsyncRead, and the loop that fills a buffer\<close>

text \<open>\<open>AsyncReadExt::read_exact\<close>: read until the buffer is full; no bytes means the end.\<close>

datatype 'e read_exact_answer = Filled bytes | ReadWaits bytes | EarlyEof bytes | ReadFailed 'e

function read_exact ::
  "(nat \<Rightarrow> 's \<Rightarrow> (bytes, 'e) result poll \<times> 's) \<Rightarrow> bytes \<Rightarrow> nat \<Rightarrow> 's \<Rightarrow> 'e read_exact_answer \<times> 's"
where
  "read_exact rd acc n s =
     (if n = 0 then (Filled acc, s)
      else case rd n s of
             (Pending, s') \<Rightarrow> (ReadWaits acc, s')
           | (Ready (Inl e), s') \<Rightarrow> (ReadFailed e, s')
           | (Ready (Inr out), s') \<Rightarrow>
               if out = [] then (EarlyEof acc, s')
               else read_exact rd (acc @ out) (n - length out) s')"
  by pat_completeness auto
termination
  by (relation "measure (\<lambda>(_, _, n, _). n)") auto

declare read_exact.simps [simp del]

text \<open>
  The contract of a source over the bytes \<open>obj\<close>: a read that is ready gives the bytes at the
  position and moves behind them, and gives none only at the end or when none were asked for.
\<close>

locale async_source =
  fixes rd :: "nat \<Rightarrow> 's \<Rightarrow> (bytes, 'e) result poll \<times> 's"
    and obj :: bytes
    and pos :: "'s \<Rightarrow> nat"
    and inv :: "'s \<Rightarrow> bool"
    and limit :: nat
  assumes read_ready: "inv s \<Longrightarrow> n < limit \<Longrightarrow> rd n s = (Ready (Inr out), s') \<Longrightarrow>
      inv s' \<and> out = piece (pos s) (length out) obj \<and> pos s' = pos s + length out \<and> length out \<le> n
      \<and> (out = [] \<longrightarrow> n = 0 \<or> length obj \<le> pos s)"
begin

lemma read_exact_filled:
  "inv s \<Longrightarrow> n < limit \<Longrightarrow> read_exact rd acc n s = (Filled bs, s') \<Longrightarrow>
   inv s' \<and> bs = acc @ piece (pos s) n obj \<and> pos s' = pos s + n"
proof (induction n arbitrary: acc s rule: less_induct)
  case (less n)
  show ?case
  proof (cases "n = 0")
    case True
    then show ?thesis using less.prems by (simp add: read_exact.simps piece_def)
  next
    case False
    with less.prems(3) obtain out t where rd: "rd n s = (Ready (Inr out), t)" "out \<noteq> []"
      and rest: "read_exact rd (acc @ out) (n - length out) t = (Filled bs, s')"
      by (subst (asm) read_exact.simps) (auto split: prod.splits poll.splits sum.splits if_splits)
    note r = read_ready [OF less.prems(1,2) rd(1)]
    have "length out \<noteq> 0" using rd(2) by simp
    then have ih: "inv s' \<and> bs = (acc @ out) @ piece (pos t) (n - length out) obj
      \<and> pos s' = pos t + (n - length out)"
      using less.IH [OF _ _ _ rest] r less.prems(2) False by simp
    have "out @ piece (pos t) (n - length out) obj = piece (pos s) n obj"
      using piece_append [of "pos s" "length out" obj "n - length out"] r by simp
    then show ?thesis using ih r by simp
  qed
qed

end

locale ready_source = async_source +
  assumes always_ready: "inv s \<Longrightarrow> n < limit \<Longrightarrow> \<exists>out s'. rd n s = (Ready (Inr out), s')"
begin

lemma read_exact_total:
  "inv s \<Longrightarrow> n < limit \<Longrightarrow> pos s + n \<le> length obj \<Longrightarrow>
   \<exists>s'. read_exact rd acc n s = (Filled (acc @ piece (pos s) n obj), s')"
proof (induction n arbitrary: acc s rule: less_induct)
  case (less n)
  show ?case
  proof (cases "n = 0")
    case True
    then show ?thesis by (simp add: read_exact.simps piece_def)
  next
    case False
    obtain out t where rd: "rd n s = (Ready (Inr out), t)" using always_ready less.prems(1,2) by blast
    note r = read_ready [OF less.prems(1,2) rd]
    have ne: "out \<noteq> []" using r less.prems(3) False by auto
    have dec: "n - length out < n" using ne False by (cases out) auto
    have "\<exists>s'. read_exact rd (acc @ out) (n - length out) t
        = (Filled ((acc @ out) @ piece (pos t) (n - length out) obj), s')"
      using less.IH [OF dec, of t "acc @ out"] r less.prems(2,3) by simp
    moreover have "out @ piece (pos t) (n - length out) obj = piece (pos s) n obj"
      using piece_append [of "pos s" "length out" obj "n - length out"] r by simp
    ultimately show ?thesis using False rd ne by (subst read_exact.simps) simp
  qed
qed

end

definition source_inv :: "bytes \<Rightarrow> (PendingRead \<Rightarrow> (bytes, S3Error) result poll) \<Rightarrow> S3Reader \<Rightarrow> bool" where
  "source_inv obj get r \<longleftrightarrow> at_rest obj r \<and> honest obj get"

interpretation reader_source: async_source "poll_read get" obj "\<lambda>r. unat (position r)"
  "source_inv obj get" "2 ^ 64"
proof
  fix r n out r'
  assume inv: "source_inv obj get r" and n: "n < (2::nat) ^ 64" and rd: "poll_read get n r = (Ready (Inr out), r')"
  have "read_step obj n r (Ready (Inr out)) r'"
    using poll_read_step [OF _ _ n rd] inv by (simp add: source_inv_def at_rest_def)
  then show "source_inv obj get r' \<and> out = piece (at r) (length out) obj \<and> at r' = at r + length out
      \<and> length out \<le> n \<and> (out = [] \<longrightarrow> n = 0 \<or> length obj \<le> at r)"
    using inv by (simp add: source_inv_def at_rest_def read_step_def)
qed

text \<open>The storage that answers every range at once.\<close>

definition answers_at_once :: "bytes \<Rightarrow> PendingRead \<Rightarrow> (bytes, S3Error) result poll" where
  "answers_at_once obj p =
     Ready (Inr (piece (unat (get_start p)) (unat (get_end p) + 1 - unat (get_start p)) obj))"

lemma honest_at_once: "honest obj (answers_at_once obj)"
  by (simp add: honest_def answers_at_once_def)


lemma at_once_answer:
  assumes "reader_ok obj r" "pending_ok r p"
  obtains body where "answers_at_once obj p = Ready (Inr body)" "length body = requested_len p"
proof -
  have "unat (get_end p) + 1 - unat (get_start p) = requested_len p"
    "unat (get_start p) + requested_len p \<le> length obj"
    using assms by (auto simp: pending_ok_def reader_ok_def)
  then show ?thesis
    using that by (auto simp: answers_at_once_def piece_length)
qed

lemma poll_read_at_once:
  assumes ok: "reader_ok obj r" and n: "n < 2 ^ 64"
  shows "\<exists>out r'. poll_read (answers_at_once obj) n r = (Ready (Inr out), r')"
proof -
  have request: "\<exists>out r''. poll_request (answers_at_once obj) n p r' = (Ready (Inr out), r'')"
    if p: "pending_ok r p" for p r'
  proof -
    obtain body where "answers_at_once obj p = Ready (Inr body)" "length body = requested_len p"
      by (rule at_once_answer [OF ok p])
    then show ?thesis by (simp add: poll_request_def split: prod.split)
  qed
  show ?thesis
  proof (cases "leftover r = [] \<and> r_pending r = None \<and> \<not> position r \<ge> r_size r \<and> n \<noteq> 0")
    case True
    then show ?thesis using request [OF start_read_ok(1)] n by (simp add: poll_read_def)
  next
    case False
    moreover have "pending_ok r p" if "r_pending r = Some p" for p
      using ok that by (simp add: reader_ok_def)
    ultimately show ?thesis
      using request by (auto simp: poll_read_def split: prod.split option.split)
  qed
qed

interpretation storage_source: ready_source "poll_read (answers_at_once obj)" obj
  "\<lambda>r. unat (position r)" "source_inv obj (answers_at_once obj)" "2 ^ 64"
  by unfold_locales (auto simp: source_inv_def at_rest_def poll_read_at_once)

section \<open>Properties\<close>

text \<open>
  C24: a reader over an object of \<open>length obj\<close> bytes, after any sequence of reads (each with
  whatever buffer, each answered at once, later, with an error, or cancelled and resumed)
  and seeks: a read that is ready delivers exactly the bytes of the object at the reader's
  position, moves behind them, never more than the buffer holds, and delivers none only
  at the end of the object or into an empty buffer.
\<close>

theorem reads_deliver_the_object:
  assumes "length obj < 2 ^ 64"
    and "steps_ok reader_step (honest_event obj) (new_reader c b k (of_nat (length obj))) es"
    and "r = run_steps reader_step (new_reader c b k (of_nat (length obj))) es"
    and "honest obj get" and "remaining < 2 ^ 64"
    and "poll_read get remaining r = (Ready (Inr out), r')"
  shows "out = take (length out) (drop (unat (position r)) obj)
    \<and> unat (position r') = unat (position r) + length out
    \<and> length out \<le> remaining
    \<and> (out = [] \<longrightarrow> remaining = 0 \<or> length obj \<le> unat (position r))"
proof -
  have "at_rest obj r"
    unfolding assms(3) by (rule reading.run_from_start [OF _ assms(2)]) (use assms(1) in auto)
  then have "source_inv obj get r" using assms(4) by (simp add: source_inv_def)
  from reader_source.read_ready [OF this assms(5,6)] show ?thesis by (simp add: piece_def)
qed

definition sample_object :: bytes where
  "sample_object = ''abcdefgh''"

abbreviation sample_reader :: S3Reader where
  "sample_reader \<equiv> new_reader (new_client ''AK'' ''SK'' AwsEuWest1 ''e'') ''b'' ''k''
     (of_nat (length sample_object))"

text \<open>
  The witness: seek to 2, a read of four bytes is cancelled while its request is in flight,
  a later read of three bytes takes the answer; the next read gets the leftover byte.
\<close>

theorem reads_deliver_the_object_witness:
  "let es = [SeekBy (Start 2), ReadInto (\<lambda>_. Pending) 4, ReadInto (answers_at_once sample_object) 3];
       r = run_steps reader_step sample_reader es;
       (a, r') = poll_read (answers_at_once sample_object) 5 r
   in unat (position r) = 5 \<and> a = Ready (Inr ''f'') \<and> unat (position r') = 6"
proof -
  let ?es = "[SeekBy (Start 2), ReadInto (\<lambda>_. Pending) 4, ReadInto (answers_at_once sample_object) 3]"
  let ?r = "run_steps reader_step sample_reader ?es"
  let ?p = "poll_read (answers_at_once sample_object) 5 ?r"
  have len: "length sample_object = 8" by (simp add: sample_object_def)
  have h: "honest sample_object (\<lambda>_. Pending)" "honest sample_object (answers_at_once sample_object)"
    by (simp add: honest_def) (rule honest_at_once)
  have ok: "steps_ok reader_step (honest_event sample_object) sample_reader ?es"
    using h by (simp del: reader_step.simps)
  have fst: "fst ?p = Ready (Inr ''f'')" by code_simp
  have pos: "unat (position ?r) = 5" by code_simp
  have "?p = (Ready (Inr ''f''), snd ?p)" using fst by (metis prod.collapse)
  from reads_deliver_the_object [OF _ ok refl h(2) _ this]
  have "unat (position (snd ?p)) = 6"
    unfolding pos by (simp add: len)
  then show ?thesis using fst pos by (simp add: Let_def prod.case_eq_if)
qed


text \<open>
  C25: with a storage that answers, \<open>read_exact\<close> of \<open>n\<close> bytes that are there always returns,
  and fills the buffer with exactly the \<open>n\<close> bytes at the reader's position.
\<close>

theorem read_exact_reads_the_range:
  assumes "reader_ok obj r" "seek_to r = None" and "n < 2 ^ 64" "unat (position r) + n \<le> length obj"
  shows "\<exists>r'. read_exact (poll_read (answers_at_once obj)) [] n r
      = (Filled (take n (drop (unat (position r)) obj)), r')
    \<and> unat (position r') = unat (position r) + n"
proof -
  have inv: "source_inv obj (answers_at_once obj) r"
    using assms(1,2) honest_at_once by (simp add: source_inv_def at_rest_def)
  obtain r' where "read_exact (poll_read (answers_at_once obj)) [] n r
      = (Filled ([] @ piece (unat (position r)) n obj), r')"
    using storage_source.read_exact_total [OF inv assms(3,4), of "[]"] by blast
  with reader_source.read_exact_filled [OF inv assms(3)] show ?thesis
    by (fastforce simp: piece_def)
qed

theorem read_exact_reads_the_range_witness:
  "\<exists>r'. read_exact (poll_read (answers_at_once sample_object)) [] 3 sample_reader = (Filled ''abc'', r')
     \<and> unat (position r') = 3"
proof -
  have "reader_ok sample_object sample_reader" "seek_to sample_reader = None"
    by (simp_all add: reader_ok_def new_reader_def sample_object_def)
  from read_exact_reads_the_range [OF this, of 3] show ?thesis
    by (simp add: new_reader_def sample_object_def)
qed

text \<open>
  C26: an answer of the wrong length is never handed over, whether its request was started by
  this read or by one that was cancelled: a body shorter than the range is \<open>UnexpectedEof\<close>, a
  longer one \<open>InvalidData\<close>, a failed request carries its \<open>S3Error\<close> (\<open>NotFound\<close> for a missing
  key); in all three cases the position stays, no request and no bytes are kept, so the next
  read asks again. At or behind the end, or into an empty buffer, an idle reader asks for
  nothing: whatever the storage would say, the read is empty and changes nothing.
\<close>

theorem wrong_answers_are_errors:
  assumes "leftover r = []" and "p = (case r_pending r of Some p \<Rightarrow> p | None \<Rightarrow> start_read remaining r)"
  shows "if r_pending r = None \<and> (r_size r \<le> position r \<or> remaining = 0)
    then poll_read get remaining r = (Ready (Inr []), r)
    else case get p of
        Pending \<Rightarrow> poll_read get remaining r = (Pending, r\<lparr>r_pending := Some p\<rparr>)
      | Ready (Inl err) \<Rightarrow>
          \<exists>e. poll_read get remaining r = (Ready (Inl e), r\<lparr>r_pending := None\<rparr>)
            \<and> io_error_kind_of e = (if err = KeyNotFound then NotFound else OtherKind)
      | Ready (Inr body) \<Rightarrow>
          if length body = requested_len p then
            poll_read get remaining r =
              (Ready (Inr (take remaining body)),
               r\<lparr>r_pending := None, leftover := drop remaining body,
                 position := position r + of_nat (min (length body) remaining)\<rparr>)
          else
            \<exists>e. poll_read get remaining r = (Ready (Inl e), r\<lparr>r_pending := None\<rparr>)
              \<and> io_error_kind_of e = (if length body < requested_len p then UnexpectedEof else InvalidData)"
proof -
  have drained: "take (min k remaining) body = take remaining body"
    "drop (min k remaining) body = drop remaining body" if "length body = k" for k and body :: bytes
    using that by (cases "k \<le> remaining"; simp add: min_def)+
  have idle: "r\<lparr>r_pending := None\<rparr> = r" if "r_pending r = None" using that by (cases r) simp
  show ?thesis
    using assms
    by (cases "r_pending r")
      (auto simp: drained idle poll_read_def poll_request_def to_io_error_def wrong_length_def drain_leftover_def Let_def
        split: poll.split sum.split)
qed

theorem wrong_answers_are_errors_witness:
  "\<exists>e. poll_read (\<lambda>_. Ready (Inr ''ab'')) 4 sample_reader = (Ready (Inl e), sample_reader)
     \<and> io_error_kind_of e = UnexpectedEof"
proof -
  let ?r = "new_reader (new_client ''AK'' ''SK'' AwsEuWest1 ''e'') ''b'' ''k'' 8"
  have "requested_len (start_read 4 ?r) = 4" by code_simp
  moreover have "leftover ?r = []" "r_pending ?r = None" "\<not> r_size ?r \<le> position ?r"
    by (simp_all add: new_reader_def)
  moreover have idle: "?r\<lparr>r_pending := None\<rparr> = ?r" by (simp add: new_reader_def)
  ultimately have "\<exists>e. poll_read (\<lambda>_. Ready (Inr ''ab'')) 4 ?r = (Ready (Inl e), ?r) \<and> io_error_kind_of e = UnexpectedEof"
    using wrong_answers_are_errors [of ?r "start_read 4 ?r" 4 "\<lambda>_. Ready (Inr ''ab'')", unfolded idle]
    by simp
  then show ?thesis by (simp add: sample_object_def)
qed

text \<open>
  The calls of \<open>AsyncRead\<close> and \<open>AsyncSeek\<close> one by one, in any order, on any storage.
\<close>

datatype reader_call =
    CallRead "PendingRead \<Rightarrow> (bytes, S3Error) result poll" nat
  | CallStartSeek SeekFrom
  | CallComplete

fun reader_call_step :: "S3Reader \<Rightarrow> reader_call \<Rightarrow> S3Reader" where
  "reader_call_step r (CallRead get remaining) = snd (poll_read get remaining r)"
| "reader_call_step r (CallStartSeek whence) = snd (start_seek whence r)"
| "reader_call_step r CallComplete = snd (poll_complete r)"

primrec buffer_fits :: "reader_call \<Rightarrow> bool" where
  "buffer_fits (CallRead get remaining) \<longleftrightarrow> remaining < 2 ^ 64"
| "buffer_fits (CallStartSeek whence) \<longleftrightarrow> True"
| "buffer_fits CallComplete \<longleftrightarrow> True"

text \<open>A range of an object of \<open>sz\<close> bytes: not empty, its end inside, its length what is counted.\<close>

definition in_object :: "u64 \<Rightarrow> PendingRead \<Rightarrow> bool" where
  "in_object sz p \<longleftrightarrow>
     unat (get_start p) \<le> unat (get_end p) \<and> unat (get_end p) < unat sz
     \<and> requested_len p = unat (get_end p) + 1 - unat (get_start p)"

definition flight_in_object :: "u64 \<Rightarrow> S3Reader \<Rightarrow> bool" where
  "flight_in_object sz r \<longleftrightarrow> r_size r = sz \<and> (\<forall>p. r_pending r = Some p \<longrightarrow> in_object sz p)"

lemma pending_ok_in_object: "pending_ok r p \<Longrightarrow> in_object (r_size r) p"
  by (auto simp: pending_ok_def in_object_def)

lemma drain_leftover_sel [simp]:
  "r_pending (snd (drain_leftover n r)) = r_pending r" "r_size (snd (drain_leftover n r)) = r_size r"
  by (simp_all add: drain_leftover_def Let_def)

lemma poll_request_in_object:
  assumes "in_object sz p" "r_pending r = None" "r_size r = sz"
  shows "flight_in_object sz (snd (poll_request get n p r))"
proof -
  have "r_pending (snd (poll_request get n p r)) \<in> {None, Some p}" "r_size (snd (poll_request get n p r)) = sz"
    using assms(2,3) drain_leftover_sel [of n "r\<lparr>leftover := body\<rparr>" for body]
    by (auto simp: poll_request_def Let_def prod.case_eq_if split: poll.split sum.split)
  then show ?thesis using assms(1) by (auto simp: flight_in_object_def)
qed

text \<open>What a read does depends on the storage only through the one range it asks for.\<close>

lemma poll_read_asks:
  assumes "flight_in_object sz r" "n < 2 ^ 64"
  obtains (nothing) q where "\<And>get. poll_read get n r = (Ready (Inr (fst q)), snd q)" "flight_in_object sz (snd q)"
  | (range) p r0 where "\<And>get. poll_read get n r = poll_request get n p r0" "in_object sz p"
      "r_pending r0 = None" "r_size r0 = sz"
proof -
  have sz: "r_size r = sz" using assms(1) by (simp add: flight_in_object_def)
  consider (left) "leftover r \<noteq> []"
    | (flight) p where "leftover r = []" "r_pending r = Some p"
    | (eof) "leftover r = []" "r_pending r = None" "position r \<ge> r_size r \<or> n = 0"
    | (new_get) "leftover r = []" "r_pending r = None" "\<not> position r \<ge> r_size r" "n \<noteq> 0"
    by fastforce
  then show ?thesis
  proof cases
    case left
    then have "poll_read get n r = (Ready (Inr (fst (drain_leftover n r))), snd (drain_leftover n r))" for get
      by (simp add: poll_read_def prod.case_eq_if)
    then show ?thesis by (rule nothing) (use assms(1) in \<open>simp add: flight_in_object_def\<close>)
  next
    case (flight p)
    then show ?thesis
      using range [of p "r\<lparr>r_pending := None\<rparr>"] assms(1) by (simp add: poll_read_def flight_in_object_def)
  next
    case eof
    then have "poll_read get n r = (Ready (Inr (fst ([], r))), snd ([], r))" for get
      by (simp add: poll_read_def)
    then show ?thesis by (rule nothing) (simp add: assms(1))
  next
    case new_get
    then show ?thesis
      using range [of "start_read n r" r] pending_ok_in_object [OF start_read_ok(1) [OF new_get(3,4) assms(2)]] sz
      by (simp add: poll_read_def)
  qed
qed

lemma start_seek_sel [simp]:
  "r_pending (snd (start_seek whence r)) = r_pending r" "r_size (snd (start_seek whence r)) = r_size r"
  by (auto simp: start_seek_def split: sum.split)

lemma poll_complete_sel [simp]:
  "r_pending (snd (poll_complete r)) = r_pending r" "r_size (snd (poll_complete r)) = r_size r"
  by (auto simp: poll_complete_def Let_def split: option.split)

interpretation asking: transition_system "\<lambda>r. \<exists>s3 b k. r = new_reader s3 b k sz" reader_call_step
  "\<lambda>c _. buffer_fits c" "flight_in_object sz"
proof
  show "flight_in_object sz r" if "\<exists>s3 b k. r = new_reader s3 b k sz" for r
    using that by (auto simp: flight_in_object_def new_reader_def)
  show "flight_in_object sz (reader_call_step r c)" if "flight_in_object sz r" "buffer_fits c" for r c
  proof (cases c)
    case (CallRead get n)
    with that(2) have "n < 2 ^ 64" by simp
    from that(1) this show ?thesis
      by (cases rule: poll_read_asks) (use CallRead poll_request_in_object in auto)
  qed (use that(1) in \<open>simp_all add: flight_in_object_def\<close>)
qed

text \<open>
  C27: every range a reader asks for is inside the object. After any calls of reads (answered
  in any way, cancelled, resumed), \<open>start_seek\<close> and \<open>poll_complete\<close> in any order, on any
  storage, a read cannot tell two storages apart that answer alike the non-empty ranges inside
  the object, so it asks for no other, and what it leaves in flight is one of them. An idle
  reader that is inside the object asks for exactly \<open>min(buffer, what is left)\<close> bytes from its
  position; one at or behind the end asks for nothing.
\<close>

theorem requests_stay_inside:
  assumes "list_all buffer_fits calls" and "remaining < 2 ^ 64"
    and "r = run_steps reader_call_step (new_reader c b k sz) calls"
    and "\<And>p. in_object sz p \<Longrightarrow> get p = get' p"
  shows "poll_read get remaining r = poll_read get' remaining r
    \<and> (case r_pending (snd (poll_read get remaining r)) of None \<Rightarrow> True | Some p \<Rightarrow> in_object sz p)
    \<and> (if leftover r = [] \<and> r_pending r = None then
         if unat (position r) < unat sz \<and> 0 < remaining then
           \<exists>p. poll_read (\<lambda>_. Pending) remaining r = (Pending, r\<lparr>r_pending := Some p\<rparr>)
             \<and> get_start p = position r
             \<and> unat (get_end p) + 1 = unat (position r) + min remaining (unat sz - unat (position r))
         else poll_read get remaining r = (Ready (Inr []), r)
       else True)"
proof -
  have "steps_ok reader_call_step (\<lambda>c _. buffer_fits c) q calls" for q
    using assms(1) by (induction calls arbitrary: q) auto
  then have inv: "flight_in_object sz r" unfolding assms(3) by (intro asking.run_from_start) auto
  then have sz: "r_size r = sz" by (simp add: flight_in_object_def)
  from inv assms(2) have "poll_read get remaining r = poll_read get' remaining r
    \<and> flight_in_object sz (snd (poll_read get remaining r))"
  proof (cases rule: poll_read_asks)
    case (range p r0)
    then have "poll_request get remaining p r0 = poll_request get' remaining p r0"
      using assms(4) by (simp add: poll_request_def)
    then show ?thesis using range poll_request_in_object [OF range(2-4)] by simp
  qed simp
  moreover have "\<exists>p. poll_read (\<lambda>_. Pending) remaining r = (Pending, r\<lparr>r_pending := Some p\<rparr>)
      \<and> get_start p = position r
      \<and> unat (get_end p) + 1 = unat (position r) + min remaining (unat sz - unat (position r))"
    if idle: "leftover r = []" "r_pending r = None" and inside: "unat (position r) < unat sz" "0 < remaining"
  proof -
    have lt: "\<not> position r \<ge> r_size r" using inside(1) sz by (simp add: word_le_nat_alt)
    note ok = start_read_ok [OF lt _ assms(2)]
    have "poll_read (\<lambda>_. Pending) remaining r = (Pending, r\<lparr>r_pending := Some (start_read remaining r)\<rparr>)"
      using idle lt inside(2) by (simp add: poll_read_def poll_request_def)
    then show ?thesis using ok inside(2) sz by (auto simp: pending_ok_def)
  qed
  moreover have "poll_read get remaining r = (Ready (Inr []), r)"
    if "leftover r = []" "r_pending r = None" "\<not> (unat (position r) < unat sz \<and> 0 < remaining)"
    using that sz by (auto simp: poll_read_def word_le_nat_alt)
  ultimately show ?thesis by (auto simp: flight_in_object_def split: option.split)
qed

theorem requests_stay_inside_witness:
  "let calls = [CallStartSeek (Start 5), CallComplete];
       r = run_steps reader_call_step sample_reader calls
   in unat (position r) = 5
      \<and> (\<exists>p. poll_read (\<lambda>_. Pending) 100 r = (Pending, r\<lparr>r_pending := Some p\<rparr>)
          \<and> get_start p = 5 \<and> unat (get_end p) = 7)"
proof -
  let ?calls = "[CallStartSeek (Start 5), CallComplete]"
  let ?s3 = "new_client ''AK'' ''SK'' AwsEuWest1 ''e''"
  let ?r = "run_steps reader_call_step (new_reader ?s3 ''b'' ''k'' 8) ?calls"
  have at_5: "position ?r = 5" "leftover ?r = []" "r_pending ?r = None" by code_simp+
  have "list_all buffer_fits ?calls" "(100 :: nat) < 2 ^ 64" by simp_all
  from requests_stay_inside [where get = "\<lambda>_. Pending" and get' = "\<lambda>_. Pending"
      and sz = 8 and c = ?s3 and b = "''b''" and k = "''k''", OF this refl]
  have "\<exists>p. poll_read (\<lambda>_. Pending) 100 ?r = (Pending, ?r\<lparr>r_pending := Some p\<rparr>)
      \<and> get_start p = 5 \<and> unat (get_end p) + 1 = 5 + min 100 (8 - 5)"
    unfolding at_5 by (simp del: run_steps.simps)
  moreover have "sample_reader = new_reader ?s3 ''b'' ''k'' 8" by (simp add: sample_object_def)
  ultimately show ?thesis unfolding Let_def by (auto simp: at_5 simp del: run_steps.simps)
qed

text \<open>
  C28: seeking on an idle reader is arithmetic on unbounded integers: a target from \<open>0\<close> to
  \<open>u64::MAX\<close> becomes the position exactly, whatever the base and the signed offset, even
  past the end of the object, and drops what was fetched for the old position; a target
  outside is \<open>InvalidInput\<close> and changes nothing; with a request in flight the seek is
  refused and changes nothing.
\<close>

theorem seek_moves_exactly:
  assumes "seek_to r = None"
  shows "if r_pending r \<noteq> None then seek whence r = (Inl seek_while_reading, r)
    else if 0 \<le> seek_target whence r \<and> seek_target whence r < 2 ^ 64 then
      \<exists>r'. seek whence r = (Inr (position r'), r') \<and> uint (position r') = seek_target whence r
        \<and> leftover r' = [] \<and> r_pending r' = None \<and> r_size r' = r_size r \<and> seek_to r' = None
    else \<exists>e. seek whence r = (Inl e, r) \<and> io_error_kind_of e = InvalidInput"
proof -
  have "uint (word_of_int (seek_target whence r) :: u64) = seek_target whence r"
    if "0 \<le> seek_target whence r \<and> seek_target whence r < 2 ^ 64"
    using that by (simp add: uint_word_of_int)
  then show ?thesis
    using seek_in_flight [OF assms] seek_idle [OF assms] seek_refused [OF assms] by auto
qed

theorem seek_moves_exactly_witness:
  "\<exists>r'. seek (End (-3)) sample_reader = (Inr 5, r') \<and> position r' = 5"
proof -
  have t: "seek_target (End (-3)) sample_reader = 5"
    by (simp add: seek_target_def new_reader_def sample_object_def)
  from seek_moves_exactly [of sample_reader "End (-3)"] obtain r' where
    r': "seek (End (-3)) sample_reader = (Inr (position r'), r')" "uint (position r') = 5"
    unfolding t by (auto simp: new_reader_def)
  have "position r' = 5" using r'(2) by (simp add: word_uint_eq_iff)
  then show ?thesis using r' by simp
qed

text \<open>
  C29: the guard that keeps a seek from moving the position under a request in flight stands
  in \<open>start_seek\<close> only. Whenever a read is started between \<open>start_seek\<close> and \<open>poll_complete\<close> (both
  trait methods, callable in that order) and is still waiting when the seek is completed, the
  position is moved under the request: for any object, any target \<open>t\<close>, any position inside
  and any buffers, with the storage answering each range with its bytes, the reader reports
  position \<open>t\<close> and hands over the bytes at the position it was at before.
\<close>

theorem seek_completed_under_a_read:
  assumes "reader_ok obj r" and "leftover r = []" "r_pending r = None" "seek_to r = None"
    and "unat (position r) < length obj" and "0 < n" "n < 2 ^ 64"
  shows "let (s, r1) = start_seek (Start t) r;
         (a, r2) = poll_read (\<lambda>_. Pending) n r1;
         (b, r3) = poll_complete r2;
         (c, r4) = poll_read (answers_at_once obj) m r3;
         k = min m (min n (length obj - unat (position r)))
     in s = Inr () \<and> a = Pending \<and> b = Ready (Inr t) \<and> position r3 = t
        \<and> c = Ready (Inr (take k (drop (unat (position r)) obj))) \<and> position r4 = t + of_nat k"
proof -
  have len: "length obj = unat (r_size r)" using assms(1) by (simp add: reader_ok_def)
  then have inside: "\<not> position r \<ge> r_size r" using assms(5) by (simp add: word_le_nat_alt)
  let ?p = "start_read n r"
  note ok = start_read_ok [OF inside _ assms(7)]
  have p: "unat (get_start ?p) = unat (position r)"
    "unat (get_end ?p) + 1 - unat (get_start ?p) = requested_len ?p"
    "requested_len ?p = min n (length obj - unat (position r))"
    using ok assms(6) len by (auto simp: pending_ok_def)
  let ?body = "piece (unat (position r)) (requested_len ?p) obj"
  have body: "length ?body = requested_len ?p" using p(3) assms(5) by (intro piece_length) simp
  have get: "answers_at_once obj ?p = Ready (Inr ?body)" using p(1,2) by (simp add: answers_at_once_def)
  have "start_read n (r\<lparr>seek_to := Some t\<rparr>) = ?p" by (simp add: start_read_def)
  then have "poll_read (\<lambda>_. Pending) n (r\<lparr>seek_to := Some t\<rparr>) = (Pending, r\<lparr>seek_to := Some t, r_pending := Some ?p\<rparr>)"
    using assms(2,3,6) inside by (simp add: poll_read_def poll_request_def)
  moreover have "take (min (requested_len ?p) m) ?body = take (min m (requested_len ?p)) (drop (unat (position r)) obj)"
    by (simp add: piece_def min.commute)
  ultimately show ?thesis
    using assms(2-4) get body
    by (simp add: start_seek_def poll_complete_def poll_read_def poll_request_def drain_leftover_def Let_def
        p(3) min.commute)
qed

theorem seek_completed_under_a_read_witness:
  "let (s, r1) = start_seek (Start 4) sample_reader;
       (a, r2) = poll_read (\<lambda>_. Pending) 3 r1;
       (b, r3) = poll_complete r2;
       (c, r4) = poll_read (answers_at_once sample_object) 3 r3
   in position r3 = 4 \<and> c = Ready (Inr ''abc'') \<and> take 3 (drop 4 sample_object) = ''efg''"
proof -
  have "reader_ok sample_object sample_reader" "unat (position sample_reader) < length sample_object"
    by (simp_all add: reader_ok_def new_reader_def sample_object_def)
  moreover have "leftover sample_reader = []" "r_pending sample_reader = None" "seek_to sample_reader = None"
    by (simp_all add: new_reader_def)
  ultimately show ?thesis
    using seek_completed_under_a_read [of sample_object sample_reader 3 4 3]
    by (simp add: Let_def prod.case_eq_if) (simp add: new_reader_def sample_object_def)
qed

section \<open>The range loop\<close>

lemma collect_range_delivers:
  assumes "delivers next_item (socket stream) cs" "length acc + length (concat cs) \<le> wanted"
  shows "collect_range next_item wanted acc stream =
    Some (at_end (content_length stream) (received_bytes stream + of_nat (length (concat cs))) (acc @ concat cs))"
  using assms
proof (induction cs arbitrary: acc stream)
  case Nil
  from Nil(1) obtain b where "get_next_chunk next_item stream =
      (at_end (content_length stream) (received_bytes stream) None, stream\<lparr>socket := b\<rparr>)"
    by (rule get_next_chunk_ends)
  then show ?case
    by (subst collect_range.simps) (auto simp: at_end_def split: option.split)
next
  case (Cons c cs)
  from Cons.prems(1) obtain b where
    g: "get_next_chunk next_item stream =
      (Inr (Some c), stream\<lparr>socket := b, received_bytes := received_bytes stream + of_nat (length c)\<rparr>)"
    and d: "delivers next_item b cs"
    by (rule get_next_chunk_delivers)
  have "collect_range next_item wanted (acc @ c)
      (stream\<lparr>socket := b, received_bytes := received_bytes stream + of_nat (length c)\<rparr>) =
    Some (at_end (content_length stream)
      (received_bytes stream + of_nat (length c) + of_nat (length (concat cs))) ((acc @ c) @ concat cs))"
    using Cons.IH [of "stream\<lparr>socket := b, received_bytes := received_bytes stream + of_nat (length c)\<rparr>"
        "acc @ c"] d Cons.prems(2) by simp
  then show ?case
    using Cons.prems(2) by (subst collect_range.simps) (simp add: g add.assoc)
qed

lemma collect_range_stops:
  assumes "delivers next_item (socket stream) cs" "length acc \<le> wanted"
    "wanted < length acc + length (concat cs)"
  shows "\<exists>body. collect_range next_item wanted acc stream = Some (Inr body)
    \<and> wanted < length body \<and> prefix body (acc @ concat cs)"
  using assms
proof (induction cs arbitrary: acc stream)
  case Nil
  then show ?case by simp
next
  case (Cons c cs)
  from Cons.prems(1) obtain b where
    g: "get_next_chunk next_item stream =
      (Inr (Some c), stream\<lparr>socket := b, received_bytes := received_bytes stream + of_nat (length c)\<rparr>)"
    and d: "delivers next_item b cs"
    by (rule get_next_chunk_delivers)
  show ?case
  proof (cases "length (acc @ c) > wanted")
    case True
    then show ?thesis by (subst collect_range.simps) (simp add: g)
  next
    case False
    let ?s = "stream\<lparr>socket := b, received_bytes := received_bytes stream + of_nat (length c)\<rparr>"
    have "\<exists>body. collect_range next_item wanted (acc @ c) ?s = Some (Inr body)
      \<and> wanted < length body \<and> prefix body ((acc @ c) @ concat cs)"
      using False Cons.prems(3) d by (intro Cons.IH) simp_all
    then show ?thesis using False by (subst collect_range.simps) (simp add: g)
  qed
qed

text \<open>A body that is collected to its end is the body; one that is too long is seen to be.\<close>

lemma get_next_chunk_end:
  "get_next_chunk next_item stream = (Inr None, s') \<Longrightarrow> delivers next_item (socket stream) []"
  by (auto simp: get_next_chunk_def split: prod.splits sum.splits option.splits)

lemma get_next_chunk_some:
  "get_next_chunk next_item stream = (Inr (Some c), s') \<Longrightarrow>
   fst (next_item (socket stream)) = Inr (Some c) \<and> snd (next_item (socket stream)) = socket s'"
  by (auto simp: get_next_chunk_def split: prod.splits sum.splits option.splits if_splits)

lemma next_chunk_cases:
  obtains (fails) err s' where "get_next_chunk next_item stream = (Inl err, s')"
  | (ends) s' where "get_next_chunk next_item stream = (Inr None, s')" "delivers next_item (socket stream) []"
  | (goes) c s' where "get_next_chunk next_item stream = (Inr (Some c), s')"
      "\<And>cs. delivers next_item (socket s') cs \<Longrightarrow> delivers next_item (socket stream) (c # cs)"
proof (cases "get_next_chunk next_item stream")
  case (Pair a s')
  show ?thesis
  proof (cases a)
    case (Inl err)
    with Pair show ?thesis using fails by simp
  next
    case (Inr piece)
    with Pair show ?thesis
      using ends [of s'] goes [of _ s'] get_next_chunk_end get_next_chunk_some [of next_item stream _ s']
      by (cases piece) auto
  qed
qed

lemma collect_range_clean:
  assumes "collect_range next_item wanted acc stream = Some (Inr body)"
  shows "wanted < length body \<or> (\<exists>cs. delivers next_item (socket stream) cs \<and> body = acc @ concat cs)"
proof -
  have "r = Inr body \<Longrightarrow>
      wanted < length body \<or> (\<exists>cs. delivers next_item (socket stream) cs \<and> body = acc @ concat cs)"
    if "collect_range next_item wanted acc stream = Some r" for r
    using that
  proof (induction rule: collect_range.raw_induct [rotated, consumes 1, case_names step])
    case (step rec next_item wanted acc stream r)
    show ?case
    proof (cases rule: next_chunk_cases [of next_item stream])
      case fails
      then show ?thesis using step(2,3) by simp
    next
      case ends
      then show ?thesis using step(2,3) by (intro disjI2 exI [of _ "[]"]) simp
    next
      case (goes c s')
      show ?thesis
      proof (cases "length (acc @ c) > wanted")
        case True
        then show ?thesis using step(2,3) goes by auto
      next
        case False
        then have "rec next_item wanted (acc @ c) s' = Some r" using step(2) goes by simp
        from step(1) [OF this step(3)] show ?thesis
          using goes(2) by (metis append.assoc concat.simps(2))
      qed
    qed
  qed
  then show ?thesis using assms by blast
qed

text \<open>
  The future of a read always ends when the body does: a body of at most the requested
  length comes back whole (or as the error of a truncated one), and of a longer one only
  as much is held as shows that it is too long, which \<open>poll_read\<close> then refuses.
\<close>

lemma range_body_is_collected:
  assumes "delivers next_item b cs"
  shows "let stream = \<lparr>content_length = len, content_type = ct, socket = b, received_bytes = 0\<rparr>
    in if length (concat cs) \<le> wanted
       then collect_range next_item wanted [] stream
          = Some (at_end len (of_nat (length (concat cs))) (concat cs))
       else \<exists>body. collect_range next_item wanted [] stream = Some (Inr body)
          \<and> wanted < length body \<and> prefix body (concat cs)"
proof -
  let ?s = "\<lparr>content_length = len, content_type = ct, socket = b, received_bytes = 0\<rparr>"
  have d: "delivers next_item (socket ?s) cs" using assms by simp
  show ?thesis
    using collect_range_delivers [OF d, of "[]" wanted] collect_range_stops [OF d, of "[]" wanted]
    by (simp add: Let_def)
qed

lemma range_body_is_collected_example:
  "collect_range list_body 5 []
     \<lparr>content_length = Some 5, content_type = None, socket = [''ab'', ''cde''], received_bytes = 0\<rparr>
   = Some (Inr ''abcde'')"
  using range_body_is_collected [OF list_body_delivers [of "[''ab'', ''cde'']"], of "Some 5" None 5]
  by (simp add: Let_def at_end_def)

end
