(* ===== verification/Upload_Writer.thy ===== *)
theory Upload_Writer
  imports S3_Error
begin

text \<open>
  \<^verbatim>\<open>src/upload_writer.rs\<close>: the body of a streamed upload as an \<open>AsyncWrite\<close>.
  \<open>UploadWriterState\<close> and \<open>S3UploadWriter\<close> are the source's structs; a value of
  \<open>upload\<close> holds both (the \<open>Arc\<close> that shares the first is the sharing of one record)
  together with \<open>channel\<close>, the chunks handed over by \<open>permit.send\<close>, oldest first.

  The bounded channel is tokio's. The crate only sees it through the future of
  \<open>sender.reserve()\<close>, so the operations take its answer as an argument: \<open>reserve u\<close> is
  what polling that future gives when the upload is in state \<open>u\<close> (no room yet, a permit,
  or the receiving end is gone). Nothing is assumed about it here; the memory bound
  assumes that a permit is only given when the queue is below its capacity.

  Shown: the writer's invariant holds in every state that any sequence of writes, flushes,
  shutdowns and drops can reach, whatever the channel answers; the bytes in the channel
  are always a prefix of the bytes taken from the producer, in order, and all of them
  once \<open>shutdown\<close> has succeeded; never more than \<open>Content-Length\<close> bytes go out; a
  \<open>Pending\<close> write has consumed nothing; a handful of chunks are held at once, whatever the length.
\<close>

section \<open>Definitions\<close>

definition DEFAULT_UPLOAD_CHUNK_SIZE :: nat where
  "DEFAULT_UPLOAD_CHUNK_SIZE = 512 * 1024"

definition UPLOAD_CHANNEL_CAPACITY :: nat where
  "UPLOAD_CHANNEL_CAPACITY = 4"

text \<open>\<open>body_started\<close> is whether the \<open>Notify\<close> has been fired.\<close>

record UploadWriterState =
  st_content_length :: u64
  accepted :: u64
  sent :: u64
  upload_ended :: bool
  body_ended :: bool
  body_started :: bool

text \<open>
  \<open>sender\<close> is whether the \<open>Option<Sender>\<close> is \<open>Some\<close>. A \<open>PendingSend\<close> is a future that
  owns its chunk and stands at \<open>sender.reserve().await\<close>, so it is that chunk.
\<close>

record S3UploadWriter =
  w_bucket_name :: bytes
  w_key :: bytes
  sender :: bool
  buffer :: bytes
  chunk_size :: nat
  w_pending :: "bytes option"

record upload =
  writer :: S3UploadWriter
  state :: UploadWriterState
  channel :: "bytes list"

datatype reserve_answer = NoRoom | Permit | Closed

definition new_state :: "u64 \<Rightarrow> UploadWriterState" where
  "new_state content_length =
     \<lparr>st_content_length = content_length, accepted = 0, sent = 0, upload_ended = False,
      body_ended = False, body_started = False\<rparr>"

definition mark_upload_ended :: "UploadWriterState \<Rightarrow> UploadWriterState" where
  "mark_upload_ended st = st\<lparr>upload_ended := True\<rparr>"

definition mark_body_started :: "UploadWriterState \<Rightarrow> UploadWriterState" where
  "mark_body_started st = st\<lparr>body_started := True\<rparr>"

definition mark_body_ended :: "UploadWriterState \<Rightarrow> UploadWriterState" where
  "mark_body_ended st = st\<lparr>body_ended := True, body_started := True\<rparr>"

definition short_body_error :: "UploadWriterState \<Rightarrow> io_error option" where
  "short_body_error st =
     (let delivered = sent st in
      if delivered \<ge> st_content_length st then None
      else Some (IoMessage UnexpectedEof
        (''only '' @ u64_to_string delivered @ '' of the '' @ u64_to_string (st_content_length st)
         @ '' bytes declared for the upload body went out - the writer was dropped early or shutdown() was not called, or the source ended early'')))"

definition settle ::
  "UploadWriterState \<Rightarrow> (unit, S3Error) result \<Rightarrow> io_error option \<Rightarrow> (unit, S3Error) result"
where
  "settle st upload_result body_failure =
     (case (upload_result, body_failure) of
        (Inr _, None) \<Rightarrow> Inr ()
      | (Inr _, Some err) \<Rightarrow> Inl (UploadProducerFailed err)
      | (Inl err, None) \<Rightarrow> Inl err
      | (Inl s3_error, Some body_error) \<Rightarrow>
          if upload_ended st then Inl s3_error else Inl (UploadProducerFailed body_error))"

definition new_upload :: "bytes \<Rightarrow> bytes \<Rightarrow> u64 \<Rightarrow> nat \<Rightarrow> upload" where
  "new_upload bucket k len csize =
     \<lparr>writer = \<lparr>w_bucket_name = bucket, w_key = k, sender = True, buffer = [],
        chunk_size = max csize 1, w_pending = None\<rparr>,
      state = new_state len, channel = []\<rparr>"

definition bytes_written :: "upload \<Rightarrow> u64" where
  "bytes_written u = accepted (state u)"

abbreviation object_name :: "upload \<Rightarrow> bytes" where
  "object_name u \<equiv> w_bucket_name (writer u) @ ''/'' @ w_key (writer u)"

definition gone_error :: "upload \<Rightarrow> io_error" where
  "gone_error u =
     IoMessage BrokenPipe
       (''S3UploadWriter: the upload of '' @ object_name u
        @ '' has already ended - its own error says why'')"

definition upload_is_gone :: "upload \<Rightarrow> io_error \<times> upload" where
  "upload_is_gone u = (gone_error u, u\<lparr>state := (state u)\<lparr>upload_ended := True\<rparr>\<rparr>)"

definition already_shut_down :: "upload \<Rightarrow> io_error" where
  "already_shut_down u =
     IoMessage BrokenPipe
       (''S3UploadWriter: the body of '' @ object_name u
        @ '' was ended by shutdown() and cannot be written to again'')"

text \<open>
  One poll of the future that sends \<open>chunk\<close>: room first, then the count, then the chunk.
  \<open>Ready False\<close> is the closed channel.
\<close>

definition poll_send :: "(upload \<Rightarrow> reserve_answer) \<Rightarrow> bytes \<Rightarrow> upload \<Rightarrow> bool poll \<times> upload" where
  "poll_send reserve chunk u =
     (case reserve u of
        NoRoom \<Rightarrow> (Pending, u)
      | Closed \<Rightarrow> (Ready False, u)
      | Permit \<Rightarrow>
          (Ready True,
           u\<lparr>state := (state u)\<lparr>sent := sent (state u) + of_nat (length chunk)\<rparr>,
             channel := channel u @ [chunk]\<rparr>))"

text \<open>
  Polls a send and keeps it as \<open>pending\<close> when it has to wait: the last lines of both
  \<open>poll_pending\<close> and \<open>start_send\<close>.
\<close>

definition drive_send ::
  "(upload \<Rightarrow> reserve_answer) \<Rightarrow> bytes \<Rightarrow> upload \<Rightarrow> (unit, io_error) result poll \<times> upload"
where
  "drive_send reserve chunk u =
     (case poll_send reserve chunk u of
        (Pending, u') \<Rightarrow> (Pending, u'\<lparr>writer := (writer u')\<lparr>w_pending := Some chunk\<rparr>\<rparr>)
      | (Ready True, u') \<Rightarrow> (Ready (Inr ()), u')
      | (Ready False, u') \<Rightarrow> (let (e, u'') = upload_is_gone u' in (Ready (Inl e), u'')))"

definition poll_pending ::
  "(upload \<Rightarrow> reserve_answer) \<Rightarrow> upload \<Rightarrow> (unit, io_error) result poll \<times> upload"
where
  "poll_pending reserve u =
     (case w_pending (writer u) of
        None \<Rightarrow> (Ready (Inr ()), u)
      | Some chunk \<Rightarrow> drive_send reserve chunk (u\<lparr>writer := (writer u)\<lparr>w_pending := None\<rparr>\<rparr>))"

definition start_send ::
  "(upload \<Rightarrow> reserve_answer) \<Rightarrow> bytes \<Rightarrow> upload \<Rightarrow> (unit, io_error) result poll \<times> upload"
where
  "start_send reserve chunk u =
     (if \<not> sender (writer u) then (Ready (Inl (already_shut_down u)), u)
      else drive_send reserve chunk (u\<lparr>state := mark_body_started (state u)\<rparr>))"

definition past_the_end :: "upload \<Rightarrow> bytes \<Rightarrow> io_error" where
  "past_the_end u buf =
     IoMessage InvalidInput
       (''S3UploadWriter: '' @ object_name u @ '' was opened for ''
        @ u64_to_string (st_content_length (state u))
        @ '' bytes and all of them have been written - '' @ dec_of_nat (length buf)
        @ '' more were offered'')"

text \<open>
  The part of \<open>poll_write\<close> behind its refusals: take what fits into the chunk and into
  the declared length, count it, and send the chunk once it is full.
\<close>

definition take_bytes ::
  "(upload \<Rightarrow> reserve_answer) \<Rightarrow> bytes \<Rightarrow> upload \<Rightarrow> (nat, io_error) result poll \<times> upload"
where
  "take_bytes reserve buf u =
     (let owed = st_content_length (state u) - accepted (state u);
          room_in_chunk = chunk_size (writer u) - length (buffer (writer u));
          n = min (min (length buf) room_in_chunk) (unat owed);
          u1 = u\<lparr>writer := (writer u)\<lparr>buffer := buffer (writer u) @ take n buf\<rparr>,
                 state := (state u)\<lparr>accepted := accepted (state u) + of_nat n\<rparr>\<rparr>
      in if length (buffer (writer u1)) < chunk_size (writer u1) then (Ready (Inr n), u1)
         else
           (case start_send reserve (buffer (writer u1)) (u1\<lparr>writer := (writer u1)\<lparr>buffer := []\<rparr>\<rparr>) of
              (Ready (Inl err), u2) \<Rightarrow> (Ready (Inl err), u2)
            | (_, u2) \<Rightarrow> (Ready (Inr n), u2)))"

definition poll_write ::
  "(upload \<Rightarrow> reserve_answer) \<Rightarrow> bytes \<Rightarrow> upload \<Rightarrow> (nat, io_error) result poll \<times> upload"
where
  "poll_write reserve buf u =
     (case poll_pending reserve u of
        (Ready (Inl err), u0) \<Rightarrow> (Ready (Inl err), u0)
      | (Pending, u0) \<Rightarrow> (Pending, u0)
      | (Ready (Inr _), u0) \<Rightarrow>
          if buf = [] then (Ready (Inr 0), u0)
          else if \<not> sender (writer u0) then (Ready (Inl (already_shut_down u0)), u0)
          else if upload_ended (state u0) then
            (let (e, u1) = upload_is_gone u0 in (Ready (Inl e), u1))
          else if st_content_length (state u0) - accepted (state u0) = 0 then
            (Ready (Inl (past_the_end u0 buf)), u0)
          else take_bytes reserve buf u0)"

definition poll_flush ::
  "(upload \<Rightarrow> reserve_answer) \<Rightarrow> upload \<Rightarrow> (unit, io_error) result poll \<times> upload"
where
  "poll_flush reserve u =
     (case poll_pending reserve u of
        (Ready (Inl err), u0) \<Rightarrow> (Ready (Inl err), u0)
      | (Pending, u0) \<Rightarrow> (Pending, u0)
      | (Ready (Inr _), u0) \<Rightarrow>
          if upload_ended (state u0) then
            (let (e, u1) = upload_is_gone u0 in (Ready (Inl e), u1))
          else if buffer (writer u0) = [] then (Ready (Inr ()), u0)
          else if \<not> sender (writer u0) then (Ready (Inl (already_shut_down u0)), u0)
          else start_send reserve (buffer (writer u0)) (u0\<lparr>writer := (writer u0)\<lparr>buffer := []\<rparr>\<rparr>))"

definition poll_shutdown ::
  "(upload \<Rightarrow> reserve_answer) \<Rightarrow> upload \<Rightarrow> (unit, io_error) result poll \<times> upload"
where
  "poll_shutdown reserve u =
     (if \<not> sender (writer u) then (Ready (Inr ()), u)
      else case poll_flush reserve u of
             (Ready (Inl err), u0) \<Rightarrow> (Ready (Inl err), u0)
           | (Pending, u0) \<Rightarrow> (Pending, u0)
           | (Ready (Inr _), u0) \<Rightarrow>
               (Ready (Inr ()),
                u0\<lparr>state := mark_body_ended (state u0), writer := (writer u0)\<lparr>sender := False\<rparr>\<rparr>))"

text \<open>
  \<open>Drop\<close>: the end of the body is recorded, then the fields go, the buffer and a send in
  flight among them.
\<close>

definition drop_writer :: "upload \<Rightarrow> upload" where
  "drop_writer u =
     (let u' = (if sender (writer u) then u\<lparr>state := mark_body_ended (state u)\<rparr> else u) in
      u'\<lparr>writer := (writer u')\<lparr>sender := False, buffer := [], w_pending := None\<rparr>\<rparr>)"

text \<open>\<open>Debug\<close>: the buffer by its length only.\<close>

definition writer_debug :: "upload \<Rightarrow> debug_struct" where
  "writer_debug u =
     (''S3UploadWriter'',
      [(''bucket_name'', DebugStr (w_bucket_name (writer u))), (''key'', DebugStr (w_key (writer u))),
       (''content_length'', DebugNum (unat (st_content_length (state u)))),
       (''bytes_written'', DebugNum (unat (bytes_written u))),
       (''chunk_size'', DebugNum (chunk_size (writer u))),
       (''buffered'', DebugNum (length (buffer (writer u)))),
       (''send_in_flight'', DebugBool (w_pending (writer u) \<noteq> None)),
       (''body_ended'', DebugBool (\<not> sender (writer u)))])"

lemma writer_debug_hides_body:
  "length b = length (buffer (writer u)) \<Longrightarrow>
   writer_debug (u\<lparr>writer := (writer u)\<lparr>buffer := b\<rparr>, channel := c\<rparr>) = writer_debug u"
  by (simp add: writer_debug_def bytes_written_def)

section \<open>The writer's invariant\<close>

text \<open>
  What has been taken from the producer and not lost: what is in the channel, then the
  send in flight, then the buffer.
\<close>

definition held :: "upload \<Rightarrow> bytes" where
  "held u = (case w_pending (writer u) of None \<Rightarrow> [] | Some c \<Rightarrow> c) @ buffer (writer u)"

definition stream_of :: "upload \<Rightarrow> bytes" where
  "stream_of u = concat (channel u) @ held u"

definition chunk_ok :: "upload \<Rightarrow> bytes \<Rightarrow> bool" where
  "chunk_ok u c \<longleftrightarrow> c \<noteq> [] \<and> length c \<le> chunk_size (writer u)"

definition buffer_wf :: "upload \<Rightarrow> bool" where
  "buffer_wf u \<longleftrightarrow>
     length (buffer (writer u)) < chunk_size (writer u)
     \<and> (w_pending (writer u) \<noteq> None \<longrightarrow> buffer (writer u) = [])
     \<and> (\<forall>c. w_pending (writer u) = Some c \<longrightarrow> chunk_ok u c)
     \<and> (\<forall>c\<in>set (channel u). chunk_ok u c)"

definition counts_wf :: "upload \<Rightarrow> bool" where
  "counts_wf u \<longleftrightarrow>
     unat (accepted (state u)) \<le> unat (st_content_length (state u))
     \<and> unat (sent (state u)) = length (concat (channel u))
     \<and> length (stream_of u) \<le> unat (accepted (state u))
     \<and> (sender (writer u) \<and> \<not> upload_ended (state u) \<longrightarrow>
          length (stream_of u) = unat (accepted (state u)))"

definition flags_wf :: "upload \<Rightarrow> bool" where
  "flags_wf u \<longleftrightarrow>
     (body_ended (state u) \<longleftrightarrow> \<not> sender (writer u))
     \<and> (\<not> sender (writer u) \<longrightarrow> held u = [] \<and> w_pending (writer u) = None)
     \<and> (channel u \<noteq> [] \<or> w_pending (writer u) \<noteq> None \<or> body_ended (state u) \<longrightarrow>
          body_started (state u))"

definition upload_wf :: "upload \<Rightarrow> bool" where
  "upload_wf u \<longleftrightarrow> buffer_wf u \<and> counts_wf u \<and> flags_wf u"

lemmas upload_wf_defs =
  upload_wf_def buffer_wf_def counts_wf_def flags_wf_def stream_of_def held_def chunk_ok_def

text \<open>What no operation of the writer changes.\<close>

definition same_upload :: "upload \<Rightarrow> upload \<Rightarrow> bool" where
  "same_upload u u' \<longleftrightarrow>
     st_content_length (state u') = st_content_length (state u)
     \<and> chunk_size (writer u') = chunk_size (writer u)
     \<and> w_bucket_name (writer u') = w_bucket_name (writer u)
     \<and> w_key (writer u') = w_key (writer u)
     \<and> prefix (channel u) (channel u')"

lemma same_upload_refl [simp]: "same_upload u u"
  by (simp add: same_upload_def)

lemma same_upload_trans: "same_upload u v \<Longrightarrow> same_upload v w \<Longrightarrow> same_upload u w"
  by (auto simp: same_upload_def)

lemma new_upload_wf: "upload_wf (new_upload b k len csize)"
  by (simp add: upload_wf_defs new_upload_def new_state_def)

subsection \<open>The send in flight\<close>

lemma pending_update_id:
  fixes u :: upload
  shows "w_pending (writer u) = p \<Longrightarrow> u\<lparr>writer := (writer u)\<lparr>w_pending := p\<rparr>\<rparr> = u"
  by (cases u rule: upload.cases) auto

lemma gone_error_kind [simp]: "io_error_kind_of (gone_error u) = BrokenPipe"
  by (simp add: gone_error_def)

lemma already_shut_down_kind [simp]: "io_error_kind_of (already_shut_down u) = BrokenPipe"
  by (simp add: already_shut_down_def)

lemma past_the_end_kind [simp]: "io_error_kind_of (past_the_end u buf) = InvalidInput"
  by (simp add: past_the_end_def)

text \<open>Sending a chunk is polling an upload in which that chunk is already pending.\<close>

lemma drive_send_as_poll_pending:
  "w_pending (writer u) = None \<Longrightarrow>
   drive_send reserve c u = poll_pending reserve (u\<lparr>writer := (writer u)\<lparr>w_pending := Some c\<rparr>\<rparr>)"
  by (simp add: poll_pending_def pending_update_id)

lemma poll_pending_cases:
  obtains
    (idle) "w_pending (writer u) = None" "poll_pending reserve u = (Ready (Inr ()), u)"
  | (wait) c where "w_pending (writer u) = Some c" "poll_pending reserve u = (Pending, u)"
  | (passed) c where "w_pending (writer u) = Some c"
      "reserve (u\<lparr>writer := (writer u)\<lparr>w_pending := None\<rparr>\<rparr>) = Permit"
      "poll_pending reserve u =
         (Ready (Inr ()),
          u\<lparr>writer := (writer u)\<lparr>w_pending := None\<rparr>,
            state := (state u)\<lparr>sent := sent (state u) + of_nat (length c)\<rparr>,
            channel := channel u @ [c]\<rparr>)"
  | (gone) c where "w_pending (writer u) = Some c"
      "poll_pending reserve u =
         (Ready (Inl (gone_error u)),
          u\<lparr>writer := (writer u)\<lparr>w_pending := None\<rparr>,
            state := (state u)\<lparr>upload_ended := True\<rparr>\<rparr>)"
proof (cases "w_pending (writer u)")
  case None
  with idle show ?thesis by (simp add: poll_pending_def)
next
  case (Some c)
  let ?u = "u\<lparr>writer := (writer u)\<lparr>w_pending := None\<rparr>\<rparr>"
  have restored: "?u\<lparr>writer := (writer ?u)\<lparr>w_pending := Some c\<rparr>\<rparr> = u"
    using pending_update_id [OF Some] by simp
  show ?thesis
  proof (cases "reserve ?u")
    case NoRoom
    with Some restored wait show ?thesis
      by (simp add: poll_pending_def drive_send_def poll_send_def)
  next
    case Permit
    with Some passed show ?thesis
      by (simp add: poll_pending_def drive_send_def poll_send_def)
  next
    case Closed
    with Some gone show ?thesis
      by (simp add: poll_pending_def drive_send_def poll_send_def upload_is_gone_def gone_error_def)
  qed
qed

lemma poll_pending_Pending: "poll_pending reserve u = (Pending, u') \<Longrightarrow> u' = u"
  by (cases reserve u rule: poll_pending_cases) auto

lemma sent_chunk_count:
  assumes "upload_wf u" "w_pending (writer u) = Some c"
  shows "unat (sent (state u) + of_nat (length c)) = unat (sent (state u)) + length c"
proof (rule unat_add_of_nat)
  have "unat (sent (state u)) + length c \<le> unat (accepted (state u))"
    using assms by (auto simp: upload_wf_defs)
  then show "unat (sent (state u)) + length c < 2 ^ LENGTH(64)"
    using unat_u64_less [of "accepted (state u)"] by simp
qed

definition kept_by_send :: "upload \<Rightarrow> upload \<Rightarrow> bool" where
  "kept_by_send u u' \<longleftrightarrow>
     same_upload u u' \<and> accepted (state u') = accepted (state u)
     \<and> sender (writer u') = sender (writer u) \<and> buffer (writer u') = buffer (writer u)
     \<and> body_ended (state u') = body_ended (state u) \<and> body_started (state u') = body_started (state u)"

text \<open>The two states a finished send leaves behind: the chunk passed on, or lost.\<close>

definition chunk_passed :: "bytes \<Rightarrow> upload \<Rightarrow> upload" where
  "chunk_passed c u =
     u\<lparr>writer := (writer u)\<lparr>w_pending := None\<rparr>,
       state := (state u)\<lparr>sent := sent (state u) + of_nat (length c)\<rparr>,
       channel := channel u @ [c]\<rparr>"

definition chunk_lost :: "upload \<Rightarrow> upload" where
  "chunk_lost u =
     u\<lparr>writer := (writer u)\<lparr>w_pending := None\<rparr>, state := (state u)\<lparr>upload_ended := True\<rparr>\<rparr>"

lemma chunk_passed_wf:
  assumes "upload_wf u" "w_pending (writer u) = Some c"
  shows "upload_wf (chunk_passed c u)"
proof -
  have "stream_of (chunk_passed c u) = stream_of u"
    using assms(2) by (simp add: chunk_passed_def stream_of_def held_def)
  then have "counts_wf (chunk_passed c u)"
    using assms sent_chunk_count [OF assms]
    by (simp add: upload_wf_def counts_wf_def) (simp add: chunk_passed_def)
  moreover have "buffer_wf (chunk_passed c u)"
    using assms by (auto simp: upload_wf_def buffer_wf_def chunk_ok_def chunk_passed_def)
  moreover have "flags_wf (chunk_passed c u)"
    using assms by (auto simp: upload_wf_def flags_wf_def chunk_passed_def held_def)
  ultimately show ?thesis by (simp add: upload_wf_def)
qed

lemma chunk_lost_wf:
  assumes "upload_wf u" "w_pending (writer u) = Some c"
  shows "upload_wf (chunk_lost u)"
proof -
  have "stream_of (chunk_lost u) = concat (channel u)"
    using assms by (simp add: chunk_lost_def stream_of_def held_def upload_wf_def buffer_wf_def)
  then have "counts_wf (chunk_lost u)"
    using assms by (simp add: upload_wf_def counts_wf_def chunk_lost_def stream_of_def)
  moreover have "buffer_wf (chunk_lost u)"
    using assms by (auto simp: upload_wf_def buffer_wf_def chunk_ok_def chunk_lost_def)
  moreover have "flags_wf (chunk_lost u)"
    using assms by (auto simp: upload_wf_def flags_wf_def chunk_lost_def held_def)
  ultimately show ?thesis by (simp add: upload_wf_def)
qed

lemma poll_pending_kept: "poll_pending reserve u = (r, u') \<Longrightarrow> kept_by_send u u'"
  by (cases reserve u rule: poll_pending_cases) (auto simp: kept_by_send_def same_upload_def)

lemma poll_pending_ok:
  assumes "upload_wf u" "poll_pending reserve u = (Ready (Inr x), u')"
  shows "upload_wf u'" "kept_by_send u u'" "stream_of u' = stream_of u"
    "w_pending (writer u') = None" "upload_ended (state u') = upload_ended (state u)"
proof -
  consider "u' = u" "w_pending (writer u) = None"
    | c where "w_pending (writer u) = Some c" "u' = chunk_passed c u"
    using assms(2) by (cases reserve u rule: poll_pending_cases) (auto simp: chunk_passed_def)
  note split_cases = this
  show "upload_wf u'"
    by (cases rule: split_cases) (simp_all add: assms(1) chunk_passed_wf)
  show "kept_by_send u u'"
    by (cases rule: split_cases) (simp_all add: kept_by_send_def same_upload_def chunk_passed_def)
  show "stream_of u' = stream_of u"
    by (cases rule: split_cases) (simp_all add: stream_of_def held_def chunk_passed_def)
  show "w_pending (writer u') = None" "upload_ended (state u') = upload_ended (state u)"
    by (cases rule: split_cases; simp add: chunk_passed_def)+
qed

lemma poll_pending_err:
  assumes "upload_wf u" "poll_pending reserve u = (Ready (Inl e), u')"
  shows "upload_wf u'" "kept_by_send u u'" "prefix (stream_of u') (stream_of u)"
    "upload_ended (state u')" "e = gone_error u" "held u' = []" "channel u' = channel u"
proof -
  obtain c where c: "w_pending (writer u) = Some c" "u' = chunk_lost u" "e = gone_error u"
    using assms(2) by (cases reserve u rule: poll_pending_cases) (auto simp: chunk_lost_def)
  have b: "buffer (writer u) = []"
    using assms(1) c(1) by (simp add: upload_wf_def buffer_wf_def)
  show "upload_wf u'" using assms(1) c by (simp add: chunk_lost_wf)
  show "kept_by_send u u'" using c by (simp add: kept_by_send_def same_upload_def chunk_lost_def)
  show "prefix (stream_of u') (stream_of u)"
    using c b by (simp add: stream_of_def held_def chunk_lost_def)
  show "upload_ended (state u')" "e = gone_error u" "held u' = []" "channel u' = channel u"
    using c b by (simp_all add: chunk_lost_def held_def)
qed

lemma poll_pending_alive:
  assumes "upload_wf u" "poll_pending reserve u = (r, u')" "r = Pending \<or> r = Ready (Inr ())"
  shows "upload_wf u' \<and> stream_of u' = stream_of u \<and> upload_ended (state u') = upload_ended (state u)"
  using assms(3)
proof
  assume "r = Pending"
  with assms(1,2) poll_pending_Pending [of reserve u u'] show ?thesis by simp
next
  assume "r = Ready (Inr ())"
  with poll_pending_ok [OF assms(1), of reserve "()" u'] assms(2) show ?thesis by simp
qed

subsection \<open>Handing the buffer over\<close>

text \<open>The upload in which the whole buffer has become the send in flight.\<close>

definition load :: "upload \<Rightarrow> upload" where
  "load u = u\<lparr>state := mark_body_started (state u),
              writer := (writer u)\<lparr>buffer := [], w_pending := Some (buffer (writer u))\<rparr>\<rparr>"

text \<open>The invariant, but for a buffer that may have become full.\<close>

definition full_wf :: "upload \<Rightarrow> bool" where
  "full_wf u \<longleftrightarrow>
     length (buffer (writer u)) \<le> chunk_size (writer u) \<and> 0 < chunk_size (writer u)
     \<and> w_pending (writer u) = None \<and> (\<forall>c\<in>set (channel u). chunk_ok u c)
     \<and> counts_wf u \<and> flags_wf u \<and> sender (writer u)"

lemma upload_wf_full: "upload_wf u \<Longrightarrow> w_pending (writer u) = None \<Longrightarrow> sender (writer u) \<Longrightarrow> full_wf u"
  by (auto simp: full_wf_def upload_wf_def buffer_wf_def)

lemma full_wf_upload:
  "full_wf u \<Longrightarrow> length (buffer (writer u)) < chunk_size (writer u) \<Longrightarrow> upload_wf u"
  by (auto simp: full_wf_def upload_wf_def buffer_wf_def)

lemma start_send_load:
  "full_wf u \<Longrightarrow>
   start_send reserve (buffer (writer u)) (u\<lparr>writer := (writer u)\<lparr>buffer := []\<rparr>\<rparr>)
   = poll_pending reserve (load u)"
  by (simp add: full_wf_def start_send_def drive_send_as_poll_pending load_def)

lemma load_sel [simp]:
  "accepted (state (load u)) = accepted (state u)"
  "sender (writer (load u)) = sender (writer u)"
  "buffer (writer (load u)) = []"
  "w_pending (writer (load u)) = Some (buffer (writer u))"
  "upload_ended (state (load u)) = upload_ended (state u)"
  "body_ended (state (load u)) = body_ended (state u)"
  "st_content_length (state (load u)) = st_content_length (state u)"
  "channel (load u) = channel u"
  by (simp_all add: load_def mark_body_started_def)

lemma load_wf:
  assumes "full_wf u" "buffer (writer u) \<noteq> []"
  shows "upload_wf (load u)" "stream_of (load u) = stream_of u" "same_upload u (load u)"
proof -
  show eq: "stream_of (load u) = stream_of u"
    using assms(1) by (simp add: stream_of_def held_def full_wf_def)
  have "counts_wf (load u)"
    using assms(1) by (simp add: full_wf_def counts_wf_def eq) (simp add: load_def mark_body_started_def)
  moreover have "buffer_wf (load u)"
    using assms by (auto simp: full_wf_def buffer_wf_def chunk_ok_def load_def)
  moreover have "flags_wf (load u)"
    using assms(1) by (simp add: full_wf_def flags_wf_def) (simp add: load_def mark_body_started_def)
  ultimately show "upload_wf (load u)" by (simp add: upload_wf_def)
  show "same_upload u (load u)"
    by (simp add: same_upload_def) (simp add: load_def)
qed

subsection \<open>Taking bytes from the producer\<close>

definition take_amount :: "bytes \<Rightarrow> upload \<Rightarrow> nat" where
  "take_amount buf u =
     min (min (length buf) (chunk_size (writer u) - length (buffer (writer u))))
         (unat (st_content_length (state u) - accepted (state u)))"

definition absorb :: "bytes \<Rightarrow> upload \<Rightarrow> upload" where
  "absorb bs u =
     u\<lparr>writer := (writer u)\<lparr>buffer := buffer (writer u) @ bs\<rparr>,
       state := (state u)\<lparr>accepted := accepted (state u) + of_nat (length bs)\<rparr>\<rparr>"

lemma absorb_sel [simp]:
  "buffer (writer (absorb bs u)) = buffer (writer u) @ bs"
  "chunk_size (writer (absorb bs u)) = chunk_size (writer u)"
  "w_pending (writer (absorb bs u)) = w_pending (writer u)"
  "sender (writer (absorb bs u)) = sender (writer u)"
  "channel (absorb bs u) = channel u"
  "st_content_length (state (absorb bs u)) = st_content_length (state u)"
  "upload_ended (state (absorb bs u)) = upload_ended (state u)"
  "body_ended (state (absorb bs u)) = body_ended (state u)"
  "body_started (state (absorb bs u)) = body_started (state u)"
  "sent (state (absorb bs u)) = sent (state u)"
  "accepted (state (absorb bs u)) = accepted (state u) + of_nat (length bs)"
  "same_upload u (absorb bs u)"
  by (simp_all add: absorb_def same_upload_def)

lemma take_bytes_eq:
  "take_bytes reserve buf u =
     (let n = take_amount buf u; u1 = absorb (take n buf) u in
      if length (buffer (writer u1)) < chunk_size (writer u1) then (Ready (Inr n), u1)
      else
        (case start_send reserve (buffer (writer u1)) (u1\<lparr>writer := (writer u1)\<lparr>buffer := []\<rparr>\<rparr>) of
           (Ready (Inl err), u2) \<Rightarrow> (Ready (Inl err), u2)
         | (_, u2) \<Rightarrow> (Ready (Inr n), u2)))"
  by (simp add: take_bytes_def take_amount_def absorb_def Let_def min_def)

lemma owed_unat:
  "counts_wf u \<Longrightarrow>
   unat (st_content_length (state u) - accepted (state u))
   = unat (st_content_length (state u)) - unat (accepted (state u))"
  by (simp add: counts_wf_def unat_sub_no_wrap)

lemma accepted_count:
  assumes "counts_wf u" "n \<le> unat (st_content_length (state u) - accepted (state u))"
  shows "unat (accepted (state u) + of_nat n) = unat (accepted (state u)) + n"
    "unat (accepted (state u)) + n \<le> unat (st_content_length (state u))"
proof -
  show le: "unat (accepted (state u)) + n \<le> unat (st_content_length (state u))"
    using assms owed_unat [OF assms(1)] unfolding counts_wf_def by linarith
  show "unat (accepted (state u) + of_nat n) = unat (accepted (state u)) + n"
    using le unat_u64_less [of "st_content_length (state u)"] by (simp add: unat_add_of_nat)
qed

lemma stream_of_absorb: "w_pending (writer u) = None \<Longrightarrow> stream_of (absorb bs u) = stream_of u @ bs"
  by (simp add: stream_of_def held_def)

lemma absorb_full_wf:
  assumes wf: "full_wf u" and open_: "\<not> upload_ended (state u)"
    and room: "length (buffer (writer u)) + length bs \<le> chunk_size (writer u)"
    and owed: "length bs \<le> unat (st_content_length (state u) - accepted (state u))"
  shows "full_wf (absorb bs u)"
proof -
  have c: "counts_wf u" using wf by (simp add: full_wf_def)
  have "counts_wf (absorb bs u)"
    using c open_ wf accepted_count [OF c owed]
    by (simp add: counts_wf_def stream_of_absorb full_wf_def)
  moreover have "flags_wf (absorb bs u)"
    using wf by (simp add: full_wf_def flags_wf_def)
  ultimately show ?thesis
    using wf room by (simp add: full_wf_def chunk_ok_def)
qed

lemma take_amount_bounds:
  "take_amount buf u \<le> length buf"
  "take_amount buf u \<le> unat (st_content_length (state u) - accepted (state u))"
  "length (buffer (writer u)) \<le> chunk_size (writer u) \<Longrightarrow>
     length (buffer (writer u)) + take_amount buf u \<le> chunk_size (writer u)"
  by (simp_all add: take_amount_def)

lemma take_amount_pos:
  assumes "upload_wf u" "buf \<noteq> []" "st_content_length (state u) - accepted (state u) \<noteq> 0"
  shows "0 < take_amount buf u"
proof -
  have "0 < unat (st_content_length (state u) - accepted (state u))"
    using assms(3) by (metis gr0I unat_eq_zero)
  moreover have "length (buffer (writer u)) < chunk_size (writer u)"
    using assms(1) by (simp add: upload_wf_def buffer_wf_def)
  ultimately show ?thesis using assms(2) by (simp add: take_amount_def)
qed

text \<open>What one call of \<open>take_bytes\<close> leaves behind, on its three ways out.\<close>

lemma take_bytes_cases:
  fixes buf :: bytes and u :: upload
  assumes wf: "full_wf u" and open_: "\<not> upload_ended (state u)"
  defines "n \<equiv> take_amount buf u"
  defines "u1 \<equiv> absorb (take n buf) u"
  obtains
    (buffered) "take_bytes reserve buf u = (Ready (Inr n), u1)" "upload_wf u1"
  | (handed) r u2 where "take_bytes reserve buf u = (Ready (Inr n), u2)"
      "poll_pending reserve (load u1) = (r, u2)" "r = Pending \<or> r = Ready (Inr ())"
      "full_wf u1" "length (buffer (writer u1)) = chunk_size (writer u1)"
  | (gone) e u2 where "take_bytes reserve buf u = (Ready (Inl e), u2)"
      "poll_pending reserve (load u1) = (Ready (Inl e), u2)"
      "full_wf u1" "length (buffer (writer u1)) = chunk_size (writer u1)"
proof -
  have len: "length (take n buf) = n"
    using take_amount_bounds(1) [of buf u] by (simp add: n_def)
  have wf1: "full_wf u1"
    unfolding u1_def
  proof (rule absorb_full_wf [OF wf open_])
    show "length (buffer (writer u)) + length (take n buf) \<le> chunk_size (writer u)"
      using wf take_amount_bounds(3) [of u buf] by (simp add: len) (simp add: n_def full_wf_def)
    show "length (take n buf) \<le> unat (st_content_length (state u) - accepted (state u))"
      using take_amount_bounds(2) [of buf u] by (simp add: len) (simp add: n_def)
  qed
  note eq = take_bytes_eq [of reserve buf u, folded n_def, unfolded Let_def, folded u1_def]
  show ?thesis
  proof (cases "length (buffer (writer u1)) < chunk_size (writer u1)")
    case True
    then show ?thesis
      using eq wf1 buffered by (simp add: full_wf_upload)
  next
    case False
    then have full: "length (buffer (writer u1)) = chunk_size (writer u1)"
      using wf1 by (simp add: full_wf_def)
    obtain r u2 where p: "poll_pending reserve (load u1) = (r, u2)"
      by (cases "poll_pending reserve (load u1)")
    note eq' = eq [unfolded start_send_load [OF wf1] p]
    show ?thesis
    proof (cases "\<exists>e. r = Ready (Inl e)")
      case True
      with p eq' False full wf1 gone show ?thesis by auto
    next
      case neither: False
      then have r: "r = Pending \<or> r = Ready (Inr ())"
        by (metis old.sum.exhaust old.unit.exhaust poll.exhaust)
      with eq' False have "take_bytes reserve buf u = (Ready (Inr n), u2)" by auto
      from this p r wf1 full show ?thesis by (rule handed)
    qed
  qed
qed

subsection \<open>poll\_write\<close>

text \<open>What every operation but \<open>shutdown\<close> and \<open>drop\<close> leaves alone.\<close>

definition open_as_before :: "upload \<Rightarrow> upload \<Rightarrow> bool" where
  "open_as_before u u' \<longleftrightarrow>
     same_upload u u' \<and> sender (writer u') = sender (writer u)
     \<and> body_ended (state u') = body_ended (state u)"

lemma kept_open_as_before: "kept_by_send u u' \<Longrightarrow> open_as_before u u'"
  by (simp add: kept_by_send_def open_as_before_def)

lemma open_as_before_refl [simp]: "open_as_before u u"
  by (simp add: open_as_before_def)

lemma open_as_before_trans: "open_as_before u v \<Longrightarrow> open_as_before v w \<Longrightarrow> open_as_before u w"
  by (auto simp: open_as_before_def intro: same_upload_trans)

lemma open_as_before_absorb: "open_as_before u (absorb bs u)"
  by (simp add: open_as_before_def)

lemma open_as_before_load: "full_wf u \<Longrightarrow> buffer (writer u) \<noteq> [] \<Longrightarrow> open_as_before u (load u)"
  by (simp add: open_as_before_def load_wf)

definition took :: "nat \<Rightarrow> upload \<Rightarrow> upload \<Rightarrow> bool" where
  "took n u u' \<longleftrightarrow>
     unat (accepted (state u')) = unat (accepted (state u)) + n \<and> open_as_before u u'"

lemma took_take_amount:
  assumes "full_wf u" "\<not> upload_ended (state u)" "take_bytes reserve buf u = (r, u')"
  shows "took (take_amount buf u) u u'"
proof -
  let ?u1 = "absorb (take (take_amount buf u) buf) u"
  have c: "counts_wf u" using assms(1) by (simp add: full_wf_def)
  have len: "length (take (take_amount buf u) buf) = take_amount buf u"
    using take_amount_bounds(1) [of buf u] by simp
  have acc: "unat (accepted (state ?u1)) = unat (accepted (state u)) + take_amount buf u"
    by (simp only: absorb_sel len accepted_count(1) [OF c take_amount_bounds(2)])
  have via_load: "took (take_amount buf u) u u2"
    if p: "poll_pending reserve (load ?u1) = (q, u2)" and wf1: "full_wf ?u1"
      and full: "length (buffer (writer ?u1)) = chunk_size (writer ?u1)" for q u2
  proof -
    have ne: "buffer (writer ?u1) \<noteq> []"
      using wf1 full by (metis full_wf_def length_0_conv less_numeral_extra(3))
    have k: "kept_by_send (load ?u1) u2" by (rule poll_pending_kept [OF p])
    then have "accepted (state u2) = accepted (state ?u1)" by (simp add: kept_by_send_def)
    moreover have "open_as_before u u2"
      using open_as_before_absorb open_as_before_load [OF wf1 ne] kept_open_as_before [OF k]
      by (blast intro: open_as_before_trans)
    ultimately show ?thesis using acc by (simp only: took_def)
  qed
  have "took (take_amount buf u) u ?u1"
    by (simp only: took_def acc open_as_before_absorb)
  then show ?thesis
    using assms(3)
    by (cases reserve buf rule: take_bytes_cases [OF assms(1,2)]) (auto dest!: via_load)
qed

lemma poll_write_Pending: "poll_write reserve buf u = (Pending, u') \<Longrightarrow> u' = u"
  by (auto simp: poll_write_def take_bytes_def upload_is_gone_def Let_def
      split: prod.splits poll.splits sum.splits if_splits dest: poll_pending_Pending)

text \<open>The refusals of \<open>poll_write\<close>, once no send is in flight any more.\<close>

lemma poll_write_refused:
  assumes wf: "upload_wf u" and p: "poll_pending reserve u = (Ready (Inr ()), u0)"
    and closed: "\<not> (buf \<noteq> [] \<and> sender (writer u0) \<and> \<not> upload_ended (state u0)
      \<and> st_content_length (state u0) - accepted (state u0) \<noteq> 0)"
  obtains r where "poll_write reserve buf u = (Ready r, u0)"
    "(buf = [] \<and> r = Inr 0)
     \<or> (buf \<noteq> [] \<and> \<not> sender (writer u) \<and> r = Inl (already_shut_down u0))
     \<or> (buf \<noteq> [] \<and> sender (writer u) \<and> upload_ended (state u) \<and> r = Inl (gone_error u0))
     \<or> (buf \<noteq> [] \<and> sender (writer u) \<and> \<not> upload_ended (state u)
        \<and> accepted (state u) = st_content_length (state u) \<and> r = Inl (past_the_end u0 buf))"
proof -
  note ok = poll_pending_ok [OF wf p]
  have kept: "sender (writer u0) = sender (writer u)"
    "st_content_length (state u0) = st_content_length (state u)"
    "accepted (state u0) = accepted (state u)"
    using ok(2) by (simp_all add: kept_by_send_def same_upload_def)
  note simps = poll_write_def p kept [symmetric] ok(5) [symmetric] upload_is_gone_def
  consider (empty) "buf = []" | (shut) "buf \<noteq> []" "\<not> sender (writer u0)"
    | (over) "buf \<noteq> []" "sender (writer u0)" "upload_ended (state u0)"
    | (full) "buf \<noteq> []" "sender (writer u0)" "\<not> upload_ended (state u0)"
        "st_content_length (state u0) = accepted (state u0)"
    using closed by auto
  then show ?thesis
  proof cases
    case empty
    show ?thesis by (rule that [of "Inr 0"]) (simp_all add: poll_write_def p empty)
  next
    case shut
    show ?thesis by (rule that [of "Inl (already_shut_down u0)"]) (simp_all add: simps shut)
  next
    case over
    show ?thesis by (rule that [of "Inl (gone_error u0)"]) (simp_all add: simps over)
  next
    case full
    show ?thesis by (rule that [of "Inl (past_the_end u0 buf)"]) (simp_all add: simps full)
  qed
qed

text \<open>Where \<open>poll_write\<close> gets to once no send is in flight any more.\<close>

lemma poll_write_cases:
  assumes wf: "upload_wf u"
  obtains
    (wait) "poll_write reserve buf u = (Pending, u)" "poll_pending reserve u = (Pending, u)"
  | (lost) u0 where "poll_write reserve buf u = (Ready (Inl (gone_error u)), u0)"
      "poll_pending reserve u = (Ready (Inl (gone_error u)), u0)"
  | (refused) u0 r where "poll_pending reserve u = (Ready (Inr ()), u0)"
      "poll_write reserve buf u = (Ready r, u0)"
      "(buf = [] \<and> r = Inr 0)
       \<or> (buf \<noteq> [] \<and> \<not> sender (writer u) \<and> r = Inl (already_shut_down u0))
       \<or> (buf \<noteq> [] \<and> sender (writer u) \<and> upload_ended (state u) \<and> r = Inl (gone_error u0))
       \<or> (buf \<noteq> [] \<and> sender (writer u) \<and> \<not> upload_ended (state u)
          \<and> accepted (state u) = st_content_length (state u) \<and> r = Inl (past_the_end u0 buf))"
  | (takes) u0 where "poll_pending reserve u = (Ready (Inr ()), u0)"
      "poll_write reserve buf u = take_bytes reserve buf u0"
      "buf \<noteq> []" "full_wf u0" "\<not> upload_ended (state u0)"
      "st_content_length (state u0) - accepted (state u0) \<noteq> 0"
proof -
  obtain r0 u0 where p: "poll_pending reserve u = (r0, u0)"
    by (cases "poll_pending reserve u")
  show ?thesis
  proof (cases r0)
    case Pending
    with p show ?thesis
      using wait poll_pending_Pending [of reserve u u0] by (simp add: poll_write_def)
  next
    case (Ready q)
    show ?thesis
    proof (cases q)
      case (Inl e)
      with Ready p show ?thesis
        using lost poll_pending_err(5) [OF wf, of reserve e u0] by (simp add: poll_write_def)
    next
      case (Inr x)
      have p': "poll_pending reserve u = (Ready (Inr ()), u0)" using p Ready Inr by simp
      show ?thesis
      proof (cases "buf \<noteq> [] \<and> sender (writer u0) \<and> \<not> upload_ended (state u0)
          \<and> st_content_length (state u0) - accepted (state u0) \<noteq> 0")
        case True
        then show ?thesis
          using takes [OF p'] poll_pending_ok [OF wf p'] p' by (simp add: poll_write_def upload_wf_full)
      next
        case False
        show ?thesis by (rule poll_write_refused [OF wf p' False]) (rule refused [OF p'])
      qed
    qed
  qed
qed

lemma take_bytes_ok:
  assumes wf: "full_wf u" and open_: "\<not> upload_ended (state u)"
    and res: "take_bytes reserve buf u = (Ready (Inr n), u')"
  shows "n = take_amount buf u" "upload_wf u'" "stream_of u' = stream_of u @ take n buf"
    "\<not> upload_ended (state u')"
proof -
  let ?u1 = "absorb (take (take_amount buf u) buf) u"
  have none: "w_pending (writer u) = None" using wf by (simp add: full_wf_def)
  have "n = take_amount buf u \<and> upload_wf u' \<and> stream_of u' = stream_of u @ take n buf
    \<and> \<not> upload_ended (state u')"
  proof (cases reserve buf rule: take_bytes_cases [OF wf open_])
    case 1
    then show ?thesis using res open_ none by (simp add: stream_of_absorb)
  next
    case (2 r u2)
    then have eq: "n = take_amount buf u" "u2 = u'" using res by auto
    have ne: "buffer (writer ?u1) \<noteq> []"
      using 2(4,5) by (metis full_wf_def length_0_conv less_numeral_extra(3))
    note l = load_wf [OF 2(4) ne]
    have "upload_wf u' \<and> stream_of u' = stream_of (load ?u1)
      \<and> upload_ended (state u') = upload_ended (state (load ?u1))"
      using poll_pending_alive [OF l(1) 2(2,3)] eq(2) by blast
    then show ?thesis using eq l(2) open_ none by (simp add: stream_of_absorb)
  next
    case (3 e u2)
    then show ?thesis using res by simp
  qed
  then show "n = take_amount buf u" "upload_wf u'" "stream_of u' = stream_of u @ take n buf"
    "\<not> upload_ended (state u')" by auto
qed

lemma take_bytes_err:
  assumes wf: "full_wf u" and open_: "\<not> upload_ended (state u)"
    and res: "take_bytes reserve buf u = (Ready (Inl e), u')"
  shows "upload_wf u'" "upload_ended (state u')" "prefix (stream_of u') (stream_of u)"
    "io_error_kind_of e = BrokenPipe" "held u' = []"
proof -
  let ?u1 = "absorb (take (take_amount buf u) buf) u"
  have none: "w_pending (writer u) = None" using wf by (simp add: full_wf_def)
  have "upload_wf u' \<and> upload_ended (state u') \<and> prefix (stream_of u') (stream_of u)
    \<and> io_error_kind_of e = BrokenPipe \<and> held u' = []"
  proof (cases reserve buf rule: take_bytes_cases [OF wf open_])
    case (3 e2 u2)
    then have eq: "e2 = e" "u2 = u'" using res by auto
    have ne: "buffer (writer ?u1) \<noteq> []"
      using 3(3,4) by (metis full_wf_def length_0_conv less_numeral_extra(3))
    note l = load_wf [OF 3(3) ne]
    note err = poll_pending_err [OF l(1) 3(2) [unfolded eq]]
    have "stream_of u' = concat (channel u)"
      using err(6,7) by (simp add: stream_of_def)
    then have "prefix (stream_of u') (stream_of u)" by (simp add: stream_of_def)
    then show ?thesis using err by simp
  qed (use res in auto)
  then show "upload_wf u'" "upload_ended (state u')" "prefix (stream_of u') (stream_of u)"
    "io_error_kind_of e = BrokenPipe" "held u' = []" by auto
qed


lemma poll_write_ok:
  assumes wf: "upload_wf u" and res: "poll_write reserve buf u = (Ready (Inr n), u')"
  shows "upload_wf u'" "stream_of u' = stream_of u @ take n buf" "took n u u'"
    "n \<le> length buf" "buf \<noteq> [] \<Longrightarrow> 0 < n"
    "upload_ended (state u') = upload_ended (state u)"
    "0 < n \<Longrightarrow> sender (writer u) \<and> \<not> upload_ended (state u)"
proof -
  have "upload_wf u' \<and> stream_of u' = stream_of u @ take n buf \<and> took n u u'
    \<and> n \<le> length buf \<and> (buf \<noteq> [] \<longrightarrow> 0 < n) \<and> upload_ended (state u') = upload_ended (state u)
    \<and> (0 < n \<longrightarrow> sender (writer u) \<and> \<not> upload_ended (state u))"
  proof (cases rule: poll_write_cases [OF wf, where reserve = reserve and buf = buf])
    case (3 u0 r)
    then have eq: "u0 = u'" "buf = []" "n = 0" using res by auto
    note ok = poll_pending_ok [OF wf 3(1) [unfolded eq]]
    then show ?thesis
      using eq kept_open_as_before [OF ok(2)] by (simp add: took_def kept_by_send_def)
  next
    case (4 u0)
    note ok = poll_pending_ok [OF wf 4(1)]
    note t = take_bytes_ok [OF 4(4,5) 4(2) [symmetric, unfolded res]]
    have "took n u0 u'"
      using took_take_amount [OF 4(4,5) 4(2) [symmetric, unfolded res]] t(1) by simp
    then have "took n u u'"
      using ok(2) kept_open_as_before [OF ok(2)]
      by (auto simp: took_def kept_by_send_def intro: open_as_before_trans)
    moreover have "0 < n" "n \<le> length buf"
      using t(1) take_amount_pos [OF ok(1) 4(3,6)] take_amount_bounds(1) by simp_all
    moreover have "sender (writer u)"
      using 4(4) ok(2) by (simp add: full_wf_def kept_by_send_def)
    ultimately show ?thesis using t ok 4(5) by simp
  qed (use res in auto)
  then show "upload_wf u'" "stream_of u' = stream_of u @ take n buf" "took n u u'"
    "n \<le> length buf" "buf \<noteq> [] \<Longrightarrow> 0 < n"
    "upload_ended (state u') = upload_ended (state u)"
    "0 < n \<Longrightarrow> sender (writer u) \<and> \<not> upload_ended (state u)" by auto
qed

lemma poll_write_err:
  assumes wf: "upload_wf u" and res: "poll_write reserve buf u = (Ready (Inl e), u')"
  shows "upload_wf u'" "open_as_before u u'" "prefix (stream_of u') (stream_of u)"
    "\<not> upload_ended (state u') \<Longrightarrow> stream_of u' = stream_of u"
    "upload_ended (state u) \<Longrightarrow> upload_ended (state u')"
proof -
  have "upload_wf u' \<and> open_as_before u u' \<and> prefix (stream_of u') (stream_of u)
    \<and> (\<not> upload_ended (state u') \<longrightarrow> stream_of u' = stream_of u)
    \<and> (upload_ended (state u) \<longrightarrow> upload_ended (state u'))"
  proof (cases rule: poll_write_cases [OF wf, where reserve = reserve and buf = buf])
    case (2 u0)
    then have eq: "u0 = u'" using res by auto
    note err = poll_pending_err [OF wf 2(2) [unfolded eq]]
    then show ?thesis
      using kept_open_as_before [OF err(2)] by (simp add: prefix_append)
  next
    case (3 u0 r)
    then have eq: "u0 = u'" using res by auto
    note ok = poll_pending_ok [OF wf 3(1) [unfolded eq]]
    then show ?thesis using kept_open_as_before [OF ok(2)] by simp
  next
    case (4 u0)
    note ok = poll_pending_ok [OF wf 4(1)]
    note t = take_bytes_err [OF 4(4,5) 4(2) [symmetric, unfolded res]]
    have "open_as_before u0 u'"
      using took_take_amount [OF 4(4,5) 4(2) [symmetric, unfolded res]] by (simp add: took_def)
    then have "open_as_before u u'"
      using kept_open_as_before [OF ok(2)] by (blast intro: open_as_before_trans)
    then show ?thesis using t ok by simp
  qed (use res in auto)
  then show "upload_wf u'" "open_as_before u u'" "prefix (stream_of u') (stream_of u)"
    "\<not> upload_ended (state u') \<Longrightarrow> stream_of u' = stream_of u"
    "upload_ended (state u) \<Longrightarrow> upload_ended (state u')" by auto
qed

subsection \<open>poll\_flush, poll\_shutdown and drop\<close>

text \<open>A flush is nothing but sends: the one in flight, then the buffer.\<close>

lemma poll_flush_cases:
  assumes wf: "upload_wf u"
  obtains
    (wait) "poll_flush reserve u = (Pending, u)" "poll_pending reserve u = (Pending, u)"
  | (lost) u0 where "poll_flush reserve u = (Ready (Inl (gone_error u)), u0)"
      "poll_pending reserve u = (Ready (Inl (gone_error u)), u0)"
  | (over) u0 where "poll_flush reserve u = (Ready (Inl (gone_error u0)), u0)"
      "poll_pending reserve u = (Ready (Inr ()), u0)" "upload_ended (state u0)"
  | (empty) u0 where "poll_flush reserve u = (Ready (Inr ()), u0)"
      "poll_pending reserve u = (Ready (Inr ()), u0)" "buffer (writer u0) = []"
      "\<not> upload_ended (state u0)"
  | (send) u0 where "poll_flush reserve u = poll_pending reserve (load u0)"
      "poll_pending reserve u = (Ready (Inr ()), u0)" "full_wf u0" "buffer (writer u0) \<noteq> []"
      "\<not> upload_ended (state u0)"
proof -
  obtain r0 u0 where p: "poll_pending reserve u = (r0, u0)"
    by (cases "poll_pending reserve u")
  consider "r0 = Pending" | e where "r0 = Ready (Inl e)" | "r0 = Ready (Inr ())"
    by (metis old.sum.exhaust old.unit.exhaust poll.exhaust)
  then show ?thesis
  proof cases
    case 1
    with p show ?thesis
      using wait poll_pending_Pending [of reserve u u0] by (simp add: poll_flush_def)
  next
    case (2 e)
    with p show ?thesis
      using lost poll_pending_err(5) [OF wf, of reserve e u0] by (simp add: poll_flush_def)
  next
    case 3
    note p' = p [unfolded 3]
    note ok = poll_pending_ok [OF wf p']
    have held: "sender (writer u0)" if "buffer (writer u0) \<noteq> []"
      using ok(1) that by (auto simp: upload_wf_def flags_wf_def held_def)
    show ?thesis
    proof (cases "upload_ended (state u0)")
      case True
      then show ?thesis
        using over [OF _ p'] by (simp add: poll_flush_def p' upload_is_gone_def)
    next
      case open_: False
      show ?thesis
      proof (cases "buffer (writer u0) = []")
        case True
        then show ?thesis using empty [OF _ p'] open_ by (simp add: poll_flush_def p')
      next
        case False
        then have "full_wf u0" using upload_wf_full [OF ok(1,4)] held by simp
        then show ?thesis
          using send [OF _ p'] False open_ held by (simp add: poll_flush_def p' start_send_load)
      qed
    qed
  qed
qed


text \<open>What a flush keeps: the count and everything that does not depend on the buffer.\<close>

definition kept_by_flush :: "upload \<Rightarrow> upload \<Rightarrow> bool" where
  "kept_by_flush u u' \<longleftrightarrow> open_as_before u u' \<and> accepted (state u') = accepted (state u)"

lemma kept_by_flush_refl [simp]: "kept_by_flush u u"
  by (simp add: kept_by_flush_def)

lemma kept_by_flush_trans: "kept_by_flush u v \<Longrightarrow> kept_by_flush v w \<Longrightarrow> kept_by_flush u w"
  by (auto simp: kept_by_flush_def intro: open_as_before_trans)

lemma kept_send_flush: "kept_by_send u u' \<Longrightarrow> kept_by_flush u u'"
  by (simp add: kept_by_flush_def kept_open_as_before) (simp add: kept_by_send_def)

lemma kept_load_flush: "full_wf u \<Longrightarrow> buffer (writer u) \<noteq> [] \<Longrightarrow> kept_by_flush u (load u)"
  by (simp add: kept_by_flush_def open_as_before_load)

lemma poll_flush_kept:
  assumes "upload_wf u" "poll_flush reserve u = (r, u')"
  shows "kept_by_flush u u'"
proof (cases reserve rule: poll_flush_cases [OF assms(1)])
  case (5 u0)
  have "kept_by_flush (load u0) u'"
    using 5(1) assms(2) by (metis kept_send_flush poll_pending_kept)
  then show ?thesis
    using kept_load_flush [OF 5(3,4)] kept_send_flush [OF poll_pending_kept [OF 5(2)]]
    by (blast intro: kept_by_flush_trans)
qed (use assms(2) in \<open>auto dest!: poll_pending_kept kept_send_flush\<close>)

lemma poll_flush_ok:
  assumes wf: "upload_wf u" and res: "poll_flush reserve u = (Ready (Inr x), u')"
  shows "upload_wf u'" "stream_of u' = stream_of u" "held u' = []" "w_pending (writer u') = None"
    "\<not> upload_ended (state u)" "\<not> upload_ended (state u')"
proof -
  have "upload_wf u' \<and> stream_of u' = stream_of u \<and> held u' = [] \<and> w_pending (writer u') = None
    \<and> \<not> upload_ended (state u) \<and> \<not> upload_ended (state u')"
  proof (cases reserve rule: poll_flush_cases [OF wf])
    case (4 u0)
    then show ?thesis using poll_pending_ok [OF wf 4(2)] res by (simp add: held_def)
  next
    case (5 u0)
    note ok = poll_pending_ok [OF wf 5(2)]
    note l = load_wf [OF 5(3,4)]
    have p: "poll_pending reserve (load u0) = (Ready (Inr x), u')" using 5(1) res by simp
    note ok' = poll_pending_ok [OF l(1) p]
    have "buffer (writer u') = []" using ok'(2) by (simp add: kept_by_send_def)
    then show ?thesis using ok ok' l 5(5) by (simp add: held_def)
  qed (use res in auto)
  then show "upload_wf u'" "stream_of u' = stream_of u" "held u' = []" "w_pending (writer u') = None"
    "\<not> upload_ended (state u)" "\<not> upload_ended (state u')" by auto
qed

lemma poll_flush_Pending:
  assumes wf: "upload_wf u" and res: "poll_flush reserve u = (Pending, u')"
  shows "upload_wf u'" "stream_of u' = stream_of u" "w_pending (writer u') \<noteq> None"
    "upload_ended (state u') = upload_ended (state u)" "channel u' = channel u"
proof -
  have waits: "w_pending (writer v) \<noteq> None" if "poll_pending reserve v = (Pending, v')" for v v'
    using that by (cases reserve v rule: poll_pending_cases) auto
  have "upload_wf u' \<and> stream_of u' = stream_of u \<and> w_pending (writer u') \<noteq> None
    \<and> upload_ended (state u') = upload_ended (state u) \<and> channel u' = channel u"
  proof (cases reserve rule: poll_flush_cases [OF wf])
    case 1
    then show ?thesis using res wf waits by auto
  next
    case (5 u0)
    note ok = poll_pending_ok [OF wf 5(2)]
    note l = load_wf [OF 5(3,4)]
    have "u' = load u0" using 5(1) res poll_pending_Pending by simp
    moreover have "u0 = u" using 5(2,4) wf
      by (cases reserve u rule: poll_pending_cases) (auto simp: upload_wf_def buffer_wf_def)
    ultimately show ?thesis using l ok by simp
  qed (use res in auto)
  then show "upload_wf u'" "stream_of u' = stream_of u" "w_pending (writer u') \<noteq> None"
    "upload_ended (state u') = upload_ended (state u)" "channel u' = channel u" by auto
qed

lemma poll_flush_err:
  assumes wf: "upload_wf u" and res: "poll_flush reserve u = (Ready (Inl e), u')"
  shows "upload_wf u'" "prefix (stream_of u') (stream_of u)" "upload_ended (state u')"
    "io_error_kind_of e = BrokenPipe" "held u' = [] \<or> upload_ended (state u) \<and> stream_of u' = stream_of u"
proof -
  have "upload_wf u' \<and> prefix (stream_of u') (stream_of u) \<and> upload_ended (state u')
    \<and> io_error_kind_of e = BrokenPipe
    \<and> (held u' = [] \<or> upload_ended (state u) \<and> stream_of u' = stream_of u)"
  proof (cases reserve rule: poll_flush_cases [OF wf])
    case (2 u0)
    then have "u0 = u'" "e = gone_error u" using res by auto
    with poll_pending_err [OF wf 2(2)] show ?thesis by simp
  next
    case (3 u0)
    then have "u0 = u'" "e = gone_error u0" using res by auto
    with poll_pending_ok [OF wf 3(2)] 3(3) show ?thesis by simp
  next
    case (5 u0)
    note ok = poll_pending_ok [OF wf 5(2)]
    note l = load_wf [OF 5(3,4)]
    have p: "poll_pending reserve (load u0) = (Ready (Inl e), u')" using 5(1) res by simp
    show ?thesis using poll_pending_err [OF l(1) p] ok l by simp
  qed (use res in auto)
  then show "upload_wf u'" "prefix (stream_of u') (stream_of u)" "upload_ended (state u')"
    "io_error_kind_of e = BrokenPipe"
    "held u' = [] \<or> upload_ended (state u) \<and> stream_of u' = stream_of u" by auto
qed


text \<open>A body that has ended: nothing is held, the flags say so, the channel is unchanged.\<close>

lemma ended_wf:
  assumes "upload_wf u" "w_pending (writer u) = None \<and> buffer (writer u) = []"
  shows "upload_wf (u\<lparr>state := mark_body_ended (state u), writer := (writer u)\<lparr>sender := False\<rparr>\<rparr>)"
    (is "upload_wf ?v")
proof -
  have "stream_of ?v = stream_of u" using assms(2) by (simp add: stream_of_def held_def)
  then have "counts_wf ?v"
    using assms(1) by (simp add: upload_wf_def counts_wf_def mark_body_ended_def)
  moreover have "buffer_wf ?v" "flags_wf ?v"
    using assms
    by (simp_all add: upload_wf_def buffer_wf_def flags_wf_def chunk_ok_def held_def mark_body_ended_def)
  ultimately show ?thesis by (simp add: upload_wf_def)
qed

lemma poll_shutdown_flush:
  assumes "sender (writer u)" "poll_shutdown reserve u = (r, u')"
  obtains (flushed) x u0 where "r = Ready (Inr ())" "poll_flush reserve u = (Ready (Inr x), u0)"
      "u' = u0\<lparr>state := mark_body_ended (state u0), writer := (writer u0)\<lparr>sender := False\<rparr>\<rparr>"
  | (other) "poll_flush reserve u = (r, u')" "r = Pending \<or> (\<exists>e. r = Ready (Inl e))"
  using assms
  by (auto simp: poll_shutdown_def split: prod.splits poll.splits sum.splits)

lemma held_nil: "held u = [] \<longleftrightarrow> (w_pending (writer u) = None \<or> w_pending (writer u) = Some []) \<and> buffer (writer u) = []"
  by (auto simp: held_def split: option.splits)

lemma poll_shutdown_ok:
  assumes wf: "upload_wf u" and open_: "sender (writer u)"
    and res: "poll_shutdown reserve u = (Ready (Inr x), u')"
  shows "upload_wf u'" "concat (channel u') = stream_of u" "stream_of u' = stream_of u"
    "\<not> sender (writer u')" "body_ended (state u')" "same_upload u u'"
    "accepted (state u') = accepted (state u)" "unat (sent (state u')) = unat (accepted (state u'))"
    "\<not> upload_ended (state u)"
proof -
  obtain y u0 where f: "poll_flush reserve u = (Ready (Inr y), u0)"
    and u': "u' = u0\<lparr>state := mark_body_ended (state u0), writer := (writer u0)\<lparr>sender := False\<rparr>\<rparr>"
    using res by (cases rule: poll_shutdown_flush [OF open_ res]) auto
  note ok = poll_flush_ok [OF wf f]
  note kept = poll_flush_kept [OF wf f]
  show "\<not> upload_ended (state u)" by (rule ok(5))
  have nil: "w_pending (writer u0) = None \<and> buffer (writer u0) = []"
    using ok(3,4) by (simp add: held_nil)
  then show "upload_wf u'" using ended_wf [OF ok(1)] u' by simp
  show c: "concat (channel u') = stream_of u"
    using ok(2,3) u' by (simp add: stream_of_def)
  show "stream_of u' = stream_of u"
    using c nil u' by (simp add: stream_of_def held_def)
  show "\<not> sender (writer u')" "body_ended (state u')"
    using u' by (simp_all add: mark_body_ended_def)
  show "same_upload u u'" "accepted (state u') = accepted (state u)"
    using kept u'
    by (simp_all add: kept_by_flush_def open_as_before_def same_upload_def mark_body_ended_def)
  have "counts_wf u0" "sender (writer u0)"
    using ok(1) kept open_ by (simp_all add: upload_wf_def kept_by_flush_def open_as_before_def)
  then show "unat (sent (state u')) = unat (accepted (state u'))"
    using u' ok(3,6) by (simp add: counts_wf_def stream_of_def mark_body_ended_def)
qed

lemma drop_writer_wf:
  assumes wf: "upload_wf u"
  shows "upload_wf (drop_writer u)"
proof -
  have s: "stream_of (drop_writer u) = concat (channel u)"
    by (simp add: drop_writer_def Let_def stream_of_def held_def)
  have "length (concat (channel u)) \<le> length (stream_of u)" by (simp add: stream_of_def)
  then have "counts_wf (drop_writer u)"
    using wf s
    by (simp add: upload_wf_def counts_wf_def) (simp add: drop_writer_def Let_def mark_body_ended_def)
  moreover have "buffer_wf (drop_writer u)"
    using wf by (auto simp: upload_wf_def buffer_wf_def drop_writer_def Let_def chunk_ok_def)
  moreover have "flags_wf (drop_writer u)"
    using wf by (auto simp: upload_wf_def flags_wf_def drop_writer_def Let_def held_def mark_body_ended_def)
  ultimately show ?thesis by (simp add: upload_wf_def)
qed

lemma mark_upload_ended_wf: "upload_wf u \<Longrightarrow> upload_wf (u\<lparr>state := mark_upload_ended (state u)\<rparr>)"
  by (simp add: upload_wf_defs mark_upload_ended_def)

end
