(* ===== verification/Upload_Runs.thy ===== *)
theory Upload_Runs
  imports Upload_Writer
begin

text \<open>
  The life of one upload body: any interleaving of the producer's polls, the end of the
  upload, the reads of its consumer and the drop of the writer, each poll with whatever
  answers the channel gives it. The events are those that \<^verbatim>\<open>src/upload_writer.rs\<close> and
  \<open>start_upload\<close> of \<^verbatim>\<open>src/s3_client.rs\<close> can cause; \<open>written\<close> records the bytes the writer
  has reported as taken (the \<open>Ok(n)\<close> of \<open>poll_write\<close>), \<open>received\<close> how many chunks the
  request has read out of the channel.

  The second part is the contract of \<open>AsyncWrite\<close> as a locale, with the loop of
  \<open>AsyncWriteExt::write_all\<close> (the way every producer drives the writer) verified against
  the contract and then used on the writer. The third is an abstract body as a step relation,
  in which every answer of every operation of the writer, \<open>Pending\<close> and errors included, is a
  step.
\<close>

section \<open>Runs\<close>

type_synonym channel_answers = "upload \<Rightarrow> reserve_answer"

datatype upload_event =
    Write channel_answers bytes
  | Flush channel_answers
  | Shutdown channel_answers
  | DropWriter
  | UploadEnds
  | Receive

record upload_run =
  up :: upload
  written :: bytes
  received :: nat

definition taken :: "(nat, io_error) result poll \<Rightarrow> bytes \<Rightarrow> bytes" where
  "taken r buf = (case r of Ready (Inr n) \<Rightarrow> take n buf | _ \<Rightarrow> [])"

fun upload_step :: "upload_run \<Rightarrow> upload_event \<Rightarrow> upload_run" where
  "upload_step s (Write reserve buf) =
     (let (r, u) = poll_write reserve buf (up s) in s\<lparr>up := u, written := written s @ taken r buf\<rparr>)"
| "upload_step s (Flush reserve) = s\<lparr>up := snd (poll_flush reserve (up s))\<rparr>"
| "upload_step s (Shutdown reserve) = s\<lparr>up := snd (poll_shutdown reserve (up s))\<rparr>"
| "upload_step s DropWriter = s\<lparr>up := drop_writer (up s)\<rparr>"
| "upload_step s UploadEnds = s\<lparr>up := (up s)\<lparr>state := mark_upload_ended (state (up s))\<rparr>\<rparr>"
| "upload_step s Receive =
     (if received s < length (channel (up s)) then s\<lparr>received := received s + 1\<rparr> else s)"

definition start_run :: "bytes \<Rightarrow> bytes \<Rightarrow> u64 \<Rightarrow> nat \<Rightarrow> upload_run" where
  "start_run b k len csize = \<lparr>up = new_upload b k len csize, written = [], received = 0\<rparr>"

definition upload_started :: "upload_run \<Rightarrow> bool" where
  "upload_started s \<longleftrightarrow> (\<exists>b k len csize. s = start_run b k len csize)"

text \<open>
  The writer and the bytes it has reported as taken agree: what it still accounts for is a
  prefix of them, and all of them while the upload is running and the writer is open.
\<close>

definition in_step :: "upload \<Rightarrow> bytes \<Rightarrow> bool" where
  "in_step u ws \<longleftrightarrow>
     upload_wf u \<and> prefix (stream_of u) ws
     \<and> (sender (writer u) \<and> \<not> upload_ended (state u) \<longrightarrow> stream_of u = ws)"

definition body_inv :: "upload_run \<Rightarrow> bool" where
  "body_inv s \<longleftrightarrow> in_step (up s) (written s)"

lemma write_in_step:
  assumes "in_step u ws" "poll_write reserve buf u = (r, u')"
  shows "in_step u' (ws @ taken r buf)"
proof -
  have wf: "upload_wf u" using assms(1) by (simp add: in_step_def)
  consider "r = Pending" | e where "r = Ready (Inl e)" | n where "r = Ready (Inr n)"
    by (metis old.sum.exhaust poll.exhaust)
  then show ?thesis
  proof cases
    case 1
    then show ?thesis using assms poll_write_Pending [of reserve buf u u'] by (simp add: taken_def)
  next
    case (2 e)
    note err = poll_write_err [OF wf assms(2) [unfolded 2]]
    have "prefix (stream_of u') ws"
      using err(3) assms(1) by (auto simp: in_step_def intro: prefix_order.trans)
    moreover have "stream_of u' = ws" if "sender (writer u')" "\<not> upload_ended (state u')"
      using that err(2,4,5) assms(1) by (auto simp: in_step_def open_as_before_def)
    ultimately show ?thesis using err(1) 2 by (simp add: in_step_def taken_def)
  next
    case (3 n)
    note ok = poll_write_ok [OF wf assms(2) [unfolded 3]]
    show ?thesis
    proof (cases "n = 0")
      case True
      then show ?thesis
        using 3 ok(1,2,3,6) assms(1) by (simp add: in_step_def taken_def took_def open_as_before_def)
    next
      case False
      then have "stream_of u = ws" using ok(7) assms(1) by (simp add: in_step_def)
      then show ?thesis using 3 ok(1,2) by (simp add: in_step_def taken_def)
    qed
  qed
qed

lemma flush_in_step:
  assumes "in_step u ws" "poll_flush reserve u = (r, u')"
  shows "in_step u' ws"
proof -
  have wf: "upload_wf u" using assms(1) by (simp add: in_step_def)
  note kept = poll_flush_kept [OF wf assms(2)]
  consider "r = Pending" | e where "r = Ready (Inl e)" | x where "r = Ready (Inr x)"
    by (metis old.sum.exhaust poll.exhaust)
  then show ?thesis
  proof cases
    case 1
    then show ?thesis
      using poll_flush_Pending [OF wf, of reserve u'] assms kept
      by (simp add: in_step_def kept_by_flush_def open_as_before_def)
  next
    case (2 e)
    then show ?thesis
      using poll_flush_err [OF wf, of reserve e u'] assms
      by (auto simp: in_step_def intro: prefix_order.trans)
  next
    case (3 x)
    then show ?thesis
      using poll_flush_ok [OF wf, of reserve x u'] assms kept
      by (simp add: in_step_def kept_by_flush_def open_as_before_def)
  qed
qed

lemma shutdown_in_step:
  assumes "in_step u ws" "poll_shutdown reserve u = (r, u')"
  shows "in_step u' ws"
proof (cases "sender (writer u)")
  case False
  then show ?thesis using assms by (simp add: poll_shutdown_def)
next
  case True
  have wf: "upload_wf u" using assms(1) by (simp add: in_step_def)
  from True assms(2) show ?thesis
  proof (cases rule: poll_shutdown_flush)
    case (flushed x u0)
    then show ?thesis
      using poll_shutdown_ok [OF wf True, of reserve "()" u'] assms by (simp add: in_step_def)
  next
    case other
    then show ?thesis using flush_in_step [OF assms(1)] by blast
  qed
qed

lemma drop_in_step: "in_step u ws \<Longrightarrow> in_step (drop_writer u) ws"
  by (auto simp: in_step_def drop_writer_wf)
    (auto simp: drop_writer_def Let_def stream_of_def held_def intro: append_prefixD)

lemma ends_in_step: "in_step u ws \<Longrightarrow> in_step (u\<lparr>state := mark_upload_ended (state u)\<rparr>) ws"
  by (simp add: in_step_def mark_upload_ended_wf)
    (simp add: mark_upload_ended_def stream_of_def held_def)

lemma upload_step_inv: "body_inv s \<Longrightarrow> body_inv (upload_step s e)"
  by (cases e)
    (auto simp: body_inv_def drop_in_step ends_in_step prod.case_eq_if
      intro: write_in_step flush_in_step shutdown_in_step prod.collapse [symmetric])

lemma start_run_inv: "upload_started s \<Longrightarrow> body_inv s"
  by (auto simp: upload_started_def start_run_def body_inv_def in_step_def new_upload_wf)
    (simp_all add: new_upload_def stream_of_def held_def)

interpretation body: transition_system upload_started upload_step "\<lambda>_ _. True" body_inv
  by unfold_locales (auto intro: start_run_inv upload_step_inv)

lemma reachable_inv: "body_inv (run_steps upload_step (start_run b k len csize) es)"
  by (rule body.run_from_start) (auto simp: upload_started_def intro: steps_ok_always)


section \<open>The queue is bounded\<close>

text \<open>
  tokio's bounded channel gives a permit only while fewer chunks than its capacity wait in
  it. \<open>room_below n\<close> is that promise for a consumer that has read \<open>n - capacity\<close> chunks.
\<close>

definition room_below :: "nat \<Rightarrow> channel_answers \<Rightarrow> bool" where
  "room_below n reserve \<longleftrightarrow> (\<forall>u. reserve u = Permit \<longrightarrow> length (channel u) < n)"

fun bounded_channel :: "upload_event \<Rightarrow> upload_run \<Rightarrow> bool" where
  "bounded_channel (Write reserve _) s = room_below (received s + UPLOAD_CHANNEL_CAPACITY) reserve"
| "bounded_channel (Flush reserve) s = room_below (received s + UPLOAD_CHANNEL_CAPACITY) reserve"
| "bounded_channel (Shutdown reserve) s = room_below (received s + UPLOAD_CHANNEL_CAPACITY) reserve"
| "bounded_channel _ s = True"

lemma drive_send_room:
  assumes "room_below n reserve" "length (channel u) \<le> n" "drive_send reserve c u = (r, u')"
  shows "length (channel u) \<le> length (channel u') \<and> length (channel u') \<le> n"
proof (cases "reserve u")
  case NoRoom
  with assms show ?thesis by (auto simp: drive_send_def poll_send_def)
next
  case Permit
  with assms show ?thesis by (auto simp: drive_send_def poll_send_def room_below_def Suc_le_eq)
next
  case Closed
  with assms show ?thesis by (auto simp: drive_send_def poll_send_def upload_is_gone_def)
qed

text \<open>An operation that keeps the queue within \<open>n\<close>.\<close>

definition keeps_room :: "nat \<Rightarrow> (upload \<Rightarrow> 'r \<times> upload) \<Rightarrow> bool" where
  "keeps_room n f \<longleftrightarrow>
     (\<forall>u. length (channel u) \<le> n \<longrightarrow>
        length (channel u) \<le> length (channel (snd (f u))) \<and> length (channel (snd (f u))) \<le> n)"

lemma keeps_roomD:
  "keeps_room n f \<Longrightarrow> f u = (r, u') \<Longrightarrow> length (channel u) \<le> n \<Longrightarrow>
   length (channel u) \<le> length (channel u') \<and> length (channel u') \<le> n"
  by (metis keeps_room_def snd_conv)

lemma drive_send_at:
  assumes "room_below n reserve" "length (channel u) \<le> n" "channel v = channel u"
  shows "length (channel u) \<le> length (channel (snd (drive_send reserve c v)))
    \<and> length (channel (snd (drive_send reserve c v))) \<le> n"
  using drive_send_room [OF assms(1) _ prod.collapse [symmetric], of v c] assms(2,3) by simp

lemma poll_pending_room: "room_below n reserve \<Longrightarrow> keeps_room n (poll_pending reserve)"
  by (simp add: keeps_room_def poll_pending_def drive_send_at split: option.split)

lemma start_send_room: "room_below n reserve \<Longrightarrow> keeps_room n (start_send reserve c)"
  by (simp add: keeps_room_def start_send_def drive_send_at)

lemma take_bytes_snd:
  "snd (take_bytes reserve buf u) =
     (let u1 = absorb (take (take_amount buf u) buf) u in
      if length (buffer (writer u1)) < chunk_size (writer u1) then u1
      else snd (start_send reserve (buffer (writer u1)) (u1\<lparr>writer := (writer u1)\<lparr>buffer := []\<rparr>\<rparr>)))"
  unfolding take_bytes_eq Let_def by (simp split: prod.split poll.split sum.split)

lemma start_send_at:
  assumes "room_below n reserve" "length (channel u) \<le> n" "channel v = channel u"
  shows "length (channel u) \<le> length (channel (snd (start_send reserve c v)))
    \<and> length (channel (snd (start_send reserve c v))) \<le> n"
  using keeps_roomD [OF start_send_room [OF assms(1)] prod.collapse [symmetric], of v c] assms(2,3)
  by simp

lemma take_bytes_room: "room_below n reserve \<Longrightarrow> keeps_room n (take_bytes reserve buf)"
  by (simp add: keeps_room_def take_bytes_snd Let_def start_send_at)

lemma poll_write_room:
  assumes "room_below n reserve"
  shows "keeps_room n (poll_write reserve buf)"
proof -
  note p = keeps_roomD [OF poll_pending_room [OF assms]]
    and t = keeps_roomD [OF take_bytes_room [OF assms]]
  show ?thesis
    unfolding keeps_room_def
  proof (intro allI impI)
    fix u :: upload
    assume le: "length (channel u) \<le> n"
    obtain r0 u0 where p0: "poll_pending reserve u = (r0, u0)" by (cases "poll_pending reserve u")
    obtain r1 u1 where t1: "take_bytes reserve buf u0 = (r1, u1)" by (cases "take_bytes reserve buf u0")
    show "length (channel u) \<le> length (channel (snd (poll_write reserve buf u)))
      \<and> length (channel (snd (poll_write reserve buf u))) \<le> n"
      using p [OF p0 le] t [OF t1] p0 t1
      by (auto simp: poll_write_def upload_is_gone_def split: poll.splits sum.splits)
  qed
qed

lemma poll_flush_room:
  assumes "room_below n reserve"
  shows "keeps_room n (poll_flush reserve)"
proof -
  note p = keeps_roomD [OF poll_pending_room [OF assms]]
    and t = keeps_roomD [OF start_send_room [OF assms]]
  show ?thesis
    unfolding keeps_room_def
  proof (intro allI impI)
    fix u :: upload
    assume le: "length (channel u) \<le> n"
    obtain r0 u0 where p0: "poll_pending reserve u = (r0, u0)" by (cases "poll_pending reserve u")
    let ?v = "u0\<lparr>writer := (writer u0)\<lparr>buffer := []\<rparr>\<rparr>"
    obtain r1 u1 where t1: "start_send reserve (buffer (writer u0)) ?v = (r1, u1)"
      by (cases "start_send reserve (buffer (writer u0)) ?v")
    show "length (channel u) \<le> length (channel (snd (poll_flush reserve u)))
      \<and> length (channel (snd (poll_flush reserve u))) \<le> n"
      using p [OF p0 le] t [OF t1] p0 t1
      by (auto simp: poll_flush_def upload_is_gone_def split: poll.splits sum.splits)
  qed
qed

lemma poll_shutdown_room: "room_below n reserve \<Longrightarrow> keeps_room n (poll_shutdown reserve)"
  unfolding keeps_room_def poll_shutdown_def
  by (auto split: prod.splits poll.splits sum.splits dest: keeps_roomD [OF poll_flush_room])

definition queue_ok :: "upload_run \<Rightarrow> bool" where
  "queue_ok s \<longleftrightarrow>
     body_inv s \<and> received s \<le> length (channel (up s))
     \<and> length (channel (up s)) \<le> received s + UPLOAD_CHANNEL_CAPACITY"

lemma keeps_room_step:
  "keeps_room (received s + UPLOAD_CHANNEL_CAPACITY) f \<Longrightarrow> queue_ok s \<Longrightarrow>
   received s \<le> length (channel (snd (f (up s))))
   \<and> length (channel (snd (f (up s)))) \<le> received s + UPLOAD_CHANNEL_CAPACITY"
  unfolding keeps_room_def queue_ok_def by (meson order_trans)

lemma upload_step_queue: "queue_ok s \<Longrightarrow> bounded_channel e s \<Longrightarrow> queue_ok (upload_step s e)"
proof -
  assume q: "queue_ok s" and b: "bounded_channel e s"
  have inv: "body_inv (upload_step s e)" using q upload_step_inv by (simp add: queue_ok_def)
  show "queue_ok (upload_step s e)"
  proof (cases e)
    case (Write reserve buf)
    with b q keeps_room_step [OF poll_write_room] inv show ?thesis
      by (simp add: queue_ok_def prod.case_eq_if)
  next
    case (Flush reserve)
    with b q keeps_room_step [OF poll_flush_room] inv show ?thesis by (simp add: queue_ok_def)
  next
    case (Shutdown reserve)
    with b q keeps_room_step [OF poll_shutdown_room] inv show ?thesis by (simp add: queue_ok_def)
  qed (use q inv in \<open>auto simp: queue_ok_def drop_writer_def Let_def\<close>)
qed

lemma start_run_queue: "upload_started s \<Longrightarrow> queue_ok s"
  using start_run_inv [of s]
  by (auto simp: queue_ok_def upload_started_def start_run_def new_upload_def)

interpretation queue: transition_system upload_started upload_step bounded_channel queue_ok
  by unfold_locales (auto intro: start_run_queue upload_step_queue)

lemma length_concat_le: "(\<And>c. c \<in> set cs \<Longrightarrow> length c \<le> n) \<Longrightarrow> length (concat cs) \<le> length cs * n"
  by (induction cs) fastforce+

lemma held_bound: "upload_wf u \<Longrightarrow> length (held u) \<le> chunk_size (writer u)"
  by (cases "w_pending (writer u)") (auto simp: upload_wf_def buffer_wf_def chunk_ok_def held_def)

text \<open>
  The chunks of the body in memory: the one the HTTP client is writing (the last it has
  received), those still queued, the one waiting to join them, and the buffer, which has room
  for a whole chunk at any time.
\<close>

definition chunks_in_memory :: "upload_run \<Rightarrow> bytes list" where
  "chunks_in_memory s =
     drop (received s - 1) (channel (up s))
     @ (case w_pending (writer (up s)) of None \<Rightarrow> [] | Some c \<Rightarrow> [c])
     @ [buffer (writer (up s))]"

lemma chunks_in_memory_bound:
  assumes "queue_ok s"
  shows "length (chunks_in_memory s) \<le> UPLOAD_CHANNEL_CAPACITY + 3"
    "\<And>c. c \<in> set (chunks_in_memory s) \<Longrightarrow> length c \<le> chunk_size (writer (up s))"
    "length (concat (chunks_in_memory s)) \<le> (UPLOAD_CHANNEL_CAPACITY + 2) * chunk_size (writer (up s))"
proof -
  let ?u = "up s" and ?q = "drop (received s - 1) (channel (up s))"
  have wf: "upload_wf ?u" using assms by (simp add: queue_ok_def body_inv_def in_step_def)
  have q: "length ?q \<le> UPLOAD_CHANNEL_CAPACITY + 1"
    using assms unfolding queue_ok_def length_drop by linarith
  show "length (chunks_in_memory s) \<le> UPLOAD_CHANNEL_CAPACITY + 3"
    using q by (auto simp: chunks_in_memory_def split: option.split)
  have sizes: "length c \<le> chunk_size (writer ?u)" if "c \<in> set ?q" for c
    using wf that by (auto simp: upload_wf_def buffer_wf_def chunk_ok_def dest: in_set_dropD)
  then show "length c \<le> chunk_size (writer ?u)" if "c \<in> set (chunks_in_memory s)" for c
    using wf that
    by (auto simp: chunks_in_memory_def upload_wf_def buffer_wf_def chunk_ok_def split: option.splits)
  have "length (concat ?q) \<le> length ?q * chunk_size (writer ?u)"
    by (rule length_concat_le) (rule sizes)
  also have "\<dots> \<le> (UPLOAD_CHANNEL_CAPACITY + 1) * chunk_size (writer ?u)"
    using q by (rule mult_right_mono) simp
  finally have "length (concat ?q) + length (held ?u) \<le> (UPLOAD_CHANNEL_CAPACITY + 1) * chunk_size (writer ?u) + chunk_size (writer ?u)"
    using held_bound [OF wf] by (rule add_mono)
  moreover have "length (concat (chunks_in_memory s)) = length (concat ?q) + length (held ?u)"
    by (cases "w_pending (writer ?u)") (simp_all add: chunks_in_memory_def held_def)
  ultimately show "length (concat (chunks_in_memory s)) \<le> (UPLOAD_CHANNEL_CAPACITY + 2) * chunk_size (writer ?u)"
    by (simp add: algebra_simps)
qed

section \<open>Interface: AsyncWrite, and the loop that drives it\<close>

text \<open>
  \<open>AsyncWriteExt::write_all\<close>: write until nothing is left. A \<open>Pending\<close> leaves the rest
  for the next poll.
\<close>

datatype 'e write_all_answer = AllWritten | Waiting | WriteZero | Failed 'e

function write_all ::
  "(bytes \<Rightarrow> 's \<Rightarrow> (nat, 'e) result poll \<times> 's) \<Rightarrow> bytes \<Rightarrow> 's \<Rightarrow> 'e write_all_answer \<times> bytes \<times> 's"
where
  "write_all put buf s =
     (if buf = [] then (AllWritten, [], s)
      else case put buf s of
             (Pending, s') \<Rightarrow> (Waiting, buf, s')
           | (Ready (Inl e), s') \<Rightarrow> (Failed e, buf, s')
           | (Ready (Inr n), s') \<Rightarrow>
               if n = 0 then (WriteZero, buf, s') else write_all put (drop n buf) s')"
  by pat_completeness auto
termination
  by (relation "measure (\<lambda>(_, buf, _). length buf)") auto

declare write_all.simps [simp del]

text \<open>
  The contract: a write that is not ready has taken nothing, one that is has taken a
  non-empty prefix of what it was offered, in order, behind everything taken before.
\<close>

locale async_sink =
  fixes put :: "bytes \<Rightarrow> 's \<Rightarrow> (nat, 'e) result poll \<times> 's"
    and stream :: "'s \<Rightarrow> bytes"
    and inv :: "'s \<Rightarrow> bool"
  assumes write_waits: "put buf s = (Pending, s') \<Longrightarrow> s' = s"
    and write_takes: "inv s \<Longrightarrow> put buf s = (Ready (Inr n), s') \<Longrightarrow>
      inv s' \<and> stream s' = stream s @ take n buf \<and> (buf \<noteq> [] \<longrightarrow> 0 < n)"
    and write_fails: "inv s \<Longrightarrow> put buf s = (Ready (Inl e), s') \<Longrightarrow>
      inv s' \<and> prefix (stream s') (stream s)"
begin

lemma write_all_waiting:
  "inv s \<Longrightarrow> write_all put buf s = (Waiting, rest, s') \<Longrightarrow>
   inv s' \<and> stream s' @ rest = stream s @ buf"
proof (induction "length buf" arbitrary: buf s rule: less_induct)
  case less
  show ?case
    using less.prems
    by (subst (asm) write_all.simps)
      (auto split: if_splits prod.splits poll.splits sum.splits
        dest: write_waits write_takes dest!: less.hyps [rotated 2])
qed

lemma write_all_written:
  "inv s \<Longrightarrow> write_all put buf s = (AllWritten, rest, s') \<Longrightarrow>
   inv s' \<and> rest = [] \<and> stream s' = stream s @ buf"
proof (induction "length buf" arbitrary: buf s rule: less_induct)
  case less
  show ?case
    using less.prems
    by (subst (asm) write_all.simps)
      (auto split: if_splits prod.splits poll.splits sum.splits
        dest: write_takes dest!: less.hyps [rotated 2])
qed

lemma write_all_keeps:
  assumes keeps: "\<And>buf s n s'. inv s \<Longrightarrow> P s \<Longrightarrow> put buf s = (Ready (Inr n), s') \<Longrightarrow> P s'"
  shows "inv s \<Longrightarrow> P s \<Longrightarrow> write_all put buf s = (AllWritten, rest, s') \<Longrightarrow> P s'"
proof (induction "length buf" arbitrary: buf s rule: less_induct)
  case less
  show ?case
    using less.prems
    by (subst (asm) write_all.simps)
      (auto split: if_splits prod.splits poll.splits sum.splits
        dest: write_takes keeps dest!: less.hyps [rotated 3])
qed

lemma write_all_never_zero: "inv s \<Longrightarrow> fst (write_all put buf s) \<noteq> WriteZero"
proof (induction "length buf" arbitrary: buf s rule: less_induct)
  case less
  have "fst (write_all put (drop n buf) s') \<noteq> WriteZero"
    if "put buf s = (Ready (Inr n), s')" "buf \<noteq> []" for n s'
    using less.hyps [of "drop n buf" s'] write_takes [OF less.prems that(1)] that(2) by simp
  then show ?case
    using less.prems
    by (subst write_all.simps)
      (auto split: prod.splits poll.splits sum.splits dest: write_takes)
qed

end

text \<open>
  A sink that has room for \<open>room s\<close> bytes and does not make its writer wait: the loop ends
  with everything written.
\<close>

locale ready_sink = async_sink +
  fixes room :: "'a \<Rightarrow> nat"
  assumes write_ready: "inv s \<Longrightarrow> buf \<noteq> [] \<Longrightarrow> length buf \<le> room s \<Longrightarrow>
    \<exists>n s'. put buf s = (Ready (Inr n), s') \<and> room s' + n = room s"
begin

lemma write_all_total:
  "inv s \<Longrightarrow> length buf \<le> room s \<Longrightarrow> \<exists>s'. write_all put buf s = (AllWritten, [], s')"
proof (induction "length buf" arbitrary: buf s rule: less_induct)
  case less
  show ?case
  proof (cases "buf = []")
    case True
    then show ?thesis by (simp add: write_all.simps)
  next
    case False
    then obtain n s' where put: "put buf s = (Ready (Inr n), s')" and room: "room s' + n = room s"
      using write_ready [OF less.prems(1) False less.prems(2)] by blast
    note t = write_takes [OF less.prems(1) put]
    have "\<exists>t. write_all put (drop n buf) s' = (AllWritten, [], t)"
      using less.hyps [of "drop n buf" s'] t False room less.prems(2) by simp
    then show ?thesis
      using False put t by (subst write_all.simps) simp
  qed
qed

end

section \<open>The writer as a sink\<close>

interpretation writer_sink: async_sink "poll_write reserve" stream_of upload_wf
proof
  show "poll_write reserve buf u = (Pending, u') \<Longrightarrow> u' = u" for buf u u'
    by (rule poll_write_Pending)
  show "upload_wf u' \<and> stream_of u' = stream_of u @ take n buf \<and> (buf \<noteq> [] \<longrightarrow> 0 < n)"
    if "upload_wf u" "poll_write reserve buf u = (Ready (Inr n), u')" for u buf n u'
    using poll_write_ok [OF that] by simp
  show "upload_wf u' \<and> prefix (stream_of u') (stream_of u)"
    if "upload_wf u" "poll_write reserve buf u = (Ready (Inl e), u')" for u buf e u'
    using poll_write_err [OF that] by simp
qed

text \<open>A channel that is read as fast as it is filled.\<close>

abbreviation always_room :: channel_answers where
  "always_room \<equiv> \<lambda>_. Permit"

definition owed :: "upload \<Rightarrow> nat" where
  "owed u = (if sender (writer u) \<and> \<not> upload_ended (state u)
             then unat (st_content_length (state u)) - unat (accepted (state u)) else 0)"

lemma poll_pending_room_ready: "\<exists>u'. poll_pending always_room u = (Ready (Inr ()), u')"
  by (auto simp: poll_pending_def drive_send_def poll_send_def split: option.split)

lemma poll_pending_room_no_wait [simp]:
  "poll_pending always_room u \<noteq> (Pending, v)" "poll_pending always_room u \<noteq> (Ready (Inl e), v)"
  using poll_pending_room_ready [of u] by auto

lemma poll_write_ready:
  assumes wf: "upload_wf u" and buf: "buf \<noteq> []" and room: "length buf \<le> owed u"
  shows "\<exists>n u'. poll_write always_room buf u = (Ready (Inr n), u') \<and> owed u' + n = owed u"
proof -
  have "0 < owed u" using buf room by (cases buf) auto
  then have open_: "sender (writer u)" "\<not> upload_ended (state u)"
    and some: "unat (accepted (state u)) < unat (st_content_length (state u))"
    by (auto simp: owed_def split: if_splits)
  obtain n u' where res: "poll_write always_room buf u = (Ready (Inr n), u')"
  proof (cases rule: poll_write_cases [OF wf, where reserve = always_room and buf = buf])
    case (3 u0 r)
    then show ?thesis using that buf open_ some by auto
  next
    case (4 u0)
    show ?thesis
      by (cases always_room buf rule: take_bytes_cases [OF 4(4,5)]) (auto simp: 4(2) that)
  qed simp_all
  note ok = poll_write_ok [OF wf res]
  have "owed u' + n = owed u"
    using ok(1,3,6) open_ by (auto simp: owed_def took_def open_as_before_def same_upload_def upload_wf_def counts_wf_def)
  then show ?thesis using res by blast
qed

interpretation ready_writer: ready_sink "poll_write always_room" stream_of upload_wf owed
  by unfold_locales (rule poll_write_ready)

lemma poll_shutdown_ready:
  assumes "upload_wf u" "\<not> upload_ended (state u)"
  shows "\<exists>u'. poll_shutdown always_room u = (Ready (Inr ()), u')"
proof -
  have "\<exists>x u'. poll_flush always_room u = (Ready (Inr x), u')"
  proof (cases always_room rule: poll_flush_cases [OF assms(1)])
    case (3 u0)
    then show ?thesis using poll_pending_ok(5) [OF assms(1) 3(2)] assms(2) by simp
  next
    case (5 u0)
    then show ?thesis using poll_pending_room_ready [of "load u0"] by auto
  qed simp_all
  then show ?thesis by (auto simp: poll_shutdown_def)
qed


text \<open>An open writer of a body of \<open>len\<close> bytes stays one while its writes succeed.\<close>

definition open_for :: "u64 \<Rightarrow> upload \<Rightarrow> bool" where
  "open_for len u \<longleftrightarrow>
     sender (writer u) \<and> \<not> upload_ended (state u) \<and> st_content_length (state u) = len"

lemma poll_write_open_for:
  "upload_wf u \<Longrightarrow> open_for len u \<Longrightarrow> poll_write reserve buf u = (Ready (Inr n), u') \<Longrightarrow> open_for len u'"
  using poll_write_ok(3,6) [of u reserve buf n u']
  by (auto simp: open_for_def took_def open_as_before_def same_upload_def)

lemmas write_all_open_for = writer_sink.write_all_keeps [of "open_for len" for len, OF poll_write_open_for]

section \<open>What a run keeps of the upload it started with\<close>

lemma same_upload_writes:
  assumes "upload_wf u" "poll_write reserve buf u = (r, u')"
  shows "same_upload u u'"
proof -
  consider "r = Pending" | e where "r = Ready (Inl e)" | n where "r = Ready (Inr n)"
    by (metis old.sum.exhaust poll.exhaust)
  then show ?thesis
    using assms poll_write_Pending [of reserve buf u u'] poll_write_err(2) [OF assms(1)]
      poll_write_ok(3) [OF assms(1)]
    by cases (auto simp: took_def open_as_before_def)
qed

lemma same_upload_flushes: "upload_wf u \<Longrightarrow> poll_flush reserve u = (r, u') \<Longrightarrow> same_upload u u'"
  using poll_flush_kept by (simp add: kept_by_flush_def open_as_before_def)

lemma same_upload_shuts:
  assumes wf: "upload_wf u" and res: "poll_shutdown reserve u = (r, u')"
  shows "same_upload u u'"
proof (cases "sender (writer u)")
  case False
  then show ?thesis using res by (simp add: poll_shutdown_def)
next
  case True
  from True res show ?thesis
  proof (cases rule: poll_shutdown_flush)
    case (flushed x u0)
    then show ?thesis using poll_shutdown_ok(6) [OF wf True] res by blast
  next
    case other
    then show ?thesis using same_upload_flushes [OF wf] by blast
  qed
qed

lemma same_upload_step:
  assumes "body_inv s"
  shows "same_upload (up s) (up (upload_step s e))"
proof -
  have wf: "upload_wf (up s)" using assms by (simp add: body_inv_def in_step_def)
  show ?thesis
    using same_upload_writes [OF wf prod.collapse [symmetric]]
      same_upload_flushes [OF wf prod.collapse [symmetric]]
      same_upload_shuts [OF wf prod.collapse [symmetric]]
    by (cases e)
      (auto simp: prod.case_eq_if drop_writer_def Let_def same_upload_def mark_upload_ended_def
        mark_body_ended_def)
qed

definition run_of :: "bytes \<Rightarrow> bytes \<Rightarrow> u64 \<Rightarrow> nat \<Rightarrow> upload_run \<Rightarrow> bool" where
  "run_of b k len csize s \<longleftrightarrow> body_inv s \<and> same_upload (new_upload b k len csize) (up s)"

interpretation named: transition_system
  "\<lambda>s. s = start_run b k len csize" upload_step "\<lambda>_ _. True" "run_of b k len csize"
proof
  show "run_of b k len csize s" if "s = start_run b k len csize" for s
    using that start_run_inv [of s] by (auto simp: run_of_def upload_started_def start_run_def)
  show "run_of b k len csize (upload_step s e)" if "run_of b k len csize s" for s e
    using that same_upload_step [of s e] upload_step_inv [of s e]
    by (auto simp: run_of_def intro: same_upload_trans)
qed

lemma reachable_run_of: "run_of b k len csize (run_steps upload_step (start_run b k len csize) es)"
  by (rule named.run_from_start) (auto intro: steps_ok_always)

lemma run_ofD:
  assumes "run_of b k len csize s"
  shows "upload_wf (up s)" "prefix (concat (channel (up s))) (written s)"
    "st_content_length (state (up s)) = len" "chunk_size (writer (up s)) = max csize 1"
    "sender (writer (up s)) \<Longrightarrow> \<not> upload_ended (state (up s)) \<Longrightarrow> stream_of (up s) = written s"
proof -
  show "upload_wf (up s)" "st_content_length (state (up s)) = len"
    "chunk_size (writer (up s)) = max csize 1"
    "sender (writer (up s)) \<Longrightarrow> \<not> upload_ended (state (up s)) \<Longrightarrow> stream_of (up s) = written s"
    using assms
    by (auto simp: run_of_def body_inv_def in_step_def same_upload_def new_upload_def new_state_def)
  show "prefix (concat (channel (up s))) (written s)"
    using assms by (auto simp: run_of_def body_inv_def in_step_def stream_of_def dest: append_prefixD)
qed

section \<open>Properties\<close>

text \<open>
  C1: whatever a producer does with the writer, in whatever order its polls, the
  end of the upload, the reads of the request and the drop of the writer come, and whatever
  the channel answers: the bytes handed to the request are a prefix of the bytes the writer
  reported as taken, in order; \<open>sent\<close> is exactly their number; there are never more of
  them than the declared \<open>Content-Length\<close>; and every chunk is non-empty and no longer than
  the chunk size.
\<close>

theorem body_integrity:
  "let s = run_steps upload_step (start_run b k len csize) es;
       c = channel (up s)
   in prefix (concat c) (written s)
      \<and> length (concat c) = unat (sent (state (up s)))
      \<and> unat (sent (state (up s))) \<le> unat len
      \<and> list_all (\<lambda>chunk. chunk \<noteq> [] \<and> length chunk \<le> max csize 1) c"
proof -
  define s where "s = run_steps upload_step (start_run b k len csize) es"
  note r = run_ofD [OF reachable_run_of [of b k len csize es, folded s_def]]
  have "length (concat (channel (up s))) \<le> length (stream_of (up s))" by (simp add: stream_of_def)
  then show ?thesis
    using r(1-4) unfolding s_def [symmetric] Let_def
    by (auto simp: upload_wf_def counts_wf_def buffer_wf_def chunk_ok_def list_all_iff)
qed

text \<open>
  C9: a \<open>shutdown\<close> that reports success has put every byte the writer reported
  as taken into the channel, recorded the end of the body, and left \<open>sent\<close> equal to
  \<open>accepted\<close>.
\<close>

theorem shutdown_delivers_all:
  assumes "s = run_steps upload_step (start_run b k len csize) es"
    and "sender (writer (up s))"
    and "poll_shutdown reserve (up s) = (Ready (Inr ()), u')"
  shows "concat (channel u') = written s \<and> body_ended (state u')
    \<and> sent (state u') = accepted (state u') \<and> unat (sent (state u')) = length (written s)"
proof -
  note r = run_ofD [OF reachable_run_of [of b k len csize es, folded assms(1)]]
  note ok = poll_shutdown_ok [OF r(1) assms(2,3)]
  have all: "concat (channel u') = written s" using ok(2,9) r(5) assms(2) by simp
  moreover have "unat (sent (state u')) = length (concat (channel u'))"
    using ok(1) by (simp add: upload_wf_def counts_wf_def)
  ultimately show ?thesis using ok(5,8) by (simp add: word_unat_eq_iff)
qed

lemma sample_run:
  "run_steps upload_step (start_run ''b'' ''k'' 3 2)
     [Write always_room ''abc'', Receive, Write always_room ''c''] =
   \<lparr>up = \<lparr>writer = \<lparr>w_bucket_name = ''b'', w_key = ''k'', sender = True, buffer = ''c'',
                    chunk_size = 2, w_pending = None\<rparr>,
         state = \<lparr>st_content_length = 3, accepted = 3, sent = 2, upload_ended = False,
                  body_ended = False, body_started = True\<rparr>,
         channel = [''ab'']\<rparr>,
    written = ''abc'', received = 1\<rparr>"
  by code_simp

theorem shutdown_delivers_all_witness:
  "concat (channel (snd (poll_shutdown always_room (up (run_steps upload_step
     (start_run ''b'' ''k'' 3 2) [Write always_room ''abc'', Receive, Write always_room ''c'']))))) = ''abc''"
proof -
  let ?s = "run_steps upload_step (start_run ''b'' ''k'' 3 2)
     [Write always_room ''abc'', Receive, Write always_room ''c'']"
  have "poll_shutdown always_room (up ?s) = (Ready (Inr ()), snd (poll_shutdown always_room (up ?s)))"
    unfolding sample_run by code_simp
  moreover have "sender (writer (up ?s))" "written ?s = ''abc''"
    unfolding sample_run by simp_all
  ultimately show ?thesis using shutdown_delivers_all [OF refl] by metis
qed


text \<open>
  C10: with a channel that gives a permit only while fewer than
  \<open>UPLOAD_CHANNEL_CAPACITY\<close> chunks wait in it, an upload holds a handful of chunks, whatever
  its length: never more than seven (four queued, one waiting to join them, the one the HTTP
  client is writing, and the buffer), none longer than the chunk size, and never more than
  six chunks' worth of bytes, as the buffer is empty while a chunk waits. At the default chunk
  size the seven have 3.5 MiB.
\<close>

theorem memory_bound:
  assumes "steps_ok upload_step bounded_channel (start_run b k len csize) es"
    and "s = run_steps upload_step (start_run b k len csize) es"
  shows "length (chunks_in_memory s) \<le> 7
    \<and> list_all (\<lambda>c. length c \<le> max csize 1) (chunks_in_memory s)
    \<and> length (concat (chunks_in_memory s)) \<le> 6 * max csize 1
    \<and> 2 * (7 * DEFAULT_UPLOAD_CHUNK_SIZE) = 7 * 1024 * 1024"
proof -
  have "queue_ok s"
    unfolding assms(2) by (rule queue.run_from_start [OF _ assms(1)]) (auto simp: upload_started_def)
  note bound = chunks_in_memory_bound [OF this]
  have "chunk_size (writer (up s)) = max csize 1"
    using run_ofD(4) [OF reachable_run_of [of b k len csize es]] assms(2) by simp
  with bound show ?thesis
    by (simp add: UPLOAD_CHANNEL_CAPACITY_def DEFAULT_UPLOAD_CHUNK_SIZE_def list_all_iff)
qed

definition four_slots :: channel_answers where
  "four_slots u = (if length (channel u) < 4 then Permit else NoRoom)"

definition crowded_run :: upload_run where
  "crowded_run = run_steps upload_step (start_run ''b'' ''k'' 6 1)
     [Write four_slots ''abcdef'', Write four_slots ''bcdef'', Write four_slots ''cdef'',
      Write four_slots ''def'', Write four_slots ''ef'', Receive]"

theorem memory_bound_witness:
  "chunks_in_memory crowded_run = [''a'', ''b'', ''c'', ''d'', ''e'', []]
   \<and> length (chunks_in_memory crowded_run) \<le> 7"
proof -
  have "room_below (n + 4) four_slots" for n by (auto simp: room_below_def four_slots_def)
  then have "length (chunks_in_memory crowded_run) \<le> 7"
    using memory_bound [OF _ crowded_run_def]
    by (simp add: UPLOAD_CHANNEL_CAPACITY_def del: upload_step.simps)
  moreover have "chunks_in_memory crowded_run = [''a'', ''b'', ''c'', ''d'', ''e'', []]" by code_simp
  ultimately show ?thesis by blast
qed

text \<open>
  C11: a producer that writes exactly the declared number of bytes with
  \<open>write_all\<close> and then shuts the writer down succeeds when the channel has room, and the
  request then has exactly those bytes and \<open>short_body_error\<close> finds nothing wrong.
\<close>

theorem write_all_then_shutdown:
  assumes "length data < 2 ^ 64"
  shows "\<exists>u1 u2. write_all (poll_write always_room) data (new_upload b k (of_nat (length data)) csize)
      = (AllWritten, [], u1)
    \<and> poll_shutdown always_room u1 = (Ready (Inr ()), u2)
    \<and> concat (channel u2) = data \<and> short_body_error (state u2) = None"
proof -
  let ?u = "new_upload b k (of_nat (length data)) csize"
  have wf: "upload_wf ?u" by (rule new_upload_wf)
  have len: "unat (of_nat (length data) :: u64) = length data"
    using assms by (simp add: unat_of_nat_no_wrap)
  have "owed ?u = length data"
    by (simp add: owed_def new_upload_def new_state_def len)
  then obtain u1 where all: "write_all (poll_write always_room) data ?u = (AllWritten, [], u1)"
    using ready_writer.write_all_total [OF wf, of data] by auto
  have w: "upload_wf u1" "stream_of u1 = data"
    using writer_sink.write_all_written [OF wf all]
    by (simp_all add: new_upload_def stream_of_def held_def)
  have "open_for (of_nat (length data)) ?u" by (simp add: open_for_def new_upload_def new_state_def)
  then have open1: "sender (writer u1)" "\<not> upload_ended (state u1)"
    "st_content_length (state u1) = of_nat (length data)"
    using write_all_open_for [OF _ _ _ wf _ all] by (auto simp: open_for_def)
  obtain u2 where sh: "poll_shutdown always_room u1 = (Ready (Inr ()), u2)"
    using poll_shutdown_ready [OF w(1) open1(2)] by blast
  note ok = poll_shutdown_ok [OF w(1) open1(1) sh]
  have "unat (sent (state u2)) = length data"
    using ok(1,2) w(2) by (simp add: upload_wf_def counts_wf_def)
  then have "sent (state u2) = st_content_length (state u2)"
    using ok(6) open1(3) len by (simp add: same_upload_def word_unat_eq_iff)
  then show ?thesis using all sh ok(2) w(2) by (simp add: short_body_error_def)
qed


theorem write_all_then_shutdown_witness:
  "\<exists>u1 u2. write_all (poll_write always_room) ''abc'' (new_upload ''b'' ''k'' 3 2) = (AllWritten, [], u1)
    \<and> poll_shutdown always_room u1 = (Ready (Inr ()), u2)
    \<and> concat (channel u2) = ''abc'' \<and> short_body_error (state u2) = None"
  using write_all_then_shutdown [of "''abc''" "''b''" "''k''" 2] by simp

text \<open>
  Driving the writer with \<open>write_all\<close> across a \<open>Pending\<close> neither loses nor
  repeats a byte: what the writer accounts for, followed by what the loop still has to
  write, is what it accounted for before followed by the whole buffer.
\<close>

lemma write_all_resumes:
  assumes "upload_wf u" and "write_all (poll_write reserve) buf u = (Waiting, rest, u')"
  shows "upload_wf u' \<and> stream_of u' @ rest = stream_of u @ buf"
  using assms by (rule writer_sink.write_all_waiting)

lemma write_all_resumes_example:
  "let (a, rest, u') = write_all (poll_write (\<lambda>u. if channel u = [] then Permit else NoRoom)) ''abcdefg''
     (new_upload ''b'' ''k'' 7 2)
   in a = Waiting \<and> rest = ''efg'' \<and> stream_of u' @ rest = ''abcdefg''"
proof -
  let ?r = "\<lambda>u. if channel u = [] then Permit else NoRoom"
  let ?w = "write_all (poll_write ?r) ''abcdefg'' (new_upload ''b'' ''k'' 7 2)"
  have "fst ?w = Waiting \<and> fst (snd ?w) = ''efg''" by code_simp
  then obtain u' where u': "?w = (Waiting, ''efg'', u')" by (metis prod.collapse)
  have "stream_of (new_upload ''b'' ''k'' 7 2) = []"
    by (simp add: new_upload_def stream_of_def held_def)
  with write_all_resumes [OF new_upload_wf u'] show ?thesis by (simp add: u')
qed

text \<open>
  C12: once every declared byte has been taken, a non-empty write is never \<open>Ok\<close>, in any state
  of the writer and for any answer of the channel. It waits for the send in flight and changes
  nothing; or it is refused, with \<open>InvalidInput\<close> while the writer is open and the upload
  lives, else with \<open>BrokenPipe\<close>. No refused byte is counted or enters the body: the body is
  what it was, of which a dead upload may have lost the chunk in flight; with no send in
  flight nothing changes at all.
\<close>

theorem write_past_the_end:
  assumes "upload_wf u" and "accepted (state u) = st_content_length (state u)" and "buf \<noteq> []"
  shows "case poll_write reserve buf u of
      (Pending, u') \<Rightarrow> u' = u \<and> w_pending (writer u) \<noteq> None
    | (Ready (Inr n), u') \<Rightarrow> False
    | (Ready (Inl e), u') \<Rightarrow>
        io_error_kind_of e =
          (if sender (writer u) \<and> \<not> upload_ended (state u') then InvalidInput else BrokenPipe)
        \<and> accepted (state u') = accepted (state u)
        \<and> (if upload_ended (state u') then prefix (stream_of u') (stream_of u)
           else stream_of u' = stream_of u)
        \<and> (if w_pending (writer u) = None then u' = u else True)"
proof (cases rule: poll_write_cases [OF assms(1), where reserve = reserve and buf = buf])
  case 1
  then show ?thesis
    by (cases reserve u rule: poll_pending_cases) auto
next
  case (2 u0)
  note err = poll_pending_err [OF assms(1) 2(2)]
  have "w_pending (writer u) \<noteq> None" using 2(2) by (cases "w_pending (writer u)") (simp_all add: poll_pending_def)
  then show ?thesis using err 2(1) by (auto simp: kept_by_send_def)
next
  case (3 u0 r)
  note ok = poll_pending_ok [OF assms(1) 3(1)]
  have "u0 = u" if "w_pending (writer u) = None" using 3(1) that by (simp add: poll_pending_def)
  then show ?thesis using 3 ok assms(3) by (auto simp: kept_by_send_def)
next
  case (4 u0)
  note ok = poll_pending_ok [OF assms(1) 4(1)]
  then have "st_content_length (state u0) - accepted (state u0) = 0"
    using assms(2) by (simp add: kept_by_send_def same_upload_def)
  then show ?thesis using 4(6) by simp
qed

theorem write_past_the_end_witness:
  "\<exists>e. poll_write always_room ''x'' (new_upload ''b'' ''k'' 0 2) = (Ready (Inl e), new_upload ''b'' ''k'' 0 2)
     \<and> io_error_kind_of e = InvalidInput"
proof -
  let ?u = "new_upload ''b'' ''k'' 0 2"
  have "accepted (state ?u) = st_content_length (state ?u)" "w_pending (writer ?u) = None"
    "sender (writer ?u)" "\<not> upload_ended (state ?u)"
    by (simp_all add: new_upload_def new_state_def)
  with write_past_the_end [OF new_upload_wf this(1), of "''x''" always_room] show ?thesis
    by (auto split: prod.splits poll.splits sum.splits)
qed

lemma write_refused_over:
  assumes wf: "upload_wf u" and open_: "sender (writer u)" and over: "upload_ended (state u)"
    and buf: "buf \<noteq> []" and res: "poll_write reserve buf u = (Ready r, u')"
  shows "\<exists>e. r = Inl e \<and> io_error_kind_of e = BrokenPipe"
proof (cases rule: poll_write_cases [OF wf, where reserve = reserve and buf = buf])
  case (4 u0)
  then show ?thesis using poll_pending_ok(5) [OF wf 4(1)] over by simp
qed (use res open_ over buf in auto)

lemma flush_refused_over:
  assumes "upload_wf u" "upload_ended (state u)" "poll_flush reserve u = (Ready r, u')"
  shows "\<exists>e. r = Inl e \<and> io_error_kind_of e = BrokenPipe"
  using assms poll_flush_ok(5) [OF assms(1)] poll_flush_err(4) [OF assms(1)]
  by (cases r) blast+

lemma shutdown_refused_over:
  assumes "upload_wf u" "sender (writer u)" "upload_ended (state u)"
    "poll_shutdown reserve u = (Ready r, u')"
  shows "\<exists>e. r = Inl e \<and> io_error_kind_of e = BrokenPipe"
  using flush_refused_over [OF assms(1,3)] poll_flush_ok(5) [OF assms(1)] assms(3)
  by (cases rule: poll_shutdown_flush [OF assms(2,4)]) auto

text \<open>
  C13: once the upload is known to be over, no byte is taken any more: a non-empty write, a
  flush and a shutdown of an open writer that are ready all fail with \<open>BrokenPipe\<close>.
\<close>

theorem refused_after_upload_ended:
  assumes "upload_wf u" and "sender (writer u)" and "upload_ended (state u)" and "buf \<noteq> []"
  shows "(\<forall>r u'. poll_write reserve buf u = (Ready r, u') \<longrightarrow>
            (\<exists>e. r = Inl e \<and> io_error_kind_of e = BrokenPipe))
    \<and> (\<forall>r u'. poll_flush reserve u = (Ready r, u') \<longrightarrow>
            (\<exists>e. r = Inl e \<and> io_error_kind_of e = BrokenPipe))
    \<and> (\<forall>r u'. poll_shutdown reserve u = (Ready r, u') \<longrightarrow>
            (\<exists>e. r = Inl e \<and> io_error_kind_of e = BrokenPipe))"
  using assms write_refused_over flush_refused_over shutdown_refused_over by blast

theorem refused_after_upload_ended_witness:
  "fst (poll_shutdown always_room ((new_upload ''b'' ''k'' 3 2)\<lparr>state := mark_upload_ended (new_state 3)\<rparr>))
   \<noteq> Ready (Inr ())"
proof -
  let ?u = "(new_upload ''b'' ''k'' 3 2)\<lparr>state := mark_upload_ended (new_state 3)\<rparr>"
  have "state (new_upload ''b'' ''k'' 3 2) = new_state 3" by (simp add: new_upload_def)
  then have wf: "upload_wf ?u" using mark_upload_ended_wf [OF new_upload_wf, of "''b''" "''k''" 3 2] by simp
  have "sender (writer ?u)" "upload_ended (state ?u)"
    by (simp_all add: new_upload_def mark_upload_ended_def)
  from refused_after_upload_ended [OF wf this, of "''x''" always_room] show ?thesis
    by (metis (no_types, lifting) list.distinct(1) old.sum.distinct(2) prod.collapse)
qed


text \<open>
  The abstract body: a limit, the bytes taken so far, how many of them the request has been
  given, whether more may come, and whether the upload lives. \<open>body_step\<close> is every answer a
  call may get and what the body is afterwards.
\<close>

record body_spec =
  spec_limit :: nat
  spec_bytes :: bytes
  spec_out :: bytes
  spec_open :: bool
  spec_alive :: bool

datatype body_call = OfferBytes bytes | FlushBody | CloseBody

datatype body_answer = NotYet | Took nat | Finished | Refused io_error_kind

text \<open>More of what was taken may have gone out.\<close>

definition goes_out :: "body_spec \<Rightarrow> bytes \<Rightarrow> bool" where
  "goes_out a out \<longleftrightarrow> prefix (spec_out a) out \<and> prefix out (spec_bytes a)"

inductive body_step :: "body_spec \<Rightarrow> body_call \<Rightarrow> body_answer \<Rightarrow> body_spec \<Rightarrow> bool" where
  waits: "spec_open a \<Longrightarrow> body_step a c NotYet a"
| empty_offer: "goes_out a out \<Longrightarrow> body_step a (OfferBytes []) (Took 0) (a\<lparr>spec_out := out\<rparr>)"
| takes: "spec_open a \<Longrightarrow> spec_alive a \<Longrightarrow> 0 < n \<Longrightarrow> n \<le> length buf \<Longrightarrow>
    length (spec_bytes a) + n \<le> spec_limit a \<Longrightarrow>
    goes_out (a\<lparr>spec_bytes := spec_bytes a @ take n buf\<rparr>) out \<Longrightarrow>
    body_step a (OfferBytes buf) (Took n) (a\<lparr>spec_bytes := spec_bytes a @ take n buf, spec_out := out\<rparr>)"
| too_much: "spec_open a \<Longrightarrow> spec_alive a \<Longrightarrow> buf \<noteq> [] \<Longrightarrow> length (spec_bytes a) = spec_limit a \<Longrightarrow>
    goes_out a out \<Longrightarrow> body_step a (OfferBytes buf) (Refused InvalidInput) (a\<lparr>spec_out := out\<rparr>)"
| closed: "\<not> spec_open a \<Longrightarrow> buf \<noteq> [] \<Longrightarrow> body_step a (OfferBytes buf) (Refused BrokenPipe) a"
| flushed: "spec_alive a \<Longrightarrow> body_step a FlushBody Finished (a\<lparr>spec_out := spec_bytes a\<rparr>)"
| closes: "spec_open a \<Longrightarrow> spec_alive a \<Longrightarrow>
    body_step a CloseBody Finished (a\<lparr>spec_out := spec_bytes a, spec_open := False\<rparr>)"
| closed_before: "\<not> spec_open a \<Longrightarrow> body_step a CloseBody Finished a"
| dies: "spec_open a \<Longrightarrow> goes_out a out \<Longrightarrow>
    body_step a c (Refused BrokenPipe) (a\<lparr>spec_bytes := out, spec_out := out, spec_alive := False\<rparr>)"
| dead: "\<not> spec_alive a \<Longrightarrow> c \<noteq> OfferBytes [] \<Longrightarrow> spec_open a \<or> c = FlushBody \<Longrightarrow> goes_out a out \<Longrightarrow>
    body_step a c (Refused BrokenPipe) (a\<lparr>spec_out := out\<rparr>)"

text \<open>What the environment does to the body: the writer is dropped, the upload ends.\<close>

definition spec_drop :: "body_spec \<Rightarrow> body_spec" where
  "spec_drop a = a\<lparr>spec_bytes := spec_out a, spec_open := False\<rparr>"

definition spec_die :: "body_spec \<Rightarrow> body_spec" where
  "spec_die a = a\<lparr>spec_alive := False\<rparr>"

definition body_of :: "upload \<Rightarrow> body_spec" where
  "body_of u = \<lparr>spec_limit = unat (st_content_length (state u)), spec_bytes = stream_of u,
                spec_out = concat (channel u), spec_open = sender (writer u),
                spec_alive = (\<not> upload_ended (state u))\<rparr>"

definition empty_body :: "nat \<Rightarrow> body_spec" where
  "empty_body limit =
     \<lparr>spec_limit = limit, spec_bytes = [], spec_out = [], spec_open = True, spec_alive = True\<rparr>"

fun write_answer :: "(nat, io_error) result poll \<Rightarrow> body_answer" where
  "write_answer Pending = NotYet"
| "write_answer (Ready (Inr n)) = Took n"
| "write_answer (Ready (Inl e)) = Refused (io_error_kind_of e)"

fun unit_answer :: "(unit, io_error) result poll \<Rightarrow> body_answer" where
  "unit_answer Pending = NotYet"
| "unit_answer (Ready (Inr _)) = Finished"
| "unit_answer (Ready (Inl e)) = Refused (io_error_kind_of e)"

inductive_cases body_closedE: "body_step a (OfferBytes buf) (Took n) a'"

text \<open>Nothing is taken into a body that is closed or whose upload is dead.\<close>

lemma body_step_closed:
  "body_step a (OfferBytes buf) (Took n) a' \<Longrightarrow> \<not> spec_open a \<or> \<not> spec_alive a \<Longrightarrow>
   n = 0 \<and> spec_bytes a' = spec_bytes a"
  by (erule body_closedE) auto

subsection \<open>The writer implements it\<close>

lemma body_of_sel [simp]:
  "spec_limit (body_of u) = unat (st_content_length (state u))" "spec_bytes (body_of u) = stream_of u"
  "spec_out (body_of u) = concat (channel u)" "spec_open (body_of u) = sender (writer u)"
  "spec_alive (body_of u) = (\<not> upload_ended (state u))"
  by (simp_all add: body_of_def)

lemma body_of_eqI:
  assumes "same_upload u u'" "stream_of u' = bs" "concat (channel u') = out"
    "sender (writer u') = op" "upload_ended (state u') = (\<not> al)"
  shows "body_of u' = (body_of u)\<lparr>spec_bytes := bs, spec_out := out, spec_open := op, spec_alive := al\<rparr>"
  using assms by (simp add: body_of_def same_upload_def)

lemma out_grows:
  "same_upload u u' \<Longrightarrow> prefix (concat (channel u)) (concat (channel u'))"
  by (auto simp: same_upload_def prefix_def)

lemma out_is_taken: "prefix (concat (channel u)) (stream_of u)"
  by (simp add: stream_of_def)

text \<open>Polling the send in flight, on the side of the body.\<close>

lemma pending_body:
  assumes wf: "upload_wf u" and p: "poll_pending reserve u = (Ready (Inr ()), u0)"
  shows "goes_out (body_of u) (concat (channel u0))"
    "body_of u0 = (body_of u)\<lparr>spec_out := concat (channel u0)\<rparr>"
proof -
  note ok = poll_pending_ok [OF wf p]
  have same: "same_upload u u0" "sender (writer u0) = sender (writer u)"
    using ok(2) by (simp_all add: kept_by_send_def)
  show "goes_out (body_of u) (concat (channel u0))"
    using out_grows [OF same(1)] out_is_taken [of u0] ok(3) by (simp add: goes_out_def)
  show "body_of u0 = (body_of u)\<lparr>spec_out := concat (channel u0)\<rparr>"
    using same ok by (simp add: body_of_def same_upload_def)
qed

lemma pending_open:
  assumes "upload_wf u" "\<not> sender (writer u)"
  shows "poll_pending reserve u = (Ready (Inr ()), u)"
  using assms by (simp add: upload_wf_def flags_wf_def poll_pending_def)

lemma pending_lost_body:
  assumes wf: "upload_wf u" and p: "poll_pending reserve u = (Ready (Inl e), u0)"
  shows "body_step (body_of u) c (Refused BrokenPipe) (body_of u0)"
proof -
  note err = poll_pending_err [OF wf p]
  have "sender (writer u)" using pending_open [OF wf, of reserve] p by fastforce
  moreover have "body_of u0 = (body_of u)\<lparr>spec_bytes := concat (channel u0), spec_out := concat (channel u0),
      spec_alive := False\<rparr>"
    using err by (simp add: body_of_def kept_by_send_def same_upload_def stream_of_def)
  moreover have "goes_out (body_of u) (concat (channel u0))"
    using err(7) out_is_taken [of u] by (simp add: goes_out_def)
  ultimately show ?thesis by (simp add: body_step.dies)
qed

lemma full_stream:
  assumes "upload_wf u" "sender (writer u)" "\<not> upload_ended (state u)"
    "accepted (state u) = st_content_length (state u)"
  shows "length (stream_of u) = unat (st_content_length (state u))"
  using assms by (simp add: upload_wf_def counts_wf_def)

lemma write_body:
  assumes wf: "upload_wf u" and res: "poll_write reserve buf u = (r, u')"
  shows "body_step (body_of u) (OfferBytes buf) (write_answer r) (body_of u')"
proof (cases rule: poll_write_cases [OF wf, where reserve = reserve and buf = buf])
  case 1
  then have "sender (writer u)" using pending_open [OF wf, of reserve] by fastforce
  then show ?thesis using 1 res by (simp add: body_step.waits)
next
  case (2 u0)
  then show ?thesis using pending_lost_body [OF wf 2(2)] res by simp
next
  case (3 u0 q)
  note p = pending_body [OF wf 3(1)]
  have u': "u' = u0" "r = Ready q" using 3(2) res by auto
  have closed: "u0 = u" if "\<not> sender (writer u)" using pending_open [OF wf that, of reserve] 3(1) by simp
  note steps = body_step.empty_offer [OF p(1)] body_step.too_much [OF _ _ _ _ p(1), of buf]
    body_step.dead [OF _ _ _ p(1), of "OfferBytes buf"]
  from 3(3) show ?thesis
    unfolding u' using steps [folded p(2)] closed full_stream [OF wf] body_step.closed [of "body_of u" buf]
    by auto
next
  case (4 u0)
  note ok = poll_pending_ok [OF wf 4(1)] and p = pending_body [OF wf 4(1)]
  have kept: "same_upload u u0" "sender (writer u)"
    using ok(2) 4(4) by (simp_all add: kept_by_send_def full_wf_def)
  have t: "take_bytes reserve buf u0 = (r, u')" using 4(2) res by simp
  note took = took_take_amount [OF 4(4,5) t, unfolded took_def open_as_before_def]
  then have same: "same_upload u u'" using kept(1) by (blast intro: same_upload_trans)
  consider (ok) n where "r = Ready (Inr n)" | (err) e where "r = Ready (Inl e)"
    by (cases reserve buf rule: take_bytes_cases [OF 4(4,5)]) (use t in auto)
  then show ?thesis
  proof cases
    case (ok n)
    note k = take_bytes_ok [OF 4(4,5) t [unfolded ok]]
    have n: "0 < n" "n \<le> length buf"
      using k(1) take_amount_pos [OF \<open>upload_wf u0\<close> 4(3,6)] take_amount_bounds(1) by simp_all
    have stream: "stream_of u' = stream_of u @ take n buf"
      using k(3) poll_pending_ok(3) [OF wf 4(1)] by simp
    have "body_of u' = (body_of u)\<lparr>spec_bytes := spec_bytes (body_of u) @ take n buf,
        spec_out := concat (channel u')\<rparr>"
      using body_of_eqI [OF same stream refl] took kept(2) 4(5) k(4) ok
        poll_pending_ok(5) [OF wf 4(1)] poll_pending_ok(2) [OF wf 4(1)]
      by (simp add: body_of_def kept_by_send_def)
    moreover have "length (stream_of u) + n \<le> unat (st_content_length (state u))"
    proof -
      have "length (stream_of u') \<le> unat (st_content_length (state u'))"
        using k(2) by (simp add: upload_wf_def counts_wf_def)
      then show ?thesis using stream n(2) same by (simp add: same_upload_def)
    qed
    moreover have "goes_out ((body_of u)\<lparr>spec_bytes := spec_bytes (body_of u) @ take n buf\<rparr>) (concat (channel u'))"
      using out_grows [OF same] out_is_taken [of u'] stream by (simp add: goes_out_def)
    ultimately show ?thesis
      using ok n kept(2) 4(5) poll_pending_ok(5) [OF wf 4(1)] body_step.takes [of "body_of u" n buf] by simp
  next
    case (err e)
    note k = take_bytes_err [OF 4(4,5) t [unfolded err]]
    have out: "stream_of u' = concat (channel u')" using k(5) by (simp add: stream_of_def)
    have "body_of u' = (body_of u)\<lparr>spec_bytes := concat (channel u'), spec_out := concat (channel u'),
        spec_alive := False\<rparr>"
      using body_of_eqI [OF same out refl refl, of False] k(2) took kept poll_pending_ok(2) [OF wf 4(1)]
      by (simp add: body_of_def kept_by_send_def)
    moreover have "goes_out (body_of u) (concat (channel u'))"
      using out_grows [OF same] k(3) poll_pending_ok(3) [OF wf 4(1)] out by (simp add: goes_out_def)
    ultimately show ?thesis using err k(4) kept(2) by (simp add: body_step.dies)
  qed
qed

lemma flush_body:
  assumes wf: "upload_wf u" and res: "poll_flush reserve u = (r, u')"
  shows "body_step (body_of u) FlushBody (unit_answer r) (body_of u')"
proof -
  have kept: "same_upload u u'" "sender (writer u') = sender (writer u)"
    using poll_flush_kept [OF wf res] by (simp_all add: kept_by_flush_def open_as_before_def)
  note out = out_grows [OF kept(1)]
  consider (waits) "r = Pending" | (ready) "r = Ready (Inr ())" | (err) e where "r = Ready (Inl e)"
    by (metis old.sum.exhaust old.unit.exhaust poll.exhaust)
  then show ?thesis
  proof cases
    case waits
    note k = poll_flush_Pending [OF wf res [unfolded waits]]
    have "sender (writer u)" using k(1,3) kept(2) by (auto simp: upload_wf_def flags_wf_def)
    moreover have "body_of u' = body_of u" using k kept by (simp add: body_of_def same_upload_def)
    ultimately show ?thesis using waits by (simp add: body_step.waits)
  next
    case ready
    note k = poll_flush_ok [OF wf res [unfolded ready]]
    have "concat (channel u') = stream_of u" using k(2,3) by (simp add: stream_of_def)
    then have "body_of u' = (body_of u)\<lparr>spec_out := spec_bytes (body_of u)\<rparr>"
      using k kept by (simp add: body_of_def same_upload_def)
    then show ?thesis using ready k(5) body_step.flushed [of "body_of u"] by simp
  next
    case (err e)
    note k = poll_flush_err [OF wf res [unfolded err]]
    have goes: "goes_out (body_of u) (concat (channel u'))"
      using out k(2) out_is_taken [of u'] by (auto simp: goes_out_def intro: prefix_order.trans)
    show ?thesis
    proof (cases "upload_ended (state u) \<and> stream_of u' = stream_of u")
      case True
      then have "body_of u' = (body_of u)\<lparr>spec_out := concat (channel u')\<rparr>"
        using k(3) kept by (simp add: body_of_def same_upload_def)
      then show ?thesis using goes True err k(4) by (simp add: body_step.dead)
    next
      case False
      then have lost: "held u' = []" using k(5) by blast
      have "sender (writer u)"
      proof (rule ccontr)
        assume "\<not> sender (writer u)"
        then have "held u = []" "poll_pending reserve u = (Ready (Inr ()), u)"
          using wf pending_open by (auto simp: upload_wf_def flags_wf_def)
        then show False using res err False
          by (auto simp: poll_flush_def held_nil upload_is_gone_def stream_of_def held_def split: if_splits option.splits)
      qed
      moreover have "body_of u' = (body_of u)\<lparr>spec_bytes := concat (channel u'), spec_out := concat (channel u'),
          spec_alive := False\<rparr>"
        using lost k(3) kept by (simp add: body_of_def same_upload_def stream_of_def)
      ultimately show ?thesis using goes err k(4) by (simp add: body_step.dies)
    qed
  qed
qed

lemma unfinished_flush_closes:
  "body_step a FlushBody r a' \<Longrightarrow> r \<noteq> Finished \<Longrightarrow> spec_open a \<Longrightarrow> body_step a CloseBody r a'"
  by (erule body_step.cases) (auto intro: body_step.waits body_step.dies body_step.dead)

lemma shutdown_body:
  assumes wf: "upload_wf u" and res: "poll_shutdown reserve u = (r, u')"
  shows "body_step (body_of u) CloseBody (unit_answer r) (body_of u')"
proof (cases "sender (writer u)")
  case False
  then show ?thesis using res by (auto simp: poll_shutdown_def body_step.closed_before)
next
  case True
  from True res show ?thesis
  proof (cases rule: poll_shutdown_flush)
    case (flushed x u0)
    note k = poll_shutdown_ok [OF wf True, of reserve "()" u']
    have sh: "poll_shutdown reserve u = (Ready (Inr ()), u')" using res flushed(1) by simp
    note k = poll_shutdown_ok [OF wf True sh]
    have "upload_ended (state u') = upload_ended (state u0)" using flushed(3) by (simp add: mark_body_ended_def)
    then have "\<not> upload_ended (state u')" using poll_flush_ok(6) [OF wf flushed(2)] by simp
    then have "body_of u' = (body_of u)\<lparr>spec_out := spec_bytes (body_of u), spec_open := False\<rparr>"
      using k by (simp add: body_of_def same_upload_def)
    then show ?thesis using flushed(1) k(9) True body_step.closes [of "body_of u"] by simp
  next
    case other
    then have "unit_answer r \<noteq> Finished" by auto
    with unfinished_flush_closes [OF flush_body [OF wf other(1)]] True show ?thesis by simp
  qed
qed

text \<open>
  C14: the writer implements the abstract body. In every state a run can reach, each poll of a
  write, a flush or a shutdown, whatever it answers (\<open>Pending\<close>, \<open>Ok\<close> or an error) and whatever
  the channel says, is a step the body allows; dropping the writer cuts the body to what has
  gone out and closes it; the end of the upload kills it. At the start the body is empty; what
  has gone out is always a prefix of what was taken, which never outgrows the limit, and of a
  closed body everything has.
\<close>

theorem writer_refines_body:
  "let u = up (run_steps upload_step (start_run b k len csize) es);
       (w, u1) = poll_write reserve buf u; (f, u2) = poll_flush reserve u; (s, u3) = poll_shutdown reserve u
   in body_step (body_of u) (OfferBytes buf) (write_answer w) (body_of u1)
      \<and> body_step (body_of u) FlushBody (unit_answer f) (body_of u2)
      \<and> body_step (body_of u) CloseBody (unit_answer s) (body_of u3)
      \<and> body_of (drop_writer u) = spec_drop (body_of u)
      \<and> body_of (u\<lparr>state := mark_upload_ended (state u)\<rparr>) = spec_die (body_of u)
      \<and> body_of (new_upload b k len csize) = empty_body (unat len)
      \<and> prefix (spec_out (body_of u)) (spec_bytes (body_of u))
      \<and> length (spec_bytes (body_of u)) \<le> unat len
      \<and> (spec_open (body_of u) \<or> spec_out (body_of u) = spec_bytes (body_of u))"
proof -
  let ?u = "up (run_steps upload_step (start_run b k len csize) es)"
  note run = run_ofD [OF reachable_run_of [of b k len csize es]]
  note wf = run(1)
  have "body_of (drop_writer ?u) = spec_drop (body_of ?u)"
    by (simp add: body_of_def spec_drop_def drop_writer_def Let_def stream_of_def held_def mark_body_ended_def)
  moreover have "body_of (?u\<lparr>state := mark_upload_ended (state ?u)\<rparr>) = spec_die (body_of ?u)"
    by (simp add: body_of_def spec_die_def mark_upload_ended_def stream_of_def held_def)
  moreover have "body_of (new_upload b k len csize) = empty_body (unat len)"
    by (simp add: body_of_def empty_body_def new_upload_def new_state_def stream_of_def held_def)
  moreover have "length (stream_of ?u) \<le> unat len" "sender (writer ?u) \<or> concat (channel ?u) = stream_of ?u"
    using wf run(3) by (auto simp: upload_wf_def counts_wf_def flags_wf_def stream_of_def)
  ultimately show ?thesis
    using write_body [OF wf, of reserve buf] flush_body [OF wf, of reserve] shutdown_body [OF wf, of reserve]
      out_is_taken [of ?u]
    by (simp add: Let_def prod.case_eq_if)
qed

text \<open>
  C15: an upload that waits for its body before it opens a connection (\<open>start_upload\<close>)
  is never left waiting: in every state a run can reach, once a chunk is in the channel or
  in flight, or the writer is shut down or dropped, \<open>body_started\<close> has been signalled, and a
  dropped or shut down writer has recorded the end of the body.
\<close>

theorem request_is_released:
  "let u = up (run_steps upload_step (start_run b k len csize) es)
   in (body_started (state u) \<or> channel u = [] \<and> w_pending (writer u) = None \<and> sender (writer u))
      \<and> (body_ended (state u) \<longleftrightarrow> \<not> sender (writer u))"
  using run_ofD(1) [OF reachable_run_of [of b k len csize es]]
  by (auto simp: Let_def upload_wf_def flags_wf_def)

end
