(* ===== verification/Upload_Handle.thy ===== *)
theory Upload_Handle
  imports Upload_Runs
begin

text \<open>
  \<^verbatim>\<open>src/upload_handle.rs\<close>, and \<open>finish_upload_with_writer\<close> of \<^verbatim>\<open>src/s3_client.rs\<close>, which settles
  an upload the same way. The locale \<open>settled_upload\<close> is what the two share: the verdict is
  \<open>settle\<close> applied to a body failure that a short body always causes; the consequences are
  proved once.

  A \<open>JoinError\<close> (tokio) is only ever printed, so it is its \<open>Display\<close> text. What the task
  of \<open>start_upload\<close> does when it is polled is in \<open>Started_Uploads\<close>; here is what its
  \<open>JoinHandle\<close> shows of it.
\<close>

section \<open>Definitions\<close>

text \<open>
  The handle shares the \<open>UploadWriterState\<close> with the writer; its operations take it as an
  argument. The \<open>JoinHandle\<close> is the task below.
\<close>

record S3UploadHandle =
  h_bucket_name :: bytes
  h_key :: bytes

definition new_handle :: "bytes \<Rightarrow> bytes \<Rightarrow> S3UploadHandle" where
  "new_handle bucket k = \<lparr>h_bucket_name = bucket, h_key = k\<rparr>"

definition bytes_sent :: "UploadWriterState \<Rightarrow> u64" where
  "bytes_sent st = sent st"

definition finish ::
  "S3UploadHandle \<Rightarrow> UploadWriterState \<Rightarrow> ((unit, S3Error) result, bytes) result
   \<Rightarrow> (unit, S3Error) result"
where
  "finish h st joined =
     (case joined of
        Inl join_error \<Rightarrow>
          Inl (Other (''the upload task for '' @ h_bucket_name h @ ''/'' @ h_key h
                      @ '' did not finish: '' @ join_error))
      | Inr upload_result \<Rightarrow>
          (let body_failure =
             (case (upload_result, body_ended st) of
                (Inr _, _) \<Rightarrow> short_body_error st
              | (Inl _, True) \<Rightarrow> short_body_error st
              | (Inl _, False) \<Rightarrow> None)
           in settle st upload_result body_failure))"

definition finish_upload_with_writer ::
  "(unit, S3Error) result \<Rightarrow> ((unit, io_error) result, bytes) result \<Rightarrow> UploadWriterState
   \<Rightarrow> (unit, S3Error) result"
where
  "finish_upload_with_writer upload_result produce_result st =
     (let body_failure =
        (case produce_result of
           Inl join_error \<Rightarrow>
             Some (IoMessage OtherKind (''the upload body producer did not finish: '' @ join_error))
         | Inr (Inl err) \<Rightarrow> Some err
         | Inr (Inr _) \<Rightarrow> short_body_error st)
      in settle st upload_result body_failure)"

text \<open>
  The task of \<open>start_upload\<close>, by the await it stands at, and whether its \<open>abort\<close> has been
  called. \<open>abort\<close> only schedules: the stage changes when the runtime next gets to the task.
  \<open>'w\<close> is the world the request was started in.
\<close>

datatype 'w task_stage =
    AwaitingBody                           \<comment> \<open>\<open>task_state.body_started().await\<close>\<close>
  | Requesting 'w                          \<comment> \<open>\<open>client.upload_streamed(...).await\<close>\<close>
  | TaskEnded "(unit, S3Error) result"
  | TaskAborted

record 'w upload_task =
  stage :: "'w task_stage"
  abort_scheduled :: bool

definition is_finished :: "'w upload_task \<Rightarrow> bool" where
  "is_finished task = (case stage task of TaskEnded _ \<Rightarrow> True | TaskAborted \<Rightarrow> True | _ \<Rightarrow> False)"

definition abort :: "'w upload_task \<Rightarrow> 'w upload_task" where
  "abort task = task\<lparr>abort_scheduled := True\<rparr>"

text \<open>\<open>Drop\<close>: the end of the upload is recorded first, then the task is aborted.\<close>

definition drop_handle :: "UploadWriterState \<Rightarrow> 'w upload_task \<Rightarrow> UploadWriterState \<times> 'w upload_task" where
  "drop_handle st task =
     (if is_finished task then (st, task) else (mark_upload_ended st, abort task))"

definition handle_debug :: "S3UploadHandle \<Rightarrow> UploadWriterState \<Rightarrow> 'w upload_task \<Rightarrow> debug_struct" where
  "handle_debug h st task =
     (''S3UploadHandle'',
      [(''bucket_name'', DebugStr (h_bucket_name h)), (''key'', DebugStr (h_key h)),
       (''content_length'', DebugNum (unat (st_content_length st))),
       (''bytes_sent'', DebugNum (unat (bytes_sent st))),
       (''finished'', DebugBool (is_finished task))])"

section \<open>Interface: an upload settled by its two halves\<close>

locale settled_upload =
  fixes verdict :: "'b \<Rightarrow> UploadWriterState \<Rightarrow> (unit, S3Error) result \<Rightarrow> (unit, S3Error) result"
    and failure :: "'b \<Rightarrow> UploadWriterState \<Rightarrow> (unit, S3Error) result \<Rightarrow> io_error option"
  assumes verdict_settles: "verdict b st r = settle st r (failure b st r)"
    and short_body_fails: "failure b st (Inr ()) = None \<Longrightarrow> short_body_error st = None"
begin

lemma verdict_ok: "verdict b st r = Inr () \<longleftrightarrow> r = Inr () \<and> failure b st (Inr ()) = None"
  by (cases r; cases "failure b st r") (auto simp: verdict_settles settle_def)

lemma ok_all_sent: "verdict b st r = Inr () \<Longrightarrow> r = Inr () \<and> st_content_length st \<le> sent st"
  using short_body_fails [of b st]
  by (auto simp: verdict_ok short_body_error_def Let_def split: if_splits)

lemma verdict_origin:
  "verdict b st r = Inl e \<Longrightarrow>
   r = Inl e \<or> (\<exists>f. failure b st r = Some f \<and> e = UploadProducerFailed f)"
  by (cases r; cases "failure b st r") (auto simp: verdict_settles settle_def split: if_splits)

lemma upload_died_first: "upload_ended st \<Longrightarrow> verdict b st (Inl e) = Inl e"
  by (cases "failure b st (Inl e)") (auto simp: verdict_settles settle_def)

lemma body_died_first:
  "\<not> upload_ended st \<Longrightarrow> failure b st r = Some f \<Longrightarrow> verdict b st r = Inl (UploadProducerFailed f)"
  by (cases r) (auto simp: verdict_settles settle_def)

end

definition finish_failure :: "UploadWriterState \<Rightarrow> (unit, S3Error) result \<Rightarrow> io_error option" where
  "finish_failure st r = (if r = Inr () \<or> body_ended st then short_body_error st else None)"

definition produce_failure ::
  "((unit, io_error) result, bytes) result \<Rightarrow> UploadWriterState \<Rightarrow> io_error option"
where
  "produce_failure p st =
     (case p of
        Inl join_error \<Rightarrow>
          Some (IoMessage OtherKind (''the upload body producer did not finish: '' @ join_error))
      | Inr (Inl err) \<Rightarrow> Some err
      | Inr (Inr _) \<Rightarrow> short_body_error st)"

interpretation by_finish: settled_upload "\<lambda>h st r. finish h st (Inr r)" "\<lambda>h. finish_failure"
proof
  show "finish h st (Inr r) = settle st r (finish_failure st r)" for h st r
    by (cases r) (auto simp: finish_def finish_failure_def Let_def split: bool.split)
  show "finish_failure st (Inr ()) = None \<Longrightarrow> short_body_error st = None" for st
    by (simp add: finish_failure_def)
qed

interpretation by_producer: settled_upload
  "\<lambda>p st r. finish_upload_with_writer r p st" "\<lambda>p st r. produce_failure p st"
proof
  show "finish_upload_with_writer r p st = settle st r (produce_failure p st)" for r p st
    by (simp add: finish_upload_with_writer_def produce_failure_def Let_def)
  show "short_body_error st = None" if "produce_failure p st = None" for p st
    using that by (auto simp: produce_failure_def split: sum.splits)
qed


lemma short_body_error_kind:
  "sent st < st_content_length st \<Longrightarrow>
   \<exists>f. short_body_error st = Some f \<and> io_error_kind_of f = UnexpectedEof"
  by (simp add: short_body_error_def Let_def not_le [symmetric])

section \<open>Properties\<close>

text \<open>
  C18: which error the caller of \<open>finish\<close> sees. A panicked task is reported as such and is
  neither retryable nor blamed on the writer; while the writer is alive, or once it has seen
  the upload die, the error of the upload itself is passed on; a body that ended short on
  its own is the writer's failure, \<open>UnexpectedEof\<close>, and not retryable.
\<close>

theorem finish_blames_the_cause:
  "(case finish h st (Inl join_error) of
      Inl e \<Rightarrow> \<not> is_retryable e \<and> \<not> is_upload_producer_failed e | Inr _ \<Rightarrow> False)
   \<and> (\<not> body_ended st \<or> upload_ended st \<longrightarrow> finish h st (Inr (Inl e)) = Inl e)
   \<and> (body_ended st \<and> \<not> upload_ended st \<and> sent st < st_content_length st \<longrightarrow>
        (\<exists>f. finish h st (Inr (Inl e)) = Inl (UploadProducerFailed f)
           \<and> io_error_kind_of f = UnexpectedEof \<and> \<not> is_retryable (UploadProducerFailed f)))"
proof (intro conjI impI)
  show "case finish h st (Inl join_error) of
      Inl e \<Rightarrow> \<not> is_retryable e \<and> \<not> is_upload_producer_failed e | Inr _ \<Rightarrow> False"
    by (simp add: finish_def is_retryable_iff is_upload_producer_failed_iff)
  show "finish h st (Inr (Inl e)) = Inl e" if "\<not> body_ended st \<or> upload_ended st"
    using that by_finish.upload_died_first [of st h e] by (auto simp: finish_def settle_def)
  show "\<exists>f. finish h st (Inr (Inl e)) = Inl (UploadProducerFailed f)
           \<and> io_error_kind_of f = UnexpectedEof \<and> \<not> is_retryable (UploadProducerFailed f)"
    if short: "body_ended st \<and> \<not> upload_ended st \<and> sent st < st_content_length st"
  proof -
    obtain f where f: "finish_failure st (Inl e) = Some f" "io_error_kind_of f = UnexpectedEof"
      using short short_body_error_kind [of st] by (auto simp: finish_failure_def)
    then show ?thesis
      using short by_finish.body_died_first [of st "Inl e" f h] by (auto simp: upload_producer_failed_not_retryable)
  qed
qed

theorem finish_blames_the_cause_witness:
  "finish (new_handle ''b'' ''k'') (new_state 3) (Inr (Inl KeyNotFound)) = Inl KeyNotFound"
  using finish_blames_the_cause [of "new_handle ''b'' ''k''" "new_state 3" "[]" KeyNotFound]
  by (simp add: new_state_def)

text \<open>
  The two ways of settling an upload agree: when the producer of
  \<open>upload_with_writer\<close> returned \<open>Ok\<close> and the body has ended, its verdict is the one the
  handle's \<open>finish\<close> gives for the same upload.
\<close>

lemma settling_agrees:
  assumes "body_ended st"
  shows "finish_upload_with_writer r (Inr (Inr ())) st = finish h st (Inr r)"
  by (simp add: by_finish.verdict_settles by_producer.verdict_settles assms
      finish_failure_def produce_failure_def)

lemma settling_agrees_example:
  "finish_upload_with_writer (Inr ()) (Inr (Inr ())) (mark_body_ended (new_state 0))
   = finish (new_handle ''b'' ''k'') (mark_body_ended (new_state 0)) (Inr (Inr ()))"
  by (rule settling_agrees) (simp add: mark_body_ended_def)

end
