(* ===== verification/S3_Client.thy ===== *)
theory S3_Client
  imports Sig_V4 List_Objects S3_Reader Upload_Handle
begin

text \<open>
  \<^verbatim>\<open>src/s3_client.rs\<close>: the operations of the client, each as one sequence of building a
  url, signing it, sending it and reading the answer.

  An operation takes the world and gives its result and the world after it: \<open>net\<close> is
  whatever the requests change (its type is a parameter), \<open>console\<close> the lines printed. What is
  not the crate's code is the argument \<open>env\<close>: the url builder, the cryptographic primitives,
  the clock, the two ways of sending a request (plain, and with the text of the request for
  the trace), reading a whole body, reading its next piece, and the XML reader. A streamed
  body is a \<open>Receiver\<close>, of any type \<open>'c\<close>.
\<close>

section \<open>The outside\<close>

datatype http_method = GET | HEAD | DELETE | PUT

datatype 'c request_body =
    NoBody
  | RawData bytes "bytes option"     \<comment> \<open>the payload and its content type\<close>
  | Streamed 'c nat                  \<comment> \<open>the body and its \<open>Content-Length\<close>\<close>

record ('u, 'b, 'c, 'r, 'n) env =
  url_ops :: "'u flurl"
  crypto_ops :: crypto
  clock :: "'n \<Rightarrow> bytes"
  send_request ::
    "http_method \<Rightarrow> 'u \<Rightarrow> 'c request_body \<Rightarrow> 'n \<Rightarrow> ('b fl_url_response, fl_url_error) result \<times> 'n"
  send_request_with_debug ::
    "http_method \<Rightarrow> 'u \<Rightarrow> 'c request_body \<Rightarrow> 'n
     \<Rightarrow> bytes \<times> ('b fl_url_response, fl_url_error) result \<times> 'n"
  body_into_vec :: "nat \<Rightarrow> 'b \<Rightarrow> 'n \<Rightarrow> (bytes, fl_url_error) result \<times> 'n"
  body_next_item :: "'b next_item"
  xml_ops :: "'r xml_reader"

record 'n world =
  net :: 'n
  console :: "bytes list"

type_synonym ('a, 'n) io = "'n world \<Rightarrow> ('a, S3Error) result \<times> 'n world"

text \<open>\<open>?\<close> and \<open>.await?\<close>: go on with the value in the world after it, or return the error.\<close>

definition io_bind :: "('a, 'n) io \<Rightarrow> ('a \<Rightarrow> ('b, 'n) io) \<Rightarrow> ('b, 'n) io" where
  "io_bind m f w = (case m w of (Inl e, w') \<Rightarrow> (Inl e, w') | (Inr a, w') \<Rightarrow> f a w')"

definition io_result :: "('a, S3Error) result \<Rightarrow> ('a, 'n) io" where
  "io_result r w = (r, w)"

lemma io_bind_result [simp]:
  "io_bind (io_result (Inr a)) f = f a"
  "io_bind (io_result (Inl e)) f = io_result (Inl e)"
  by (simp_all add: io_bind_def io_result_def fun_eq_iff)

section \<open>Definitions\<close>

definition UNSIGNED_PAYLOAD :: bytes where
  "UNSIGNED_PAYLOAD = ''UNSIGNED-PAYLOAD''"

definition DEBUG_PREFIX :: bytes where
  "DEBUG_PREFIX = ''[my-s3]''"

definition MAX_ANSWER_SIZE :: nat where
  "MAX_ANSWER_SIZE = 10 * 1024 * 1024"

definition is_success :: "u16 \<Rightarrow> bool" where
  "is_success status_code \<longleftrightarrow> 200 \<le> status_code \<and> status_code < 300"

definition format_response_trace :: "u16 \<Rightarrow> bytes option \<Rightarrow> bytes" where
  "format_response_trace status_code body =
     (case body of
        None \<Rightarrow> DEBUG_PREFIX @ '' <-- '' @ dec_of_nat (unat status_code) @ '', body not read''
      | Some b \<Rightarrow>
          if is_success status_code then
            DEBUG_PREFIX @ '' <-- '' @ dec_of_nat (unat status_code) @ '', body '' @ dec_of_nat (length b)
            @ '' bytes''
          else
            DEBUG_PREFIX @ '' <-- '' @ dec_of_nat (unat status_code) @ '', body '' @ dec_of_nat (length b)
            @ '' bytes: '' @ from_utf8_lossy b)"

definition create_bucket_configuration :: "S3Region \<Rightarrow> bytes option" where
  "create_bucket_configuration reg =
     (if region_is_empty reg \<or> is_us_east_1 reg then None
      else Some (''<CreateBucketConfiguration xmlns='' @ [CHR 0x22] @ ''http://s3.amazonaws.com/doc/2006-03-01/''
                 @ [CHR 0x22] @ ''><LocationConstraint>'' @ as_str reg
                 @ ''</LocationConstraint></CreateBucketConfiguration>''))"

definition windows :: "nat \<Rightarrow> bytes \<Rightarrow> bytes list" where
  "windows n xs = map (\<lambda>i. take n (drop i xs)) [0..<length xs + 1 - n]"

definition contains :: "bytes \<Rightarrow> bytes \<Rightarrow> bool" where
  "contains haystack needle \<longleftrightarrow> list_ex (\<lambda>window. window = needle) (windows (length needle) haystack)"

definition parse_bucket_location :: "'r xml_reader \<Rightarrow> bytes \<Rightarrow> (S3Region, S3Error) result" where
  "parse_bucket_location x body =
     (case read_node_text x body ''LocationConstraint'' of
        Some reg \<Rightarrow> if reg = [] then Inr AwsUsEast1 else Inr (from_str reg)
      | None \<Rightarrow>
          if contains body ''<LocationConstraint'' then Inr AwsUsEast1
          else Inl (Other (''GetBucketLocation answered with a body that is not a LocationConstraint: ''
                           @ from_utf8_lossy body)))"

definition map_error_code :: "bytes \<Rightarrow> S3Error option" where
  "map_error_code error_code =
     (if error_code = ''BucketAlreadyExists'' then Some BucketAlreadyExists
      else if error_code = ''BucketAlreadyOwnedByYou'' then Some BucketAlreadyOwnedByYou
      else if error_code = ''NoSuchBucket'' then Some BucketNotFound
      else if error_code = ''NoSuchKey'' then Some KeyNotFound
      else if error_code = ''NoSuchUpload'' then Some NoSuchUpload
      else if error_code = ''EntityTooSmall'' then Some EntityTooSmall
      else if error_code = ''InvalidRange'' then Some RangeNotSatisfiable
      else None)"

definition detect_error :: "'r xml_reader \<Rightarrow> u16 \<Rightarrow> bytes \<Rightarrow> S3Error" where
  "detect_error x status_code body =
     (let error_code = read_node_text x body ''Error/Code'' in
      case Option.bind error_code map_error_code of
        Some err \<Rightarrow> err
      | None \<Rightarrow>
          if error_code = None \<and> status_code = 404 then KeyNotFound
          else if error_code = None \<and> status_code = 416 then RangeNotSatisfiable
          else UnexpectedStatusCode status_code error_code (from_utf8_lossy body))"

text \<open>
  Sending. All five \<open>send_*\<close> have this shape: the trace is printed after the request has
  come back and before its result is looked at.
\<close>

definition send ::
  "('u, 'b, 'c, 'r, 'n) env \<Rightarrow> S3Client \<Rightarrow> http_method \<Rightarrow> 'u \<Rightarrow> 'c request_body \<Rightarrow> ('b fl_url_response, 'n) io"
where
  "send e s3 meth url body w =
     (if \<not> debug_on s3 then
        (let (r, n) = send_request e meth url body (net w)
         in (map_err from_fl_url_error r, w\<lparr>net := n\<rparr>))
      else
        (let (request, r, n) = send_request_with_debug e meth url body (net w)
         in (map_err from_fl_url_error r,
             w\<lparr>net := n, console := console w @ [DEBUG_PREFIX @ '' --> '' @ request]\<rparr>)))"

definition send_get where "send_get e s3 url = send e s3 GET url NoBody"

definition send_head where "send_head e s3 url = send e s3 HEAD url NoBody"

definition send_delete where "send_delete e s3 url = send e s3 DELETE url NoBody"

definition send_put where "send_put e s3 url body = send e s3 PUT url body"

definition send_put_streamed where
  "send_put_streamed e s3 url body len = send e s3 PUT url (Streamed body len)"

definition trace_response :: "S3Client \<Rightarrow> u16 \<Rightarrow> bytes option \<Rightarrow> 'n world \<Rightarrow> 'n world" where
  "trace_response s3 status_code body w =
     (if \<not> debug_on s3 then w
      else w\<lparr>console := console w @ [format_response_trace status_code body]\<rparr>)"

text \<open>\<open>get_body()?.into_vec(MAX_ANSWER_SIZE).await?\<close>\<close>

definition read_whole_body :: "('u, 'b, 'c, 'r, 'n) env \<Rightarrow> 'b fl_url_response \<Rightarrow> (bytes, 'n) io" where
  "read_whole_body e response =
     io_bind (io_result (map_err from_fl_url_error (get_body response))) (\<lambda>b w.
       let (r, n) = body_into_vec e MAX_ANSWER_SIZE b (net w)
       in (map_err from_fl_url_error r, w\<lparr>net := n\<rparr>))"

definition read_success_body ::
  "('u, 'b, 'c, 'r, 'n) env \<Rightarrow> S3Client \<Rightarrow> 'b fl_url_response \<Rightarrow> (bytes, 'n) io"
where
  "read_success_body e s3 response =
     (let status_code = rs_status_code response in
      io_bind (read_whole_body e response) (\<lambda>body w.
        (if is_success status_code then Inr body
         else Inl (detect_error (xml_ops e) status_code body),
         trace_response s3 status_code (Some body) w)))"

definition expect_success ::
  "('u, 'b, 'c, 'r, 'n) env \<Rightarrow> S3Client \<Rightarrow> 'b fl_url_response \<Rightarrow> (unit, 'n) io"
where
  "expect_success e s3 response = io_bind (read_success_body e s3 response) (\<lambda>_. io_result (Inr ()))"

text \<open>\<open>sign_request(...)?\<close> at the time of the call.\<close>

definition signed ::
  "('u, 'b, 'c, 'r, 'n) env \<Rightarrow> S3Client \<Rightarrow> 'u \<Rightarrow> bytes \<Rightarrow> bytes \<Rightarrow> ('u, 'n) io"
where
  "signed e s3 url meth payload w =
     (sign_request (url_ops e) (crypto_ops e) (clock e (net w)) s3 url meth payload, w)"

definition signed_with_hash ::
  "('u, 'b, 'c, 'r, 'n) env \<Rightarrow> S3Client \<Rightarrow> 'u \<Rightarrow> bytes \<Rightarrow> bytes \<Rightarrow> ('u, 'n) io"
where
  "signed_with_hash e s3 url meth payload_hash w =
     (sign_request_with_payload_hash (url_ops e) (crypto_ops e) (clock e (net w)) s3 url meth payload_hash, w)"

abbreviation bucket_url :: "('u, 'b, 'c, 'r, 'n) env \<Rightarrow> S3Client \<Rightarrow> bytes \<Rightarrow> 'u" where
  "bucket_url e s3 bucket \<equiv> append_path_segment (url_ops e) bucket (fl_new (url_ops e) (endpoint s3))"

abbreviation object_url :: "('u, 'b, 'c, 'r, 'n) env \<Rightarrow> S3Client \<Rightarrow> bytes \<Rightarrow> bytes \<Rightarrow> 'u" where
  "object_url e s3 bucket k \<equiv> append_path_segment (url_ops e) k (bucket_url e s3 bucket)"

definition upload_object ::
  "('u, 'b, 'c, 'r, 'n) env \<Rightarrow> S3Client \<Rightarrow> bytes \<Rightarrow> bytes \<Rightarrow> bytes \<Rightarrow> nat \<Rightarrow> (unit, 'n) io"
where
  "upload_object e s3 bucket k content upload_timeout =
     (let url = with_retries (url_ops e) 3
                  (set_timeout (url_ops e) upload_timeout (object_url e s3 bucket k)) in
      io_bind (signed e s3 url ''PUT'' content) (\<lambda>url.
      io_bind (send_put e s3 url (RawData content None)) (\<lambda>response.
      expect_success e s3 response)))"

definition upload_streamed ::
  "('u, 'b, 'c, 'r, 'n) env \<Rightarrow> S3Client \<Rightarrow> bytes \<Rightarrow> bytes \<Rightarrow> 'c \<Rightarrow> nat \<Rightarrow> nat \<Rightarrow> (unit, 'n) io"
where
  "upload_streamed e s3 bucket k body len upload_timeout =
     (let url = set_timeout (url_ops e) upload_timeout (object_url e s3 bucket k) in
      io_bind (signed_with_hash e s3 url ''PUT'' UNSIGNED_PAYLOAD) (\<lambda>url.
      io_bind (send_put_streamed e s3 url body len) (\<lambda>response.
      expect_success e s3 response)))"

text \<open>\<open>new_body\<close> is the caller's closure; it may change the world.\<close>

function upload_streamed_from ::
  "('u, 'b, 'c, 'r, 'n) env \<Rightarrow> S3Client \<Rightarrow> bytes \<Rightarrow> bytes \<Rightarrow> nat \<Rightarrow> nat \<Rightarrow> nat \<Rightarrow> ('n world \<Rightarrow> 'c \<times> 'n world)
   \<Rightarrow> nat \<Rightarrow> (unit, 'n) io"
where
  "upload_streamed_from e s3 bucket k len upload_timeout max_retries new_body retries w =
     (let (body, w1) = new_body w in
      case upload_streamed e s3 bucket k body len upload_timeout w1 of
        (Inr _, w2) \<Rightarrow> (Inr (), w2)
      | (Inl err, w2) \<Rightarrow>
          if retries \<ge> max_retries \<or> \<not> is_retryable err then (Inl err, w2)
          else upload_streamed_from e s3 bucket k len upload_timeout max_retries new_body (retries + 1) w2)"
  by pat_completeness auto
termination
  by (relation "measure (\<lambda>(_, _, _, _, _, _, m, _, r, _). m - r)") auto

definition upload_streamed_with_retries where
  "upload_streamed_with_retries e s3 bucket k len upload_timeout max_retries new_body =
     upload_streamed_from e s3 bucket k len upload_timeout max_retries new_body 0"


declare upload_streamed_from.simps [simp del]

text \<open>
  \<open>tokio::spawn(produce(writer))\<close> lets the caller's producer and the request run side by side
  on one writer and the channel behind it. Which of their steps come in which order, and with
  which answers of the channel, is up to the caller and the runtime, so the list of events is
  an argument: \<open>produce\<close> gives what happens until \<open>upload_streamed\<close> returns (calls on the writer,
  chunks received by the request), \<open>await_producer\<close> what the producer still does to its writer
  once the request has gone and let go of the receiver, and what it returned (or the text of
  its panic). Both may change the world. The body of the request is what it has received out
  of the channel of this writer; the verdict is settled by the state of this writer.
\<close>

primrec by_producer :: "upload_event \<Rightarrow> bool" where
  "by_producer (Write reserve buf) = True"
| "by_producer (Flush reserve) = True"
| "by_producer (Shutdown reserve) = True"
| "by_producer DropWriter = True"
| "by_producer UploadEnds = False"
| "by_producer Receive = False"

definition side_by_side :: "upload_event \<Rightarrow> bool" where
  "side_by_side ev \<longleftrightarrow> by_producer ev \<or> (case ev of Receive \<Rightarrow> True | _ \<Rightarrow> False)"

definition received_body :: "upload_run \<Rightarrow> bytes list" where
  "received_body run = take (received run) (channel (up run))"

type_synonym 'n producer = "upload \<Rightarrow> 'n world \<Rightarrow> upload_event list \<times> 'n world"

type_synonym 'n producer_end =
  "upload_run \<Rightarrow> 'n world \<Rightarrow> upload_event list \<times> ((unit, io_error) result, bytes) result \<times> 'n world"

definition upload_with_writer ::
  "('u, 'b, bytes list, 'r, 'n) env \<Rightarrow> S3Client \<Rightarrow> bytes \<Rightarrow> bytes \<Rightarrow> nat \<Rightarrow> nat
   \<Rightarrow> 'n producer \<Rightarrow> 'n producer_end \<Rightarrow> (unit, 'n) io"
where
  "upload_with_writer e s3 bucket k len upload_timeout produce await_producer w =
     (let run0 = start_run bucket k (of_nat len) DEFAULT_UPLOAD_CHUNK_SIZE;
          (events, w1) = produce (up run0) w;
          run1 = run_steps upload_step run0 (filter side_by_side events);
          (upload_result, w2) = upload_streamed e s3 bucket k (received_body run1) len upload_timeout w1;
          (events', produce_result, w3) = await_producer run1 w2;
          run2 = run_steps upload_step run1 (filter by_producer events')
      in (finish_upload_with_writer upload_result produce_result (state (up run2)), w3))"

function upload_with_writer_from ::
  "('u, 'b, bytes list, 'r, 'n) env \<Rightarrow> S3Client \<Rightarrow> bytes \<Rightarrow> bytes \<Rightarrow> nat \<Rightarrow> nat \<Rightarrow> nat
   \<Rightarrow> 'n producer \<Rightarrow> 'n producer_end \<Rightarrow> nat \<Rightarrow> (unit, 'n) io"
where
  "upload_with_writer_from e s3 bucket k len upload_timeout max_retries produce await_producer retries w =
     (case upload_with_writer e s3 bucket k len upload_timeout produce await_producer w of
        (Inr _, w2) \<Rightarrow> (Inr (), w2)
      | (Inl err, w2) \<Rightarrow>
          if retries \<ge> max_retries \<or> \<not> is_retryable err then (Inl err, w2)
          else upload_with_writer_from e s3 bucket k len upload_timeout max_retries produce await_producer
                 (retries + 1) w2)"
  by pat_completeness auto
termination
  by (relation "measure (\<lambda>(_, _, _, _, _, _, m, _, _, r, _). m - r)") auto

declare upload_with_writer_from.simps [simp del]

definition upload_with_writer_with_retries where
  "upload_with_writer_with_retries e s3 bucket k len upload_timeout max_retries produce await_producer =
     upload_with_writer_from e s3 bucket k len upload_timeout max_retries produce await_producer 0"

definition ignored_range :: S3Error where
  "ignored_range =
     Other ''Server ignored the Range header and returned the full object (200 instead of 206)''"

definition with_range :: "'u flurl \<Rightarrow> (u64 \<times> u64 option) option \<Rightarrow> 'u \<Rightarrow> 'u" where
  "with_range fl rng url =
     (case rng of
        Some (start, Some end_byte) \<Rightarrow>
          with_header fl ''Range'' (''bytes='' @ u64_to_string start @ ''-'' @ u64_to_string end_byte) url
      | Some (start, None) \<Rightarrow> with_header fl ''Range'' (''bytes='' @ u64_to_string start @ ''-'') url
      | None \<Rightarrow> url)"

definition open_object ::
  "('u, 'b, 'c, 'r, 'n) env \<Rightarrow> S3Client \<Rightarrow> bytes \<Rightarrow> bytes \<Rightarrow> (u64 \<times> u64 option) option
   \<Rightarrow> ('b fl_url_response, 'n) io"
where
  "open_object e s3 bucket k rng =
     (let url = with_retries (url_ops e) 3 (object_url e s3 bucket k) in
      io_bind (signed e s3 url ''GET'' []) (\<lambda>url.
      io_bind (send_get e s3 (with_range (url_ops e) rng url)) (\<lambda>response w.
        let status_code = rs_status_code response;
            expected = (if rng \<noteq> None then 206 else 200)
        in if status_code = expected then (Inr response, trace_response s3 status_code None w)
           else if rng \<noteq> None \<and> status_code = 416 then
             (Inl RangeNotSatisfiable, trace_response s3 status_code None w)
           else if rng \<noteq> None \<and> status_code = 200 then
             (Inl ignored_range, trace_response s3 status_code None w)
           else
             io_bind (read_whole_body e response) (\<lambda>body w.
               (Inl (detect_error (xml_ops e) status_code body),
                trace_response s3 status_code (Some body) w)) w)))"

definition download_file ::
  "('u, 'b, 'c, 'r, 'n) env \<Rightarrow> S3Client \<Rightarrow> bytes \<Rightarrow> bytes \<Rightarrow> ('b S3DownloadStream, 'n) io"
where
  "download_file e s3 bucket k =
     io_bind (open_object e s3 bucket k None) (\<lambda>response. io_result (from_response response))"

definition invalid_range :: "u64 \<Rightarrow> u64 \<Rightarrow> S3Error" where
  "invalid_range start end_byte =
     Other (''Invalid range: end ('' @ u64_to_string end_byte @ '') < start ('' @ u64_to_string start @ '')'')"

definition download_file_range ::
  "('u, 'b, 'c, 'r, 'n) env \<Rightarrow> S3Client \<Rightarrow> bytes \<Rightarrow> bytes \<Rightarrow> u64 \<Rightarrow> u64 option \<Rightarrow> ('b S3DownloadStream, 'n) io"
where
  "download_file_range e s3 bucket k start end_byte =
     (if (case end_byte of Some l \<Rightarrow> l < start | None \<Rightarrow> False) then
        io_result (Inl (invalid_range start (the end_byte)))
      else
        io_bind (open_object e s3 bucket k (Some (start, end_byte)))
          (\<lambda>response. io_result (from_response response)))"

definition delete_file ::
  "('u, 'b, 'c, 'r, 'n) env \<Rightarrow> S3Client \<Rightarrow> bytes \<Rightarrow> bytes \<Rightarrow> (unit, 'n) io"
where
  "delete_file e s3 bucket k =
     (let url = with_retries (url_ops e) 3 (object_url e s3 bucket k) in
      io_bind (signed e s3 url ''DELETE'' []) (\<lambda>url.
      io_bind (send_delete e s3 url) (\<lambda>response.
      expect_success e s3 response)))"

definition create_bucket :: "('u, 'b, 'c, 'r, 'n) env \<Rightarrow> S3Client \<Rightarrow> bytes \<Rightarrow> (unit, 'n) io" where
  "create_bucket e s3 bucket =
     (let url = with_retries (url_ops e) 3 (bucket_url e s3 bucket);
          configuration = create_bucket_configuration (region s3)
      in
      io_bind (signed e s3 url ''PUT'' (case configuration of Some c \<Rightarrow> c | None \<Rightarrow> [])) (\<lambda>url.
      io_bind (send_put e s3 url
        (case configuration of Some c \<Rightarrow> RawData c (Some ''application/xml'') | None \<Rightarrow> NoBody))
        (\<lambda>response. expect_success e s3 response)))"

definition get_bucket_location :: "('u, 'b, 'c, 'r, 'n) env \<Rightarrow> S3Client \<Rightarrow> bytes \<Rightarrow> (S3Region, 'n) io" where
  "get_bucket_location e s3 bucket =
     (let url = with_retries (url_ops e) 3
                  (append_query_flag (url_ops e) ''location'' (bucket_url e s3 bucket)) in
      io_bind (signed e s3 url ''GET'' []) (\<lambda>url.
      io_bind (send_get e s3 url) (\<lambda>response.
      io_bind (read_success_body e s3 response) (\<lambda>body.
      io_result (parse_bucket_location (xml_ops e) body)))))"

definition check_if_bucket_exists :: "('u, 'b, 'c, 'r, 'n) env \<Rightarrow> S3Client \<Rightarrow> bytes \<Rightarrow> (bool, 'n) io" where
  "check_if_bucket_exists e s3 bucket =
     (let url = with_retries (url_ops e) 3 (bucket_url e s3 bucket) in
      io_bind (signed e s3 url ''HEAD'' []) (\<lambda>url.
      io_bind (send_head e s3 url) (\<lambda>response w.
        let status_code = rs_status_code response;
            w' = trace_response s3 status_code None w
        in if is_success status_code then (Inr True, w')
           else if status_code = 404 then (Inr False, w')
           else (Inl (detect_error (xml_ops e) status_code []), w'))))"

definition list_query :: "S3ListObjectsRequest \<Rightarrow> bytes" where
  "list_query request =
     (let max_keys = map_option (\<lambda>m. dec_of_nat (unat m)) (req_max_keys request);
          q0 = ''list-type=2'';
          q1 = append_query_param q0 ''prefix'' (req_prefix request);
          q2 = append_query_param q1 ''delimiter'' (req_delimiter request);
          q3 = append_query_param q2 ''continuation-token'' (req_continuation_token request)
      in append_query_param q3 ''max-keys'' max_keys)"

text \<open>\<open>list_objects_v2\<close> up to the answer, and with the parse behind it, which may not end (\<open>None\<close>).\<close>

definition listing_answer ::
  "('u, 'b, 'c, 'r, 'n) env \<Rightarrow> S3Client \<Rightarrow> bytes \<Rightarrow> S3ListObjectsRequest \<Rightarrow> (bytes, 'n) io"
where
  "listing_answer e s3 bucket request =
     (let query = list_query request;
          path_and_query = encode_uri_component bucket ''/'' @ ''?'' @ query;
          url = with_retries (url_ops e) 3
                  (append_raw_ending_to_url (url_ops e) path_and_query (fl_new (url_ops e) (endpoint s3)))
      in
      io_bind (signed e s3 url ''GET'' []) (\<lambda>url.
      io_bind (send_get e s3 url) (\<lambda>response.
      read_success_body e s3 response)))"

definition list_objects_v2 ::
  "('u, 'b, 'c, 'r, 'n) env \<Rightarrow> S3Client \<Rightarrow> bytes \<Rightarrow> S3ListObjectsRequest \<Rightarrow> 'n world
   \<Rightarrow> (S3ListObjectsPage, S3Error) result option \<times> 'n world"
where
  "list_objects_v2 e s3 bucket request =
     apfst (\<lambda>r. case r of
                  Inl err \<Rightarrow> Some (Inl err)
                | Inr body \<Rightarrow> parse_list_objects_v2 (xml_ops e) body)
     \<circ> listing_answer e s3 bucket request"

definition no_content_length :: "bytes \<Rightarrow> bytes \<Rightarrow> u16 \<Rightarrow> S3Error" where
  "no_content_length bucket k status_code =
     Other (''HEAD '' @ bucket @ ''/'' @ k @ '' answered '' @ dec_of_nat (unat status_code)
            @ '' without a usable Content-Length'')"

definition get_object_size ::
  "('u, 'b, 'c, 'r, 'n) env \<Rightarrow> S3Client \<Rightarrow> bytes \<Rightarrow> bytes \<Rightarrow> (u64, 'n) io"
where
  "get_object_size e s3 bucket k =
     (let url = with_retries (url_ops e) 3 (object_url e s3 bucket k) in
      io_bind (signed e s3 url ''HEAD'' []) (\<lambda>url.
      io_bind (send_head e s3 url) (\<lambda>response w.
        let status_code = rs_status_code response;
            w' = trace_response s3 status_code None w
        in if \<not> is_success status_code then (Inl (detect_error (xml_ops e) status_code []), w')
           else
             ((case content_length_of response of
                 Some n \<Rightarrow> Inr n
               | None \<Rightarrow> Inl (no_content_length bucket k status_code)), w'))))"

definition open_reader ::
  "('u, 'b, 'c, 'r, 'n) env \<Rightarrow> S3Client \<Rightarrow> bytes \<Rightarrow> bytes \<Rightarrow> (S3Reader, 'n) io"
where
  "open_reader e s3 bucket k =
     io_bind (get_object_size e s3 bucket k) (\<lambda>n. io_result (Inr (new_reader s3 bucket k n)))"

definition create_bucket_if_not_exists ::
  "('u, 'b, 'c, 'r, 'n) env \<Rightarrow> S3Client \<Rightarrow> bytes \<Rightarrow> (unit, 'n) io"
where
  "create_bucket_if_not_exists e s3 bucket w =
     (case create_bucket e s3 bucket w of
        (Inl err, w') \<Rightarrow> if is_bucket_already_owned_by_you err then (Inr (), w') else (Inl err, w')
      | (Inr _, w') \<Rightarrow> (Inr (), w'))"

text \<open>The future of a read (\<open>start_read\<close> of \<^verbatim>\<open>src/reader.rs\<close>): the ranged request, then the loop.\<close>

definition read_future ::
  "('u, 'b, 'c, 'r, 'n) env \<Rightarrow> S3Reader \<Rightarrow> PendingRead \<Rightarrow> 'n world
   \<Rightarrow> (bytes, S3Error) result option \<times> 'n world"
where
  "read_future e r p w =
     (let (s, w') = download_file_range e (r_client r) (r_bucket_name r) (r_key r) (get_start p)
                      (Some (get_end p)) w
      in (case s of
            Inl err \<Rightarrow> Some (Inl err)
          | Inr stream \<Rightarrow> collect_range (body_next_item e) (requested_len p) [] stream, w'))"

section \<open>Interface: a retried attempt\<close>

text \<open>The \<open>k\<close>-th attempt of a sequence in which each starts in the world the one before left.\<close>

definition nth_attempt :: "('w \<Rightarrow> 'a \<times> 'w) \<Rightarrow> nat \<Rightarrow> 'w \<Rightarrow> 'a \<times> 'w" where
  "nth_attempt attempt k w = attempt (((\<lambda>w. snd (attempt w)) ^^ k) w)"

text \<open>A failure the loops go on after.\<close>

definition may_retry :: "('a, S3Error) result \<Rightarrow> bool" where
  "may_retry r = (case r of Inl err \<Rightarrow> is_retryable err | Inr _ \<Rightarrow> False)"

lemma nth_attempt_0 [simp]: "nth_attempt attempt 0 w = attempt w"
  by (simp add: nth_attempt_def)

lemma nth_attempt_Suc [simp]: "nth_attempt attempt (Suc k) w = nth_attempt attempt k (snd (attempt w))"
  by (simp add: nth_attempt_def funpow_Suc_right del: funpow.simps(2))

locale retry_loop =
  fixes attempt :: "'w \<Rightarrow> (unit, S3Error) result \<times> 'w"
    and loop :: "nat \<Rightarrow> nat \<Rightarrow> 'w \<Rightarrow> (unit, S3Error) result \<times> 'w"
  assumes loop_step:
    "loop max_retries retries w =
       (if retries < max_retries \<and> may_retry (fst (attempt w))
        then loop max_retries (retries + 1) (snd (attempt w)) else attempt w)"
begin

lemma loop_stops:
  assumes "retries \<le> max_retries"
  shows "\<exists>k. k \<le> max_retries - retries
    \<and> loop max_retries retries w = nth_attempt attempt k w
    \<and> list_all (\<lambda>j. may_retry (fst (nth_attempt attempt j w))) [0..<k]
    \<and> (k = max_retries - retries \<or> \<not> may_retry (fst (nth_attempt attempt k w)))"
  using assms
proof (induction "max_retries - retries" arbitrary: retries w)
  case 0
  then show ?case using loop_step [of max_retries retries w] by simp
next
  case (Suc n)
  show ?case
  proof (cases "may_retry (fst (attempt w))")
    case True
    obtain k where k: "k \<le> max_retries - (retries + 1)"
      "loop max_retries (retries + 1) (snd (attempt w)) = nth_attempt attempt k (snd (attempt w))"
      "list_all (\<lambda>j. may_retry (fst (nth_attempt attempt j (snd (attempt w))))) [0..<k]"
      "k = max_retries - (retries + 1) \<or> \<not> may_retry (fst (nth_attempt attempt k (snd (attempt w))))"
    proof -
      have "n = max_retries - (retries + 1)" "retries + 1 \<le> max_retries" using Suc.hyps(2) by simp_all
      from Suc.hyps(1) [OF this, of "snd (attempt w)"] show ?thesis using that by blast
    qed
    have "list_all (\<lambda>j. may_retry (fst (nth_attempt attempt j w))) (0 # map Suc [0..<k])"
      using k(3) True by (simp add: list.pred_map o_def)
    then have "list_all (\<lambda>j. may_retry (fst (nth_attempt attempt j w))) [0..<Suc k]"
      unfolding map_Suc_upt by (simp only: upt_conv_Cons [OF zero_less_Suc])
    then show ?thesis
      using k Suc.hyps(2) True
      by (intro exI [of _ "Suc k"]) (auto simp: loop_step [of max_retries retries])
  next
    case False
    then show ?thesis by (intro exI [of _ 0]) (simp add: loop_step [of max_retries retries])
  qed
qed

end

abbreviation streamed_attempt where
  "streamed_attempt e s3 bucket k len t new_body \<equiv>
     (\<lambda>w. case new_body w of (body, w1) \<Rightarrow> upload_streamed e s3 bucket k body len t w1)"

interpretation streamed: retry_loop
  "streamed_attempt e s3 bucket k len t new_body"
  "\<lambda>max_retries retries. upload_streamed_from e s3 bucket k len t max_retries new_body retries"
  by unfold_locales
    (subst upload_streamed_from.simps, auto simp: may_retry_def split: prod.split sum.split)

interpretation by_writer: retry_loop
  "upload_with_writer e s3 bucket k len t produce await_producer"
  "\<lambda>max_retries retries. upload_with_writer_from e s3 bucket k len t max_retries produce await_producer retries"
  by unfold_locales
    (subst upload_with_writer_from.simps, auto simp: may_retry_def split: prod.split sum.split)

section \<open>Facts about the pieces\<close>

lemma contains_sublist: "contains haystack needle \<longleftrightarrow> sublist needle haystack"
proof
  assume "contains haystack needle"
  then obtain i where "needle = take (length needle) (drop i haystack)"
    by (auto simp: contains_def windows_def list_ex_iff)
  then show "sublist needle haystack"
    by (metis append_take_drop_id sublist_def)
next
  assume "sublist needle haystack"
  then obtain p q where h: "haystack = p @ needle @ q" by (auto simp: sublist_def)
  have "take (length needle) (drop (length p) haystack) = needle" "length p < length haystack + 1 - length needle"
    by (simp_all add: h)
  then show "contains haystack needle"
    unfolding contains_def windows_def list_ex_iff by (auto intro!: image_eqI [of _ _ "length p"])
qed

text \<open>The codes that have an error of their own are none of those S3 asks for a retry by.\<close>

lemma map_error_code_cases:
  "map_error_code c = Some err \<Longrightarrow> \<not> is_retryable err \<and> c \<notin> set retry_by_name"
  by (auto simp: map_error_code_def retry_by_name_def split: if_splits)

lemma map_error_code_iff:
  "map_error_code c = Some BucketAlreadyExists \<longleftrightarrow> c = ''BucketAlreadyExists''"
  "map_error_code c = Some BucketAlreadyOwnedByYou \<longleftrightarrow> c = ''BucketAlreadyOwnedByYou''"
  "map_error_code c = Some BucketNotFound \<longleftrightarrow> c = ''NoSuchBucket''"
  "map_error_code c = Some KeyNotFound \<longleftrightarrow> c = ''NoSuchKey''"
  "map_error_code c = Some RangeNotSatisfiable \<longleftrightarrow> c = ''InvalidRange''"
  "map_error_code c \<noteq> Some (UnexpectedStatusCode sc co b)"
  by (simp_all add: map_error_code_def)

lemma detect_error_coded:
  assumes "read_node_text x body ''Error/Code'' = Some c"
  shows "detect_error x sc body = err \<longleftrightarrow>
    map_error_code c = Some err \<or> map_error_code c = None \<and> err = UnexpectedStatusCode sc (Some c) (from_utf8_lossy body)"
  using assms by (cases "map_error_code c") (auto simp: detect_error_def Let_def)

lemma detect_error_bare:
  assumes "read_node_text x body ''Error/Code'' = None"
  shows "detect_error x sc body =
    (if sc = 404 then KeyNotFound else if sc = 416 then RangeNotSatisfiable
     else UnexpectedStatusCode sc None (from_utf8_lossy body))"
  using assms by (simp add: detect_error_def)

lemma detect_error_iff:
  "detect_error x sc body = BucketAlreadyExists \<longleftrightarrow>
     read_node_text x body ''Error/Code'' = Some ''BucketAlreadyExists''"
  "detect_error x sc body = BucketAlreadyOwnedByYou \<longleftrightarrow>
     read_node_text x body ''Error/Code'' = Some ''BucketAlreadyOwnedByYou''"
  "detect_error x sc body = BucketNotFound \<longleftrightarrow> read_node_text x body ''Error/Code'' = Some ''NoSuchBucket''"
  "detect_error x sc body = KeyNotFound \<longleftrightarrow>
     read_node_text x body ''Error/Code'' = Some ''NoSuchKey''
     \<or> read_node_text x body ''Error/Code'' = None \<and> sc = 404"
  "detect_error x sc body = RangeNotSatisfiable \<longleftrightarrow>
     read_node_text x body ''Error/Code'' = Some ''InvalidRange''
     \<or> read_node_text x body ''Error/Code'' = None \<and> sc = 416"
  "detect_error x sc body = UnexpectedStatusCode sc' co b \<Longrightarrow> sc' = sc"
  by (cases "read_node_text x body ''Error/Code''";
      simp add: detect_error_coded detect_error_bare map_error_code_iff split: if_splits)+

lemma detect_error_retryable:
  "is_retryable (detect_error x sc body) \<longleftrightarrow>
     (case read_node_text x body ''Error/Code'' of
        Some c \<Rightarrow> c \<in> set retry_by_name \<or> map_error_code c = None \<and> (sc \<ge> 500 \<or> sc = 429)
      | None \<Rightarrow> sc \<ge> 500 \<or> sc = 429)"
  by (auto simp: detect_error_def Let_def dest: map_error_code_cases split: option.split)

lemma io_bindD:
  assumes "io_bind m f w = (Inr b, w')"
  obtains a w1 where "m w = (Inr a, w1)" "f a w1 = (Inr b, w')"
  using assms by (auto simp: io_bind_def split: prod.splits sum.splits)

lemma expect_success_ok:
  assumes "expect_success e s3 response w = (Inr x, w')"
  shows "is_success (rs_status_code response)"
  using assms
  by (auto simp: expect_success_def read_success_body_def Let_def split: if_splits elim!: io_bindD)

text \<open>A step of the body keeps what has been received, unless it is a request that receives.\<close>

lemma upload_step_received:
  assumes "body_inv s" "received s \<le> length (channel (up s))"
  shows "received (upload_step s ev) \<le> length (channel (up (upload_step s ev)))"
    and "(case ev of Receive \<Rightarrow> False | _ \<Rightarrow> True) \<Longrightarrow> received_body (upload_step s ev) = received_body s"
proof -
  have grows: "prefix (channel (up s)) (channel (up (upload_step s ev)))"
    using same_upload_step [OF assms(1)] by (simp add: same_upload_def)
  have same: "received (upload_step s ev) = received s" if "case ev of Receive \<Rightarrow> False | _ \<Rightarrow> True"
    using that by (cases ev) (simp_all add: prod.case_eq_if)
  show "received (upload_step s ev) \<le> length (channel (up (upload_step s ev)))"
    using assms(2) prefix_length_le [OF grows] same
    by (cases ev) (simp_all add: prod.case_eq_if)
  show "received_body (upload_step s ev) = received_body s" if "case ev of Receive \<Rightarrow> False | _ \<Rightarrow> True"
    using grows same [OF that] assms(2) by (auto simp: received_body_def prefix_def)
qed

text \<open>What has been received at one point of a run is in the channel at every later point.\<close>

lemma run_steps_received:
  assumes "body_inv s" "received s \<le> length (channel (up s))"
  shows "prefix (channel (up s)) (channel (up (run_steps upload_step s es)))
    \<and> received (run_steps upload_step s es) \<le> length (channel (up (run_steps upload_step s es)))"
  using assms
proof (induction es arbitrary: s)
  case (Cons ev es)
  have "prefix (channel (up s)) (channel (up (upload_step s ev)))"
    using same_upload_step [OF Cons.prems(1)] by (simp add: same_upload_def)
  with Cons.IH [OF upload_step_inv [OF Cons.prems(1)] upload_step_received(1) [OF Cons.prems]]
  show ?case by (auto intro: prefix_order.trans)
qed simp

lemma received_stays:
  "received_body (run_steps upload_step (start_run b k len csize) es) =
     take (received (run_steps upload_step (start_run b k len csize) es))
       (channel (up (run_steps upload_step (run_steps upload_step (start_run b k len csize) es) es')))"
proof -
  let ?run = "run_steps upload_step (start_run b k len csize) es"
  have start: "body_inv (start_run b k len csize)"
    "received (start_run b k len csize) \<le> length (channel (up (start_run b k len csize)))"
    using reachable_run_of [of b k len csize "[]"] by (simp_all add: run_of_def start_run_def)
  have inv: "body_inv ?run" using reachable_run_of [of b k len csize es] by (simp add: run_of_def)
  have bound: "received ?run \<le> length (channel (up ?run))" using run_steps_received [OF start] by blast
  with run_steps_received [OF inv this, of es'] show ?thesis
    by (auto simp: received_body_def prefix_def)
qed

text \<open>Once the whole \<open>Content-Length\<close> has been counted as sent, the channel has had the first bytes written.\<close>

lemma all_sent_written:
  assumes run: "run_of b k (of_nat len) csize run" and len: "len < 2 ^ 64"
    and sent: "st_content_length (state (up run)) \<le> sent (state (up run))"
  shows "concat (channel (up run)) = take len (written run)" "length (concat (channel (up run))) = len"
proof -
  have n: "unat (of_nat len :: u64) = len" using len by (simp add: unat_of_nat_no_wrap)
  have "length (concat (channel (up run))) = unat (sent (state (up run)))"
    "length (concat (channel (up run))) \<le> len"
    using run_ofD(1,3) [OF run] n by (auto simp: upload_wf_def counts_wf_def stream_of_def)
  then show all: "length (concat (channel (up run))) = len"
    using sent run_ofD(3) [OF run] n by (simp add: word_le_nat_alt)
  then show "concat (channel (up run)) = take len (written run)"
    using run_ofD(2) [OF run] by (metis append_eq_conv_conj prefixE)
qed

lemma upload_streamed_ok:
  assumes "upload_streamed e s3 bucket k body len t w = (Inr x, w')"
  obtains url w1 response w2 where
    "signed_with_hash e s3 (set_timeout (url_ops e) t (object_url e s3 bucket k)) ''PUT'' UNSIGNED_PAYLOAD w = (Inr url, w1)"
    "send_put_streamed e s3 url body len w1 = (Inr response, w2)"
    "is_success (rs_status_code response)"
  using assms unfolding upload_streamed_def Let_def
  by (elim io_bindD) (auto dest: expect_success_ok)

lemma open_object_ok:
  assumes "open_object e s3 bucket k rng w = (Inr response, w')"
  obtains url w1 w2 where
    "signed e s3 (with_retries (url_ops e) 3 (object_url e s3 bucket k)) ''GET'' [] w = (Inr url, w1)"
    "send_get e s3 (with_range (url_ops e) rng url) w1 = (Inr response, w2)"
    "rs_status_code response = (if rng = None then 200 else 206)"
  using assms unfolding open_object_def Let_def
  by (elim io_bindD) (auto split: if_splits elim!: io_bindD)

lemma list_query_pairs:
  "list_query request = join_pairs (list_params (req_prefix request) (req_delimiter request)
     (req_continuation_token request) (map_option (dec_of_nat \<circ> unat) (req_max_keys request)))"
  unfolding list_query_def Let_def list_type_query append_query_param_pairs list_params_def o_def
  by simp

text \<open>An HTTP client to evaluate the model with: it counts the requests and answers all alike.\<close>

definition canned_answer :: "u16 \<Rightarrow> bytes \<Rightarrow> bytes list \<Rightarrow> bytes list fl_url_response" where
  "canned_answer status len pieces = (sample_response len pieces)\<lparr>rs_status_code := status\<rparr>"

definition canned_env ::
  "u16 \<Rightarrow> bytes \<Rightarrow> bytes list \<Rightarrow> 'r xml_reader \<Rightarrow> (plain_request, bytes list, bytes list, 'r, nat) env"
where
  "canned_env status len pieces x =
     \<lparr>url_ops = plain_flurl, crypto_ops = plain_crypto, clock = (\<lambda>_. ''2024-01-02T03:04:05''),
      send_request = (\<lambda>meth url body n. (Inr (canned_answer status len pieces), n + 1)),
      send_request_with_debug = (\<lambda>meth url body n.
        (''request'', Inr (canned_answer status len pieces), n + 1)),
      body_into_vec = (\<lambda>limit b n. (Inr (concat b), n)),
      body_next_item = list_body, xml_ops = x\<rparr>"

abbreviation fresh :: "nat world" where
  "fresh \<equiv> \<lparr>net = 0, console = []\<rparr>"

lemma canned_upload:
  "fst (upload_streamed (canned_env 200 ''0'' [] x) sample_client ''b'' ''k'' body 3 9 fresh) = Inr ()"
  by (simp add: Let_def upload_streamed_def io_bind_def io_result_def signed_with_hash_def
      sign_request_with_payload_hash_def canned_env_def plain_flurl_def send_put_streamed_def send_def
      expect_success_def read_success_body_def read_whole_body_def canned_answer_def sample_response_def
      is_success_def sample_client_def new_client_def)

section \<open>Properties\<close>

text \<open>
  C33: the two retry loops obey one rule, for any caller's body source and producer. The
  result is that of some attempt \<open>k \<le> max_retries\<close>, so at most \<open>max_retries + 1\<close> attempts
  are made and the loop always ends; every attempt before it failed with an error that may
  be retried; and it is the last one allowed, or it succeeded, or its error is not
  retryable.
\<close>

theorem uploads_are_retried:
  "(\<exists>k. k \<le> max_retries
      \<and> upload_streamed_with_retries e s3 bucket key len t max_retries new_body w
        = nth_attempt (streamed_attempt e s3 bucket key len t new_body) k w
      \<and> list_all (\<lambda>j. may_retry (fst (nth_attempt (streamed_attempt e s3 bucket key len t new_body) j w))) [0..<k]
      \<and> (if may_retry (fst (nth_attempt (streamed_attempt e s3 bucket key len t new_body) k w))
         then k = max_retries else True))
   \<and> (\<exists>k. k \<le> max_retries
      \<and> upload_with_writer_with_retries e s3 bucket key len t max_retries produce await_producer w
        = nth_attempt (upload_with_writer e s3 bucket key len t produce await_producer) k w
      \<and> list_all (\<lambda>j. may_retry (fst (nth_attempt
          (upload_with_writer e s3 bucket key len t produce await_producer) j w))) [0..<k]
      \<and> (if may_retry (fst (nth_attempt (upload_with_writer e s3 bucket key len t produce await_producer) k w))
         then k = max_retries else True))"
  using streamed.loop_stops [of 0 max_retries e s3 bucket key len t new_body w]
    by_writer.loop_stops [of 0 max_retries e s3 bucket key len t produce await_producer w]
  unfolding upload_streamed_with_retries_def upload_with_writer_with_retries_def diff_zero
  by (simp only: if_bool_eq_disj) blast

text \<open>
  C35: a range that comes back is the range that was asked for, never the whole object: a
  stream is returned only for \<open>start \<le> end\<close> and a \<open>206\<close> answer to the signed request with
  the \<open>Range\<close> header of exactly these offsets; and a range that ends before it starts is
  refused without a request.
\<close>

theorem ranged_download_is_partial:
  "(case download_file_range e s3 bucket k start end_byte w of
      (Inr stream, _) \<Rightarrow>
        (case end_byte of Some l \<Rightarrow> start \<le> l | None \<Rightarrow> True)
        \<and> (\<exists>url w1 response w2.
             signed e s3 (with_retries (url_ops e) 3 (object_url e s3 bucket k)) ''GET'' [] w = (Inr url, w1)
             \<and> send_get e s3 (with_header (url_ops e) ''Range''
                 (''bytes='' @ u64_to_string start @ ''-''
                  @ (case end_byte of Some l \<Rightarrow> u64_to_string l | None \<Rightarrow> [])) url) w1 = (Inr response, w2)
             \<and> rs_status_code response = 206 \<and> from_response response = Inr stream)
    | (Inl err, w') \<Rightarrow>
        if (case end_byte of Some l \<Rightarrow> l < start | None \<Rightarrow> False)
        then err = invalid_range start (the end_byte) \<and> w' = w else True)"
proof (cases "download_file_range e s3 bucket k start end_byte w")
  case (Pair r w')
  show ?thesis
  proof (cases r)
    case (Inl err)
    then show ?thesis
      using Pair by (auto simp: download_file_range_def io_result_def split: option.split)
  next
    case (Inr stream)
    with Pair have d: "download_file_range e s3 bucket k start end_byte w = (Inr stream, w')" by simp
    then have le: "case end_byte of Some l \<Rightarrow> start \<le> l | None \<Rightarrow> True"
      by (auto simp: download_file_range_def io_result_def not_less split: option.split if_splits)
    from d obtain response w2 where
      o: "open_object e s3 bucket k (Some (start, end_byte)) w = (Inr response, w2)"
      and f: "from_response response = Inr stream"
      by (auto simp: download_file_range_def io_result_def split: if_splits elim!: io_bindD)
    obtain url w1 w3 where
      "signed e s3 (with_retries (url_ops e) 3 (object_url e s3 bucket k)) ''GET'' [] w = (Inr url, w1)"
      "send_get e s3 (with_range (url_ops e) (Some (start, end_byte)) url) w1 = (Inr response, w3)"
      "rs_status_code response = 206"
      using open_object_ok [OF o] by auto
    then show ?thesis
      using d f le by (cases end_byte) (auto simp: with_range_def)
  qed
qed

text \<open>
  C38: the query of \<open>list_objects_v2\<close> says what the request says. The server decodes exactly
  the parameters that were given, whatever their bytes, so no prefix or token can inject
  another one; an absent parameter is not there at all; and every name and value is in the
  RFC 3986 form the signature needs.
\<close>

theorem list_query_is_read_back:
  "map (map_prod percent_decode percent_decode) (query_pairs (list_query request))
     = (''list-type'', ''2'')
       # concat (map (\<lambda>(n, v). case v of None \<Rightarrow> [] | Some x \<Rightarrow> [(n, x)])
           [(''prefix'', req_prefix request), (''delimiter'', req_delimiter request),
            (''continuation-token'', req_continuation_token request),
            (''max-keys'', map_option (dec_of_nat \<circ> unat) (req_max_keys request))])
   \<and> encoded_query (Some (list_query request))"
  unfolding list_query_pairs by (simp add: list_params_pairs list_params_encoded)

end
