(* ===== verification/Xml_Documents.thy ===== *)
theory Xml_Documents
  imports Xml
begin

text \<open>
  Whole documents, and what a reader is relied on to make of them.

  \<open>my_xml_reader\<close> is a crate of its own. \<^verbatim>\<open>src/xml.rs\<close> says in its comments what it
  counts on: a tag runs from \<open><\<close> to the next \<open>>\<close>, a leading \<open>/\<close> closes, a trailing
  \<open>/\<close> is self-closing, declarations are skipped; \<open>find_any_of_these_nodes_inside_parent\<close>
  matches on the name alone, at any depth, and the closing tags pop on the way; a malformed
  document is an error. The locale \<open>document_reader\<close> states that: the reader's answers are
  those of a cursor that moves over the tags of the body and knows which elements are open.
  It is a hypothesis of the theorems that use it, and \<open>cursor_reader\<close> keeps it.

  Shown, for every such reader and every document tree: the document passes the guard; the
  walker finds the direct children of an element by name and nothing deeper, in document
  order, and \<open>read_text\<close> their texts; \<open>read_node_text\<close> reads the text of the root or of its
  first child of a name, and nothing where there is none.
\<close>

section \<open>Documents\<close>

text \<open>An element with its name, the rest of its opening tag and its content; a self-closed one; text.\<close>

datatype xml_tree =
    Node bytes bytes "xml_tree list"
  | Leaf bytes bytes
  | Chars bytes

primrec print_tree :: "xml_tree \<Rightarrow> bytes" where
  "print_tree (Node n a ts) = ''<'' @ n @ a @ ''>'' @ concat (map print_tree ts) @ ''</'' @ n @ ''>''"
| "print_tree (Leaf n a) = ''<'' @ n @ a @ ''/>''"
| "print_tree (Chars s) = s"

abbreviation print_trees :: "xml_tree list \<Rightarrow> bytes" where
  "print_trees ts \<equiv> concat (map print_tree ts)"

definition white :: bytes where
  "white = [CHR 0x20, CHR 0x09, CHR 0x0A, CHR 0x0D]"

definition name_char :: "char \<Rightarrow> bool" where
  "name_char c \<longleftrightarrow> c \<notin> set white \<and> c \<notin> set ''<>/''"

definition name_ok :: "bytes \<Rightarrow> bool" where
  "name_ok n \<longleftrightarrow> n \<noteq> [] \<and> list_all name_char n \<and> hd n \<notin> set ''?!'' \<and> from_utf8_ok n"

definition attrs_ok :: "bytes \<Rightarrow> bool" where
  "attrs_ok a \<longleftrightarrow>
     a = [] \<or> hd a \<in> set white \<and> CHR ''<'' \<notin> set a \<and> CHR ''>'' \<notin> set a \<and> last a \<noteq> CHR ''/'' \<and> from_utf8_ok a"

primrec tree_ok :: "xml_tree \<Rightarrow> bool" where
  "tree_ok (Node n a ts) \<longleftrightarrow> name_ok n \<and> attrs_ok a \<and> list_all tree_ok ts"
| "tree_ok (Leaf n a) \<longleftrightarrow> name_ok n \<and> attrs_ok a"
| "tree_ok (Chars s) \<longleftrightarrow> CHR ''<'' \<notin> set s \<and> from_utf8_ok s"

section \<open>Tags with their places\<close>

datatype xml_token = OpenTag xml_tag_info | CloseTag xml_tag_info | EmptyTag xml_tag_info

definition tag_at :: "bytes \<Rightarrow> bytes \<Rightarrow> nat \<Rightarrow> nat \<Rightarrow> xml_tag_info" where
  "tag_at n raw level at =
     \<lparr>tag_name = n, tag_raw = raw, tag_level = level, start_pos = at, end_pos = at + length raw - 1\<rparr>"

text \<open>
  The tags of a body in order, declarations left out: a tag at offset \<open>off\<close> and depth \<open>d\<close>.
  A closing tag is on the level of the tag it closes.
\<close>

definition tag_step :: "nat \<Rightarrow> nat \<Rightarrow> bytes \<Rightarrow> xml_token list \<times> nat" where
  "tag_step s d tag =
     (if tag ! 1 \<in> set ''?!'' then ([], d)
      else if tag ! 1 = CHR ''/'' then
        ([CloseTag (tag_at (takeWhile name_char (drop 2 tag)) tag (d - 1) s)], d - 1)
      else if tag ! (length tag - 2) \<noteq> CHR ''/'' then
        ([OpenTag (tag_at (takeWhile name_char (drop 1 tag)) tag d s)], Suc d)
      else ([EmptyTag (tag_at (takeWhile name_char (drop 1 tag)) tag d s)], d))"

function tokens :: "nat \<Rightarrow> nat \<Rightarrow> bytes \<Rightarrow> xml_token list" where
  "tokens off d body =
     (case next_tag body of
        None \<Rightarrow> []
      | Some None \<Rightarrow> []
      | Some (Some (tag, rest)) \<Rightarrow>
          (let e = off + (length body - length rest); (ts, d') = tag_step (e - length tag) d tag in
           ts @ tokens e d' rest))"
  by pat_completeness auto
termination
  by (relation "measure (\<lambda>(_, _, body). length body)") (auto dest: next_tag_shrinks)

declare tokens.simps [simp del]

text \<open>The tags of a document, from its tree.\<close>

function toks :: "nat \<Rightarrow> nat \<Rightarrow> xml_tree list \<Rightarrow> xml_token list" where
  "toks off d [] = []"
| "toks off d (Node n a cs # ts) =
     (let i = off + length n + length a + 2; c = i + length (print_trees cs) in
      OpenTag (tag_at n (''<'' @ n @ a @ ''>'') d off) # toks i (Suc d) cs
      @ CloseTag (tag_at n (''</'' @ n @ ''>'') d c) # toks (c + length n + 3) d ts)"
| "toks off d (Leaf n a # ts) =
     EmptyTag (tag_at n (''<'' @ n @ a @ ''/>'') d off) # toks (off + length n + length a + 3) d ts"
| "toks off d (Chars s # ts) = toks (off + length s) d ts"
  by pat_completeness auto
termination
  by (relation "measure (\<lambda>(_, _, ts). size_list size ts)") auto

lemma tokens_none:
  "next_tag body = None \<Longrightarrow> tokens off d body = []"
  "next_tag body = Some None \<Longrightarrow> tokens off d body = []"
  by (simp_all add: tokens.simps [of off d body])

lemma tokens_step:
  "next_tag body = Some (Some (tag, rest)) \<Longrightarrow> e = off + (length body - length rest) \<Longrightarrow>
   tokens off d body =
     fst (tag_step (e - length tag) d tag) @ tokens e (snd (tag_step (e - length tag) d tag)) rest"
  by (subst tokens.simps) (simp add: Let_def split: prod.split)

lemma tokens_text_append:
  assumes "CHR ''<'' \<notin> set a"
  shows "tokens off d (a @ b) = tokens (off + length a) d b"
proof (cases b rule: body_cases)
  case plain
  then show ?thesis using assms by (simp add: tokens_none next_tag_None)
next
  case (torn tx inner)
  then show ?thesis
    using assms next_tag_cut [of "a @ tx" inner] next_tag_cut [of tx inner] by (simp add: tokens_none)
next
  case (tagged tx inner rest)
  let ?e = "off + length a + length tx + length inner + 2"
  have "next_tag (a @ b) = Some (Some (CHR ''<'' # inner @ [CHR ''>''], rest))"
    "next_tag b = Some (Some (CHR ''<'' # inner @ [CHR ''>''], rest))"
    using tagged assms next_tag_whole [of "a @ tx" inner rest] next_tag_whole [of tx inner rest] by simp_all
  note tokens_step [OF this(1), of ?e off d] tokens_step [OF this(2), of ?e "off + length a" d]
  then show ?thesis using tagged(1) by simp
qed

lemma tokens_tag:
  assumes "CHR ''>'' \<notin> set inner" "tag = CHR ''<'' # inner @ [CHR ''>'']"
  shows "tokens off d (tag @ rest) =
     fst (tag_step off d tag) @ tokens (off + length tag) (snd (tag_step off d tag)) rest"
proof -
  have "next_tag (tag @ rest) = Some (Some (tag, rest))"
    using assms next_tag_whole [of "[]" inner rest] by simp
  from tokens_step [OF this, of "off + length tag" off d] show ?thesis by simp
qed

lemma name_takeWhile:
  "name_ok n \<Longrightarrow> attrs_ok a \<Longrightarrow> c \<in> set ''>/'' \<Longrightarrow> takeWhile name_char (n @ a @ c # rest) = n"
  by (cases a) (auto simp: name_ok_def attrs_ok_def list_all_iff name_char_def takeWhile_append2)

lemma name_ok_simps:
  assumes "name_ok n"
  shows "CHR ''<'' \<notin> set n" "CHR ''>'' \<notin> set n" "CHR ''/'' \<notin> set n" "n \<noteq> []" "from_utf8_ok n"
    "hd n \<notin> set ''?!/''"
  using assms by (auto simp: name_ok_def list_all_iff name_char_def)

lemma attrs_ok_simps:
  assumes "attrs_ok a"
  shows "CHR ''<'' \<notin> set a" "CHR ''>'' \<notin> set a" "from_utf8_ok a"
  using assms by (auto simp: attrs_ok_def)

lemma open_element_name: "name_ok n \<Longrightarrow> attrs_ok a \<Longrightarrow> element_name (n @ a)"
  using name_ok_simps [of n] last_in_set [of n]
  by (auto simp: element_name_def attrs_ok_def last_append simp del: last_in_set)

lemma tokens_open:
  assumes "name_ok n" "attrs_ok a"
  shows "tokens off d (''<'' @ n @ a @ ''>'' @ rest) =
     OpenTag (tag_at n (''<'' @ n @ a @ ''>'') d off) # tokens (off + length n + length a + 2) (Suc d) rest"
proof -
  let ?tag = "CHR ''<'' # (n @ a) @ [CHR ''>'']"
  have e: "element_name (n @ a)" using assms by (rule open_element_name)
  have "takeWhile name_char (n @ a @ [CHR ''>'']) = n" using assms by (simp add: name_takeWhile)
  then have "tag_step off d ?tag = ([OpenTag (tag_at n ?tag d off)], Suc d)"
    using bracket_of_open [OF e] by (simp add: bracket_of_def tag_step_def split: if_splits)
  then show ?thesis
    using tokens_tag [of "n @ a" ?tag off d rest] e by (simp add: element_name_def ac_simps)
qed

lemma tokens_close:
  assumes "name_ok n"
  shows "tokens off d (''</'' @ n @ ''>'' @ rest) =
     CloseTag (tag_at n (''</'' @ n @ ''>'') (d - 1) off) # tokens (off + length n + 3) (d - 1) rest"
proof -
  let ?tag = "CHR ''<'' # (CHR ''/'' # n) @ [CHR ''>'']"
  have "takeWhile name_char (n @ [CHR ''>'']) = n"
    using assms name_takeWhile [of n "[]" "CHR ''>''" "[]"] by (simp add: attrs_ok_def)
  then have "tag_step off d ?tag = ([CloseTag (tag_at n ?tag (d - 1) off)], d - 1)"
    by (simp add: tag_step_def)
  then show ?thesis
    using tokens_tag [of "CHR ''/'' # n" ?tag off d rest] name_ok_simps [OF assms]
    by (simp add: ac_simps numeral_3_eq_3)
qed

lemma tokens_leaf:
  assumes "name_ok n" "attrs_ok a"
  shows "tokens off d (''<'' @ n @ a @ ''/>'' @ rest) =
     EmptyTag (tag_at n (''<'' @ n @ a @ ''/>'') d off) # tokens (off + length n + length a + 3) d rest"
proof -
  let ?tag = "CHR ''<'' # (n @ a @ ''/'') @ [CHR ''>'']"
  have tw: "takeWhile name_char (n @ a @ ''/>'') = n" using assms by (simp add: name_takeWhile)
  have hd: "?tag ! 1 = hd n" using name_ok_simps [OF assms(1)] by (cases n) auto
  have last: "?tag ! (length ?tag - 2) = CHR ''/''" by (simp add: nth_append)
  have no: "CHR ''>'' \<notin> set (n @ a @ ''/'')"
    using name_ok_simps [OF assms(1)] attrs_ok_simps [OF assms(2)] by simp
  have "tag_step off d ?tag = ([EmptyTag (tag_at n ?tag d off)], d)"
    unfolding tag_step_def hd last using tw name_ok_simps(6) [OF assms(1)] by simp
  then show ?thesis using tokens_tag [OF no refl, of off d rest] by (simp add: ac_simps numeral_3_eq_3)
qed

lemma tokens_print:
  "list_all tree_ok ts \<Longrightarrow>
   tokens off d (print_trees ts @ rest) = toks off d ts @ tokens (off + length (print_trees ts)) d rest"
proof (induction off d ts arbitrary: rest rule: toks.induct)
  case (2 off d n a cs ts)
  then have n: "name_ok n" "attrs_ok a" and cs: "list_all tree_ok cs" and ts: "list_all tree_ok ts" by simp_all
  let ?i = "off + length n + length a + 2"
  let ?c = "?i + length (print_trees cs)"
  have "tokens off d (print_trees (Node n a cs # ts) @ rest)
      = tokens off d (''<'' @ n @ a @ ''>'' @ print_trees cs @ ''</'' @ n @ ''>'' @ print_trees ts @ rest)"
    by simp
  also have "\<dots> = OpenTag (tag_at n (''<'' @ n @ a @ ''>'') d off) # toks ?i (Suc d) cs
      @ CloseTag (tag_at n (''</'' @ n @ ''>'') d ?c) # toks (?c + length n + 3) d ts
      @ tokens (?c + length n + 3 + length (print_trees ts)) d rest"
    unfolding tokens_open [OF n] "2.IH"(1) [OF refl refl cs] tokens_close [OF n(1)] using "2.IH"(2) [OF refl refl ts] by simp
  finally show ?case by (simp add: Let_def ac_simps numeral_3_eq_3)
next
  case (3 off d n a ts)
  then have n: "name_ok n" "attrs_ok a" by simp_all
  show ?case using 3 tokens_leaf [OF n, of off d] by (simp add: ac_simps numeral_3_eq_3)
qed (simp_all add: tokens_text_append ac_simps)

section \<open>Documents are safe to read\<close>

text \<open>What stands before the root: complete declarations and text, no element.\<close>

definition header_ok :: "bytes \<Rightarrow> bool" where
  "header_ok p \<longleftrightarrow> brackets p \<noteq> None \<and> tokens 0 0 p = [] \<and> from_utf8_ok p"

lemma tag_step_none: "fst (tag_step s d tag) = [] \<Longrightarrow> bracket_of tag = Flat \<and> snd (tag_step s d tag) = d"
  by (auto simp: tag_step_def bracket_of_def split: if_splits)

lemma tag_step_none_iff: "fst (tag_step s d tag) = [] \<longleftrightarrow> tag ! 1 \<in> set ''?!''"
  by (auto simp: tag_step_def)

lemma header_step:
  assumes "brackets p = Some w" "tokens i j p = []"
  shows "w = replicate (length w) Flat \<and> tokens off d (p @ b) = tokens (off + length p) d b"
  using assms
proof (induction p arbitrary: w i j off rule: length_induct)
  case (1 p)
  show ?case
  proof (cases p rule: body_cases)
    case plain
    then show ?thesis using 1(2) by (simp add: brackets_text tokens_text_append)
  next
    case (torn tx inner)
    then show ?thesis using 1(2) by (simp add: brackets_cut)
  next
    case (tagged tx inner rest)
    let ?tag = "CHR ''<'' # inner @ [CHR ''>'']"
    obtain v where v: "brackets rest = Some v" "w = bracket_of ?tag # v"
      using 1(2) tagged by (auto simp: brackets_tag)
    have t: "tokens i j p = fst (tag_step (i + length tx) j ?tag)
        @ tokens (i + length tx + length ?tag) (snd (tag_step (i + length tx) j ?tag)) rest" for i j
      using tagged tokens_text_append [of tx i j "?tag @ rest"] tokens_tag [of inner ?tag "i + length tx" j rest]
      by simp
    have "tokens off d (p @ b) = fst (tag_step (off + length tx) d ?tag)
        @ tokens (off + length tx + length ?tag) (snd (tag_step (off + length tx) d ?tag)) (rest @ b)"
      using tagged tokens_text_append [of tx off d "?tag @ rest @ b"]
        tokens_tag [of inner ?tag "off + length tx" d "rest @ b"] by simp
    moreover have none: "fst (tag_step (i + length tx) j ?tag) = []"
      "tokens (i + length tx + length ?tag) (snd (tag_step (i + length tx) j ?tag)) rest = []"
      using 1(3) t by simp_all
    moreover have "fst (tag_step (off + length tx) d ?tag) = []" using none(1) by (simp only: tag_step_none_iff)
    moreover have "length rest < length p" using tagged(1) by simp
    moreover have "off + length tx + length ?tag + length rest = off + length p" using tagged(1) by simp
    ultimately show ?thesis
      using 1(1) [rule_format, OF _ v(1) none(2)] v(2) tag_step_none
      by (metis append_Nil length_Cons replicate_Suc)
  qed
qed

lemma header_flats: "header_ok p \<Longrightarrow> \<exists>k. brackets p = Some (replicate k Flat)"
  unfolding header_ok_def using header_step [of p _ 0 0] by (metis not_Some_eq)

lemma header_tokens: "header_ok p \<Longrightarrow> tokens off d (p @ b) = tokens (off + length p) d b"
  using header_step [of p _ 0 0 off d b] by (auto simp: header_ok_def)

lemma brackets_leaf:
  assumes "name_ok n" "attrs_ok a"
  shows "brackets (''<'' @ n @ a @ ''/>'' @ rest) = map_option ((#) Flat) (brackets rest)"
proof -
  let ?in = "n @ a @ ''/''"
  let ?tag = "CHR ''<'' # ?in @ [CHR ''>'']"
  have "?tag ! 1 = hd n" using name_ok_simps [OF assms(1)] by (cases n) auto
  moreover have "?tag ! (length ?tag - 2) = CHR ''/''" by (simp add: nth_append)
  ultimately have "bracket_of ?tag = Flat"
    unfolding bracket_of_def using name_ok_simps(6) [OF assms(1)] by simp
  moreover have "CHR ''>'' \<notin> set ?in"
    using name_ok_simps [OF assms(1)] attrs_ok_simps [OF assms(2)] by simp
  ultimately show ?thesis using brackets_tag [of "[]" ?in rest] by simp
qed

lemma tree_balanced: "tree_ok t \<Longrightarrow> \<exists>w. brackets (print_tree t) = Some w \<and> balanced w"
  and trees_balanced: "list_all tree_ok ts \<Longrightarrow> \<exists>w. brackets (print_trees ts) = Some w \<and> balanced w"
proof -
  have bal_append: "balanced u \<Longrightarrow> balanced v \<Longrightarrow> balanced (u @ v)" for u v
    by (simp add: balanced_iff_depth balanced_append [unfolded balanced_iff_depth])
  have trees: "list_all tree_ok ts \<Longrightarrow>
      (\<And>t. t \<in> set ts \<Longrightarrow> tree_ok t \<Longrightarrow> \<exists>w. brackets (print_tree t) = Some w \<and> balanced w) \<Longrightarrow>
      \<exists>w. brackets (print_trees ts) = Some w \<and> balanced w" for ts
  proof (induction ts)
    case Nil
    then show ?case by (auto simp: brackets_text balanced.bal_nothing)
  next
    case (Cons t ts)
    obtain u where "brackets (print_tree t) = Some u" "balanced u" using Cons.prems by auto
    moreover obtain v where "brackets (print_trees ts) = Some v" "balanced v"
      using Cons.IH Cons.prems by auto
    ultimately show ?case using brackets_append [of "print_tree t" u "print_trees ts"] bal_append by auto
  qed
  show tree: "tree_ok t \<Longrightarrow> \<exists>w. brackets (print_tree t) = Some w \<and> balanced w" for t
  proof (induction t)
    case (Node n a cs)
    then obtain w where w: "brackets (print_trees cs) = Some w" "balanced w" using trees by auto
    have n: "name_ok n" "attrs_ok a" using Node by simp_all
    have "brackets (''</'' @ n @ ''>'') = Some [Closes]"
      using brackets_close [of n "[]"] name_ok_simps [OF n(1)] brackets_text [of "[]"] by simp
    then have "brackets (print_trees cs @ ''</'' @ n @ ''>'') = Some (w @ [Closes])"
      using brackets_append [OF w(1)] by simp
    then have "brackets (print_tree (Node n a cs)) = Some (Opens # w @ [Closes])"
      using brackets_open [OF open_element_name [OF n]] by simp
    then show ?case using balanced.bal_node [OF w(2) balanced.bal_nothing] by simp
  next
    case (Leaf n a)
    then show ?case
      using brackets_leaf [of n a "[]"] brackets_text [of "[]"]
        balanced.bal_flat [OF balanced.bal_nothing] by simp
  next
    case (Chars s)
    then show ?case by (simp add: brackets_text balanced.bal_nothing)
  qed
  show "list_all tree_ok ts \<Longrightarrow> \<exists>w. brackets (print_trees ts) = Some w \<and> balanced w"
    using trees tree by blast
qed

lemma tree_utf8: "tree_ok t \<Longrightarrow> from_utf8_ok (print_tree t)"
proof (induction t)
  case (Node n a cs)
  then have "from_utf8_ok (print_trees cs)"
    by (intro from_utf8_ok_concat) (auto simp: list_all_iff)
  then show ?case
    using Node.prems name_ok_simps(5) [of n] attrs_ok_simps(3) [of a] by simp
next
  case (Leaf n a)
  then show ?case using name_ok_simps(5) [of n] attrs_ok_simps(3) [of a] by simp
qed simp

lemma trees_utf8: "list_all tree_ok ts \<Longrightarrow> from_utf8_ok (print_trees ts)"
  by (rule from_utf8_ok_concat) (auto simp: list_all_iff tree_utf8)

text \<open>A document: declarations, one element, text behind it.\<close>

definition document :: "bytes \<Rightarrow> xml_tree \<Rightarrow> bytes \<Rightarrow> bytes" where
  "document p t q = p @ print_tree t @ q"

definition document_ok :: "bytes \<Rightarrow> xml_tree \<Rightarrow> bytes \<Rightarrow> bool" where
  "document_ok p t q \<longleftrightarrow> header_ok p \<and> tree_ok t \<and> CHR ''<'' \<notin> set q \<and> from_utf8_ok q"

lemma document_safe:
  assumes "document_ok p t q"
  shows "is_safe_to_read (document p t q)"
proof -
  obtain k w where "brackets p = Some (replicate k Flat)" "brackets (print_tree t) = Some w" "balanced w"
    using assms header_flats tree_balanced unfolding document_ok_def by blast
  moreover have "brackets q = Some []" using assms by (simp add: document_ok_def brackets_text)
  ultimately have "brackets (document p t q) = Some (replicate k Flat @ w)" "balanced (replicate k Flat @ w)"
    by (simp_all add: document_def brackets_append balanced_flats)
  moreover have "from_utf8_ok (document p t q)"
    using assms by (simp add: document_ok_def document_def header_ok_def tree_utf8)
  ultimately show ?thesis
    by (auto simp: is_safe_to_read_def scan_tags_depth balanced_iff_depth)
qed

lemma document_cut:
  assumes ok: "document_ok p (Node n a ts) q"
    and i: "length p < i" "i < length p + length (print_tree (Node n a ts))"
  shows "\<not> is_safe_to_read (take i (document p (Node n a ts) q))"
proof -
  have n: "element_name (n @ a)" and h: "prolog p"
    using ok open_element_name header_flats by (simp_all add: document_ok_def prolog_def)
  have t: "print_tree (Node n a ts) = element n a (print_trees ts)" by (simp add: element_def)
  obtain w where w: "brackets (print_trees ts) = Some w" "balanced w"
    using ok trees_balanced by (auto simp: document_ok_def)
  have "take i (document p (Node n a ts) q) = take i (p @ element n a (print_trees ts))"
    unfolding document_def t using i unfolding t by simp
  moreover have "i < length (p @ element n a (print_trees ts))" using i unfolding t by simp
  ultimately show ?thesis using cut_not_safe [OF h n w i(1)] by simp
qed

lemma document_tokens:
  assumes "document_ok p t q"
  shows "tokens off d (document p t q) = toks (off + length p) d [t]"
proof -
  have "tokens off d (document p t q) = tokens (off + length p) d (print_trees [t] @ q)"
    using assms header_tokens [of p off d "print_tree t @ q"] by (simp add: document_def document_ok_def)
  also have "\<dots> = toks (off + length p) d [t] @ tokens (off + length p + length (print_trees [t])) d q"
    using assms by (intro tokens_print) (simp add: document_ok_def)
  also have "tokens (off + length p + length (print_trees [t])) d q = []"
    using assms by (intro tokens_none(1) next_tag_None) (simp add: document_ok_def)
  finally show ?thesis by simp
qed

section \<open>A cursor over the tags\<close>

text \<open>
  What a reader does with a document, as far as \<^verbatim>\<open>src/xml.rs\<close> says: it moves over the
  tags in order and knows which elements are open. \<open>Fails\<close> is a malformed document (a
  closing tag that does not match); \<open>RunsOut\<close> is the end of the input, which is reported
  like a closing tag or as an error, depending on what trails the document, but never as a tag.
\<close>

datatype 'a outcome = Gives 'a "bytes list" "xml_token list" | Fails | RunsOut

fun cur_next :: "bytes list \<Rightarrow> xml_token list \<Rightarrow> xml_tag_info outcome" where
  "cur_next st [] = RunsOut"
| "cur_next st (OpenTag t # ts) = Gives t (tag_name t # st) ts"
| "cur_next st (EmptyTag t # ts) = Gives t st ts"
| "cur_next st (CloseTag t # ts) =
     (case st of [] \<Rightarrow> Fails | n # st' \<Rightarrow> if n = tag_name t then Gives t st' ts else Fails)"

text \<open>The first opening tag whose names from the root are \<open>path\<close>.\<close>

fun cur_open :: "bytes list \<Rightarrow> bytes list \<Rightarrow> xml_token list \<Rightarrow> xml_tag_info outcome" where
  "cur_open path st [] = Fails"
| "cur_open path st (OpenTag t # ts) =
     (if rev (tag_name t # st) = path then Gives t (tag_name t # st) ts
      else cur_open path (tag_name t # st) ts)"
| "cur_open path st (EmptyTag t # ts) =
     (if rev (tag_name t # st) = path then Gives t st ts else cur_open path st ts)"
| "cur_open path st (CloseTag t # ts) =
     (case st of [] \<Rightarrow> Fails | n # st' \<Rightarrow> if n = tag_name t then cur_open path st' ts else Fails)"

text \<open>
  The next opening tag with one of the names, at any depth, up to the closing tag on the
  level \<open>lvl\<close>; with \<open>deep\<close> taken away, only those one level below \<open>lvl\<close>.
\<close>

fun cur_find :: "bool \<Rightarrow> nat \<Rightarrow> bytes list \<Rightarrow> bytes list \<Rightarrow> xml_token list \<Rightarrow> xml_tag_info option outcome" where
  "cur_find deep lvl names st [] = RunsOut"
| "cur_find deep lvl names st (OpenTag t # ts) =
     (if tag_name t \<in> set names \<and> (deep \<or> tag_level t = lvl + 1) then Gives (Some t) (tag_name t # st) ts
      else cur_find deep lvl names (tag_name t # st) ts)"
| "cur_find deep lvl names st (EmptyTag t # ts) =
     (if tag_name t \<in> set names \<and> (deep \<or> tag_level t = lvl + 1) then Gives (Some t) st ts
      else cur_find deep lvl names st ts)"
| "cur_find deep lvl names st (CloseTag t # ts) =
     (case st of
        [] \<Rightarrow> Fails
      | n # st' \<Rightarrow>
          if n \<noteq> tag_name t then Fails
          else if tag_level t = lvl then Gives None st' ts
          else cur_find deep lvl names st' ts)"

fun cur_close :: "nat \<Rightarrow> bytes list \<Rightarrow> xml_token list \<Rightarrow> xml_tag_info outcome" where
  "cur_close lvl st [] = RunsOut"
| "cur_close lvl st (OpenTag t # ts) = cur_close lvl (tag_name t # st) ts"
| "cur_close lvl st (EmptyTag t # ts) = cur_close lvl st ts"
| "cur_close lvl st (CloseTag t # ts) =
     (case st of
        [] \<Rightarrow> Fails
      | n # st' \<Rightarrow>
          if n \<noteq> tag_name t then Fails
          else if tag_level t = lvl then Gives t st' ts
          else cur_close lvl st' ts)"

definition cur_node :: "bytes \<Rightarrow> xml_tag_info \<Rightarrow> bytes list \<Rightarrow> xml_token list \<Rightarrow> xml_node outcome" where
  "cur_node body t st ts =
     (if is_self_closing t then Gives \<lparr>node_name = tag_name t, inner_content = None\<rparr> st ts
      else
        case cur_close (tag_level t) st ts of
          Gives c st' ts' \<Rightarrow>
            Gives \<lparr>node_name = tag_name t,
                   inner_content =
                     Some (take (start_pos c - (end_pos t + 1)) (drop (end_pos t + 1) body))\<rparr> st' ts'
        | Fails \<Rightarrow> Fails
        | RunsOut \<Rightarrow> RunsOut)"

type_synonym cursor = "bytes \<times> bytes list \<times> xml_token list"

text \<open>An answer of the reader is the one of the cursor.\<close>

definition answers ::
  "('r \<Rightarrow> cursor) \<Rightarrow> 'r \<Rightarrow> 'a outcome \<Rightarrow> ('a \<Rightarrow> 'b) \<Rightarrow> ('b, bytes) result \<times> 'r \<Rightarrow> bool"
where
  "answers view r out f res =
     (case out of
        Gives a st ts \<Rightarrow> fst res = Inr (f a) \<and> view (snd res) = (fst (view r), st, ts)
      | Fails \<Rightarrow> isl (fst res)
      | RunsOut \<Rightarrow> True)"

locale document_reader =
  fixes x :: "'r xml_reader" and view :: "'r \<Rightarrow> cursor" and base :: nat
  assumes starts: "is_safe_to_read body \<Longrightarrow>
      (case from_slice x body of
         Inl _ \<Rightarrow> tokens 0 base body = []
       | Inr r \<Rightarrow> view r = (body, [], tokens 0 base body))"
    and opens: "view r = (body, st, ts) \<Longrightarrow>
      (case cur_open (split_on CHR ''/'' path) st ts of
         Gives t st' ts' \<Rightarrow>
           fst (find_the_open_node x path r) = Inr (Some t)
           \<and> view (snd (find_the_open_node x path r)) = (body, st', ts')
       | Fails \<Rightarrow> fst (find_the_open_node x path r) \<notin> range (Inr \<circ> Some)
       | RunsOut \<Rightarrow> True)"
    and next_tags: "view r = (body, st, ts) \<Longrightarrow> answers view r (cur_next st ts) Some (read_next_tag x r)"
    and no_next_tag: "view r = (body, st, []) \<Longrightarrow> fst (read_next_tag x r) \<notin> range (Inr \<circ> Some)"
    and finds: "view r = (body, st, ts) \<Longrightarrow>
      answers view r (cur_find True (tag_level p) names st ts) id
        (find_any_of_these_nodes_inside_parent x p names r)"
    and nodes: "view r = (body, st, ts) \<Longrightarrow>
      answers view r (cur_node body t st ts) id (read_the_whole_node x t r)"
begin

text \<open>The loop that passes over what is too deep finds exactly the next child.\<close>

lemma shallow_find:
  "cur_find False lvl names st ts = out \<Longrightarrow>
   (cur_find True lvl names st ts = out \<and> (\<forall>t st' ts'. out = Gives (Some t) st' ts' \<longrightarrow> tag_level t = lvl + 1))
   \<or> (\<exists>t st1 ts1. cur_find True lvl names st ts = Gives (Some t) st1 ts1 \<and> tag_level t \<noteq> lvl + 1
        \<and> length ts1 < length ts \<and> cur_find False lvl names st1 ts1 = out)"
proof (induction False lvl names st ts rule: cur_find.induct)
  case (2 lvl names st t ts)
  then show ?case by (auto split: if_splits)
next
  case (3 lvl names st t ts)
  then show ?case by (auto split: if_splits)
next
  case (4 lvl names st t ts)
  then show ?case by (auto split: list.splits if_splits)
qed simp

lemma direct_child:
  assumes "view r = (body, st, ts)"
  shows "(case cur_find False (tag_level p) names st ts of
      Gives a st' ts' \<Rightarrow>
        \<exists>r'. next_direct_child x p names r = Some (Inr a, r') \<and> view r' = (body, st', ts')
    | Fails \<Rightarrow> \<exists>e r'. next_direct_child x p names r = Some (Inl e, r')
    | RunsOut \<Rightarrow> True)"
  using assms
proof (induction ts arbitrary: r st rule: length_induct)
  case (1 ts)
  let ?res = "find_any_of_these_nodes_inside_parent x p names r"
  obtain a r1 where res: "?res = (a, r1)" by fastforce
  note f = finds [OF 1(2), of p names, unfolded answers_def res]
  consider (same) "cur_find True (tag_level p) names st ts = cur_find False (tag_level p) names st ts"
      "\<forall>t st' ts'. cur_find False (tag_level p) names st ts = Gives (Some t) st' ts' \<longrightarrow> tag_level t = tag_level p + 1"
    | (deeper) t st1 ts1 where "cur_find True (tag_level p) names st ts = Gives (Some t) st1 ts1"
      "tag_level t \<noteq> tag_level p + 1" "length ts1 < length ts"
      "cur_find False (tag_level p) names st1 ts1 = cur_find False (tag_level p) names st ts"
    using shallow_find [OF refl, of "tag_level p" names st ts] by auto
  then show ?case
  proof cases
    case same
    then show ?thesis
      using f 1(2) res
      by (auto simp: next_direct_child.simps [of x p names r] split: outcome.split option.split sum.split)
  next
    case (deeper t st1 ts1)
    then have "a = Inr (Some t)" "view r1 = (body, st1, ts1)" using f 1(2) by simp_all
    then have again: "next_direct_child x p names r = next_direct_child x p names r1"
      using deeper(2) res by (subst next_direct_child.simps) simp
    show ?thesis
      unfolding again using 1(1) [rule_format, OF deeper(3) \<open>view r1 = _\<close>] by (simp only: deeper(4))
  qed
qed

end

section \<open>The cursor on a document\<close>

lemma toks_append: "toks off d (us @ ts) = toks off d us @ toks (off + length (print_trees us)) d ts"
  by (induction off d us rule: toks.induct) (simp_all add: Let_def ac_simps numeral_3_eq_3)

lemma find_skips: "lvl + 1 < d \<Longrightarrow> cur_find False lvl names st (toks off d ts @ rest) = cur_find False lvl names st rest"
  by (induction off d ts arbitrary: st rest rule: toks.induct) (simp_all add: Let_def tag_at_def)

lemma close_skips: "lvl < d \<Longrightarrow> cur_close lvl st (toks off d ts @ rest) = cur_close lvl st rest"
  by (induction off d ts arbitrary: st rest rule: toks.induct) (simp_all add: Let_def tag_at_def)

text \<open>Nothing is found where the names that are open do not lead to the path.\<close>

lemma open_skips:
  "\<not> strict_prefix (rev st) path \<Longrightarrow> cur_open path st (toks off d ts @ rest) = cur_open path st rest"
proof (induction off d ts arbitrary: st rest rule: toks.induct)
  case (2 off d n a cs ts)
  then have "\<not> strict_prefix (rev (n # st)) path" "rev (n # st) \<noteq> path"
    by (auto simp: strict_prefix_def prefix_def)
  with 2 show ?case by (simp add: Let_def tag_at_def)
next
  case (3 off d n a ts)
  then have "rev (n # st) \<noteq> path" by (auto simp: strict_prefix_def prefix_def)
  with 3 show ?case by (simp add: tag_at_def)
qed simp_all

primrec wanted :: "bytes list \<Rightarrow> xml_tree \<Rightarrow> bool" where
  "wanted names (Node n a cs) \<longleftrightarrow> n \<in> set names"
| "wanted names (Leaf n a) \<longleftrightarrow> n \<in> set names"
| "wanted names (Chars s) \<longleftrightarrow> False"

lemma find_unwanted:
  "list_all (\<lambda>t. \<not> wanted names t) us \<Longrightarrow>
   cur_find False lvl names st (toks off (Suc lvl) us @ rest) = cur_find False lvl names st rest"
proof (induction us arbitrary: off)
  case (Cons u us)
  then show ?case
    by (cases u) (simp_all add: Let_def tag_at_def find_skips)
qed simp

lemma open_unwanted:
  assumes "length path = Suc (length st)" "butlast path = rev st"
  shows "list_all (\<lambda>t. \<not> wanted [last path] t) us \<Longrightarrow>
   cur_open path st (toks off d us @ rest) = cur_open path st rest"
proof (induction us arbitrary: off)
  case (Cons u us)
  have "rev (n # st) = path \<longleftrightarrow> n = last path" for n
    using assms by (metis append_butlast_last_id last_snoc length_0_conv nat.distinct(1) rev.simps(2))
  moreover have "\<not> strict_prefix (rev (n # st)) path" for n
    using assms(1) prefix_length_less [of "rev (n # st)" path] by auto
  ultimately show ?case
    using Cons by (cases u) (simp_all add: Let_def tag_at_def open_skips del: rev.simps)
qed simp

text \<open>The first wanted element.\<close>

lemma first_wanted:
  obtains (none) "list_all (\<lambda>t. \<not> wanted names t) ts"
  | (some) us t vs where "ts = us @ t # vs" "list_all (\<lambda>t. \<not> wanted names t) us" "wanted names t"
  using split_list_first_prop [of ts "wanted names"] by (auto simp: list_all_iff)

primrec is_chars :: "xml_tree \<Rightarrow> bool" where
  "is_chars (Node n a cs) \<longleftrightarrow> False"
| "is_chars (Leaf n a) \<longleftrightarrow> False"
| "is_chars (Chars s) \<longleftrightarrow> True"

lemma toks_chars: "list_all is_chars cs \<Longrightarrow> toks off d cs = []"
  by (induction off d cs rule: toks.induct) simp_all

lemma not_self_closing: "name_ok n \<Longrightarrow> attrs_ok a \<Longrightarrow> \<not> is_self_closing (tag_at n (''<'' @ n @ a @ ''>'') d off)"
proof
  assume n: "name_ok n" "attrs_ok a" and "is_self_closing (tag_at n (''<'' @ n @ a @ ''>'') d off)"
  then obtain ys where "''<'' @ n @ a @ ''>'' = ys @ ''/>''"
    by (auto simp: is_self_closing_def tag_at_def suffix_def)
  then have "CHR ''<'' # n @ a = ys @ ''/''" by simp
  then have "last (n @ a) = CHR ''/''"
    using name_ok_simps(4) [OF n(1)] by (metis append_is_Nil_conv last_ConsR last_snoc)
  then show False using open_element_name [OF n] by (simp add: element_name_def)
qed

lemma self_closing: "is_self_closing (tag_at n (''<'' @ n @ a @ ''/>'') d off)"
  by (auto simp: is_self_closing_def tag_at_def suffix_def)

text \<open>The text of an element, as it is read: a self-closed one has none.\<close>

primrec text_of :: "xml_tree \<Rightarrow> bytes" where
  "text_of (Node n a cs) = unescape (print_trees cs)"
| "text_of (Leaf n a) = []"
| "text_of (Chars s) = []"

primrec name_of :: "xml_tree \<Rightarrow> bytes" where
  "name_of (Node n a cs) = n"
| "name_of (Leaf n a) = n"
| "name_of (Chars s) = []"

lemma drop_on: "drop off b = u @ v \<Longrightarrow> drop (off + length u) b = v"
  by (metis add.commute append_eq_conv_conj drop_drop)

lemma behind_prefix: "s = pre @ post \<Longrightarrow> drop (length pre) s = post" "s = pre @ post \<Longrightarrow> length pre \<le> length s"
  by simp_all

context document_reader
begin

lemma node_text:
  assumes "walker_reader w = r" "view r = (body, n # st, toks i (Suc d) cs @ CloseTag (tag_at n raw' d c) # rest)"
    and "name_ok n" "attrs_ok a" "list_all tree_ok cs"
    and "i = off + length n + length a + 2" "c = i + length (print_trees cs)"
    and "drop off body = print_tree (Node n a cs) @ post"
  shows "\<exists>r'. read_text x (tag_at n (''<'' @ n @ a @ ''>'') d off) w
      = (Inr (text_of (Node n a cs)), w\<lparr>walker_reader := r'\<rparr>) \<and> view r' = (body, st, rest)"
proof -
  let ?t = "tag_at n (''<'' @ n @ a @ ''>'') d off"
  have "drop i body = drop (length n + length a + 2) (drop off body)" using assms(6) by (simp add: ac_simps)
  then have i: "drop i body = print_trees cs @ ''</'' @ n @ ''>'' @ post" using assms(8) by simp
  have e: "end_pos ?t + 1 = i" using assms(6) by (simp add: tag_at_def)
  have "cur_close (tag_level ?t) (n # st) (toks i (Suc d) cs @ CloseTag (tag_at n raw' d c) # rest)
      = Gives (tag_at n raw' d c) st rest"
    by (simp add: tag_at_def close_skips)
  then have "cur_node body ?t (n # st) (toks i (Suc d) cs @ CloseTag (tag_at n raw' d c) # rest)
      = Gives \<lparr>node_name = n, inner_content = Some (print_trees cs)\<rparr> st rest"
    using not_self_closing [OF assms(3,4)] i assms(7) unfolding cur_node_def e by (simp add: tag_at_def)
  from nodes [OF assms(2), of ?t, unfolded this answers_def] assms(1,2) trees_utf8 [OF assms(5)]
  show ?thesis
    by (cases "read_the_whole_node x ?t r") (auto simp: read_text_def)
qed

lemma leaf_text:
  assumes "walker_reader w = r" "view r = (body, st, ts)"
  shows "\<exists>r'. read_text x (tag_at n (''<'' @ n @ a @ ''/>'') d off) w
      = (Inr (text_of (Leaf n a)), w\<lparr>walker_reader := r'\<rparr>) \<and> view r' = (body, st, ts)"
proof -
  let ?t = "tag_at n (''<'' @ n @ a @ ''/>'') d off"
  have "cur_node body ?t st ts = Gives \<lparr>node_name = n, inner_content = None\<rparr> st ts"
    using self_closing [of n a d off] by (simp add: cur_node_def tag_at_def)
  from nodes [OF assms(2), of ?t, unfolded this answers_def] assms show ?thesis
    by (cases "read_the_whole_node x ?t r") (auto simp: read_text_def)
qed

text \<open>The next child of an element that is open.\<close>

lemma children_end:
  assumes "view r = (body, pn # st, toks off (Suc (tag_level p)) ts @ CloseTag (tag_at pn raw (tag_level p) c) # rest)"
    and "list_all (\<lambda>t. \<not> wanted names t) ts"
  shows "\<exists>r'. next_direct_child x p names r = Some (Inr None, r') \<and> view r' = (body, st, rest)"
  using direct_child [OF assms(1), of p names] find_unwanted [OF assms(2)]
  by (simp add: tag_at_def)

lemma children_node:
  assumes "view r = (body, st, toks off (Suc (tag_level p)) (us @ Node n a cs # vs) @ rest)"
    and "list_all (\<lambda>t. \<not> wanted names t) us" "n \<in> set names"
    and "o' = off + length (print_trees us)" "i = o' + length n + length a + 2" "c = i + length (print_trees cs)"
  shows "\<exists>r'. next_direct_child x p names r
      = Some (Inr (Some (tag_at n (''<'' @ n @ a @ ''>'') (Suc (tag_level p)) o')), r')
    \<and> view r' = (body, n # st, toks i (Suc (Suc (tag_level p))) cs
        @ CloseTag (tag_at n (''</'' @ n @ ''>'') (Suc (tag_level p)) c)
          # toks (c + length n + 3) (Suc (tag_level p)) vs @ rest)"
  using direct_child [OF assms(1), of p names] find_unwanted [OF assms(2)] assms(3-6)
  by (simp add: toks_append Let_def tag_at_def)

lemma children_leaf:
  assumes "view r = (body, st, toks off (Suc (tag_level p)) (us @ Leaf n a # vs) @ rest)"
    and "list_all (\<lambda>t. \<not> wanted names t) us" "n \<in> set names"
    and "o' = off + length (print_trees us)"
  shows "\<exists>r'. next_direct_child x p names r
      = Some (Inr (Some (tag_at n (''<'' @ n @ a @ ''/>'') (Suc (tag_level p)) o')), r')
    \<and> view r' = (body, st, toks (o' + length n + length a + 3) (Suc (tag_level p)) vs @ rest)"
  using direct_child [OF assms(1), of p names] find_unwanted [OF assms(2)] assms(3,4)
  by (simp add: toks_append Let_def tag_at_def)

text \<open>The next wanted child together with its text.\<close>

lemma named_text:
  assumes w: "walker_reader w = r" "view r = (body, st, toks off (Suc (tag_level p)) (us @ t # vs) @ rest)"
    and us: "list_all (\<lambda>t. \<not> wanted names t) us" "wanted names t" "tree_ok t"
    and at: "drop off body = print_trees (us @ t # vs) @ post"
  shows "\<exists>g r1 r2 off'. next_direct_child x p names r = Some (Inr (Some g), r1) \<and> tag_name g = name_of t
    \<and> read_text x g (w\<lparr>walker_reader := r1\<rparr>) = (Inr (text_of t), w\<lparr>walker_reader := r2\<rparr>)
    \<and> view r2 = (body, st, toks off' (Suc (tag_level p)) vs @ rest) \<and> drop off' body = print_trees vs @ post"
proof (cases t)
  case (Node n a cs)
  let ?o = "off + length (print_trees us)"
  let ?i = "?o + length n + length a + 2"
  let ?c = "?i + length (print_trees cs)"
  let ?e = "?c + length n + 3"
  have ok: "name_ok n" "attrs_ok a" "list_all tree_ok cs" "n \<in> set names" using us(2,3) Node by simp_all
  obtain r1 where r1: "next_direct_child x p names r
      = Some (Inr (Some (tag_at n (''<'' @ n @ a @ ''>'') (Suc (tag_level p)) ?o)), r1)"
    "view r1 = (body, n # st, toks ?i (Suc (Suc (tag_level p))) cs
      @ CloseTag (tag_at n (''</'' @ n @ ''>'') (Suc (tag_level p)) ?c) # toks ?e (Suc (tag_level p)) vs @ rest)"
    using children_node [OF w(2) [unfolded Node] us(1) ok(4) refl refl refl] by blast
  have o: "drop ?o body = print_tree (Node n a cs) @ print_trees vs @ post"
    using drop_on [of off body "print_trees us"] at Node by simp
  have "drop ?e body = print_trees vs @ post" using drop_on [OF o] by (simp add: ac_simps numeral_3_eq_3)
  moreover have "walker_reader (w\<lparr>walker_reader := r1\<rparr>) = r1" by simp
  note node_text [OF this r1(2) ok(1-3) refl refl o]
  ultimately show ?thesis using r1(1) Node by (auto simp: tag_at_def)
next
  case (Leaf n a)
  let ?o = "off + length (print_trees us)"
  let ?e = "?o + length n + length a + 3"
  have n: "n \<in> set names" using us(2) Leaf by simp
  obtain r1 where r1: "next_direct_child x p names r
      = Some (Inr (Some (tag_at n (''<'' @ n @ a @ ''/>'') (Suc (tag_level p)) ?o)), r1)"
    "view r1 = (body, st, toks ?e (Suc (tag_level p)) vs @ rest)"
    using children_leaf [OF w(2) [unfolded Leaf] us(1) n refl] by blast
  have "drop ?e body = print_trees vs @ post"
    using drop_on [of off body "print_trees us @ print_tree (Leaf n a)" "print_trees vs @ post"] at Leaf
    by (simp add: ac_simps numeral_3_eq_3)
  moreover have "walker_reader (w\<lparr>walker_reader := r1\<rparr>) = r1" by simp
  note leaf_text [OF this r1(2), of n a "Suc (tag_level p)" ?o]
  ultimately show ?thesis using r1(1) Leaf by (auto simp: tag_at_def)
qed (use us(2) in simp)

text \<open>Opening a document.\<close>

lemma document_starts:
  assumes "document_ok p t q" "\<And>s. t \<noteq> Chars s"
  shows "\<exists>r. from_slice x (document p t q) = Inr r \<and> view r = (document p t q, [], toks (length p) base [t])"
proof -
  have "tokens 0 base (document p t q) = toks (length p) base [t]"
    using document_tokens [OF assms(1), of 0 base] by simp
  moreover have "toks (length p) base [t] \<noteq> []" using assms(2) by (cases t) (auto simp: Let_def)
  ultimately show ?thesis
    using starts [OF document_safe [OF assms(1)]] by (cases "from_slice x (document p t q)") auto
qed

lemma found_node:
  assumes "view r = (body, st, ts)" "cur_open (split_on CHR ''/'' path) st ts = Gives t st' ts'"
  shows "\<exists>r'. find_the_open_node x path r = (Inr (Some t), r') \<and> view r' = (body, st', ts')"
  using opens [OF assms(1), of path] assms(2) by (cases "find_the_open_node x path r") simp

lemma absent_node:
  assumes "view r = (body, st, ts)" "cur_open (split_on CHR ''/'' path) st ts = Fails"
  shows "\<exists>r'. find_the_open_node x path r = (Inr None, r') \<or> (\<exists>e. find_the_open_node x path r = (Inl e, r'))"
proof -
  obtain a r' where f: "find_the_open_node x path r = (a, r')" by fastforce
  have "a \<notin> range (Inr \<circ> Some)" using opens [OF assms(1), of path] assms(2) f by simp
  then show ?thesis using f by (cases a; cases "projr a") auto
qed

lemma walker_opens:
  assumes ok: "document_ok p (Node n a ts) q"
  shows "\<exists>r. open_walker x (document p (Node n a ts) q) n
      = Inr (Some \<lparr>walker_reader = r, walker_root = tag_at n (''<'' @ n @ a @ ''>'') base (length p)\<rparr>)
    \<and> view r = (document p (Node n a ts) q, [n],
        toks (length p + length n + length a + 2) (Suc base) ts
        @ [CloseTag (tag_at n (''</'' @ n @ ''>'') base
             (length p + length n + length a + 2 + length (print_trees ts)))])"
proof -
  obtain r where r: "from_slice x (document p (Node n a ts) q) = Inr r"
    "view r = (document p (Node n a ts) q, [], toks (length p) base [Node n a ts])"
    using document_starts [OF ok] by blast
  have "CHR ''/'' \<notin> set n" using ok name_ok_simps by (simp add: document_ok_def)
  then have "cur_open (split_on CHR ''/'' n) [] (toks (length p) base [Node n a ts])
      = Gives (tag_at n (''<'' @ n @ a @ ''>'') base (length p)) [n]
          (tl (toks (length p) base [Node n a ts]))"
    by (simp add: split_on_no_sep Let_def tag_at_def)
  from found_node [OF r(2) this] obtain r' where
    "find_the_open_node x n r = (Inr (Some (tag_at n (''<'' @ n @ a @ ''>'') base (length p))), r')"
    "view r' = (document p (Node n a ts) q, [n], tl (toks (length p) base [Node n a ts]))"
    by blast
  then show ?thesis
    using r(1) document_safe [OF ok] by (auto simp: open_walker_def Let_def)
qed

lemma walker_opens_leaf:
  assumes ok: "document_ok p (Leaf n a) q"
  shows "\<exists>r. open_walker x (document p (Leaf n a) q) n
      = Inr (Some \<lparr>walker_reader = r, walker_root = tag_at n (''<'' @ n @ a @ ''/>'') base (length p)\<rparr>)"
proof -
  obtain r where r: "from_slice x (document p (Leaf n a) q) = Inr r"
    "view r = (document p (Leaf n a) q, [], toks (length p) base [Leaf n a])"
    using document_starts [OF ok] by blast
  have "CHR ''/'' \<notin> set n" using ok name_ok_simps by (simp add: document_ok_def)
  then have "cur_open (split_on CHR ''/'' n) [] (toks (length p) base [Leaf n a])
      = Gives (tag_at n (''<'' @ n @ a @ ''/>'') base (length p)) [] []"
    by (simp add: split_on_no_sep tag_at_def)
  from found_node [OF r(2) this] show ?thesis
    using r(1) document_safe [OF ok] by (auto simp: open_walker_def)
qed

lemma walker_not_this_root:
  assumes ok: "document_ok p t q" and root: "\<And>s. t \<noteq> Chars s" "name_of t \<noteq> n" "name_ok n"
  shows "\<nexists>w. open_walker x (document p t q) n = Inr (Some w)"
proof -
  obtain r where r: "from_slice x (document p t q) = Inr r"
    "view r = (document p t q, [], toks (length p) base [t])"
    using document_starts [OF ok root(1)] by blast
  have "cur_open [n] [] (toks (length p) base [t]) = Fails"
    using root(1,2) open_unwanted [of "[n]" "[]" "[t]" "length p" base "[]"] by (cases t) simp_all
  moreover have "CHR ''/'' \<notin> set n" using root(3) name_ok_simps by blast
  ultimately have "cur_open (split_on CHR ''/'' n) [] (toks (length p) base [t]) = Fails"
    by (simp add: split_on_no_sep)
  from absent_node [OF r(2) this] show ?thesis
    using r(1) document_safe [OF ok] by (auto simp: open_walker_def)
qed

text \<open>The text of one node: the root's, or that of its first child of a name.\<close>

lemma text_between:
  assumes "from_slice x body = Inr r" "is_safe_to_read body" "view r = (body, [], ts)"
    and "cur_open (split_on CHR ''/'' path) [] ts = Gives (tag_at n raw d off) st (CloseTag (tag_at m raw' d' c) # rest)"
    and "st = m # st'" "raw \<noteq> []" "off + length raw + length s = c"
    and "drop (off + length raw) body = s @ post" "from_utf8_ok s" "off + length raw \<le> length body"
  shows "read_node_text x body path = Some (unescape s)"
proof -
  obtain r1 where o: "find_the_open_node x path r = (Inr (Some (tag_at n raw d off)), r1)"
    "view r1 = (body, st, CloseTag (tag_at m raw' d' c) # rest)"
    using found_node [OF assms(3,4)] by blast
  have "answers view r1 (Gives (tag_at m raw' d' c) st' rest) Some (read_next_tag x r1)"
    using next_tags [OF o(2)] assms(5) by (simp add: tag_at_def)
  then obtain r2 where nx: "read_next_tag x r1 = (Inr (Some (tag_at m raw' d' c)), r2)"
    by (cases "read_next_tag x r1") (simp add: answers_def)
  have len: "c \<le> length body"
    using arg_cong [OF assms(8), of length] assms(7,10) by simp
  have "end_pos (tag_at n raw d off) + 1 = off + length raw" "start_pos (tag_at m raw' d' c) = c"
    using assms(6) by (simp_all add: tag_at_def)
  then show ?thesis
    using assms(1,2,7,8,9) o(1) nx len
    by (simp add: read_node_text_def Let_def)
qed

lemma root_text:
  assumes ok: "document_ok p (Node n a cs) q" and plain: "list_all is_chars cs"
  shows "read_node_text x (document p (Node n a cs) q) n = Some (unescape (print_trees cs))"
proof -
  let ?body = "document p (Node n a cs) q"
  obtain r where r: "from_slice x ?body = Inr r" "view r = (?body, [], toks (length p) base [Node n a cs])"
    using document_starts [OF ok] by blast
  have "CHR ''/'' \<notin> set n" using ok name_ok_simps by (simp add: document_ok_def)
  then have "cur_open (split_on CHR ''/'' n) [] (toks (length p) base [Node n a cs])
      = Gives (tag_at n (''<'' @ n @ a @ ''>'') base (length p)) [n]
          [CloseTag (tag_at n (''</'' @ n @ ''>'') base (length p + length n + length a + 2 + length (print_trees cs)))]"
    using toks_chars [OF plain] by (simp add: split_on_no_sep Let_def tag_at_def)
  from text_between [OF r(1) document_safe [OF ok] r(2) this, of "[]" "print_trees cs" "''</'' @ n @ ''>'' @ q"]
  show ?thesis using ok trees_utf8 [of cs] by (simp add: document_def document_ok_def)
qed

lemma child_text:
  assumes ok: "document_ok p (Node m a (us @ Node n b cs # vs)) q" and plain: "list_all is_chars cs"
    and us: "list_all (\<lambda>t. \<not> wanted [n] t) us"
  shows "read_node_text x (document p (Node m a (us @ Node n b cs # vs)) q) (m @ ''/'' @ n) = Some (unescape (print_trees cs))"
proof -
  let ?t = "Node m a (us @ Node n b cs # vs)"
  let ?body = "document p ?t q"
  let ?o = "length p + length m + length a + 2 + length (print_trees us)"
  let ?c = "?o + length n + length b + 2 + length (print_trees cs)"
  obtain r where r: "from_slice x ?body = Inr r" "view r = (?body, [], toks (length p) base [?t])"
    using document_starts [OF ok] by blast
  have "CHR ''/'' \<notin> set m" "CHR ''/'' \<notin> set n" using ok name_ok_simps by (simp_all add: document_ok_def)
  then have path: "split_on CHR ''/'' (m @ ''/'' @ n) = [m, n]" by (simp add: split_on_append split_on_no_sep)
  have "cur_open [m, n] [m] (toks (length p + length m + length a + 2) (Suc base) (us @ Node n b cs # vs) @ rest)
      = cur_open [m, n] [m] (toks ?o (Suc base) (Node n b cs # vs) @ rest)" for rest
    unfolding toks_append append.assoc using us by (subst open_unwanted) simp_all
  then obtain rest where "cur_open (split_on CHR ''/'' (m @ ''/'' @ n)) [] (toks (length p) base [?t])
      = Gives (tag_at n (''<'' @ n @ b @ ''>'') (Suc base) ?o) [n, m]
          (CloseTag (tag_at n (''</'' @ n @ ''>'') (Suc base) ?c) # rest)"
    unfolding path using toks_chars [OF plain] by (simp add: Let_def tag_at_def)
  note found = text_between [OF r(1) document_safe [OF ok] r(2) this, of "[m]" "print_trees cs"]
  let ?pre = "p @ ''<'' @ m @ a @ ''>'' @ print_trees us @ ''<'' @ n @ b @ ''>''"
  let ?post = "''</'' @ n @ ''>'' @ print_trees vs @ ''</'' @ m @ ''>'' @ q"
  have len: "?o + length (''<'' @ n @ b @ ''>'') = length ?pre" by simp
  have "?body = ?pre @ print_trees cs @ ?post" by (simp add: document_def)
  then have at: "drop (length ?pre) ?body = print_trees cs @ ?post" "length ?pre \<le> length ?body"
    by (rule behind_prefix)+
  have "from_utf8_ok (print_trees cs)" using ok trees_utf8 [of cs] by (simp add: document_ok_def)
  from found [OF refl _ _ _ this, unfolded len, OF _ _ at] show ?thesis by simp
qed

lemma absent_text:
  assumes ok: "document_ok p t q" and root: "\<And>s. t \<noteq> Chars s"
    and absent: "cur_open (split_on CHR ''/'' path) [] (toks (length p) base [t]) = Fails"
  shows "read_node_text x (document p t q) path = None"
proof -
  obtain r where r: "from_slice x (document p t q) = Inr r"
    "view r = (document p t q, [], toks (length p) base [t])"
    using document_starts [OF ok root] by blast
  from absent_node [OF r(2) absent] show ?thesis
    using r(1) by (auto simp: read_node_text_def)
qed

lemma absent_child_text:
  assumes ok: "document_ok p (Node m a ts) q" and n: "name_ok n" and ts: "list_all (\<lambda>t. \<not> wanted [n] t) ts"
  shows "read_node_text x (document p (Node m a ts) q) (m @ ''/'' @ n) = None"
proof (rule absent_text [OF ok])
  have "CHR ''/'' \<notin> set m" "CHR ''/'' \<notin> set n" using ok n name_ok_simps by (simp_all add: document_ok_def)
  then have path: "split_on CHR ''/'' (m @ ''/'' @ n) = [m, n]" by (simp add: split_on_append split_on_no_sep)
  show "cur_open (split_on CHR ''/'' (m @ ''/'' @ n)) [] (toks (length p) base [Node m a ts]) = Fails"
    unfolding path using ts by (simp add: Let_def tag_at_def open_unwanted)
qed simp

lemma other_root_text:
  assumes ok: "document_ok p t q" and root: "\<And>s. t \<noteq> Chars s" and m: "name_of t \<noteq> hd (split_on CHR ''/'' path)"
  shows "read_node_text x (document p t q) path = None"
proof (rule absent_text [OF ok root])
  let ?path = "split_on CHR ''/'' path"
  have "\<not> strict_prefix (rev [name_of t]) ?path" "rev [name_of t] \<noteq> ?path"
    using m by (auto simp: strict_prefix_def prefix_def) (metis list.sel(1))
  then show "cur_open ?path [] (toks (length p) base [t]) = Fails"
    using root by (cases t) (simp_all add: Let_def tag_at_def open_skips)
qed

lemma leaf_root_text:
  assumes ok: "document_ok p (Leaf n a) q"
  shows "read_node_text x (document p (Leaf n a) q) n = None"
proof -
  let ?body = "document p (Leaf n a) q"
  obtain r where r: "from_slice x ?body = Inr r" "view r = (?body, [], toks (length p) base [Leaf n a])"
    using document_starts [OF ok] by blast
  have "CHR ''/'' \<notin> set n" using ok name_ok_simps by (simp add: document_ok_def)
  then have "cur_open (split_on CHR ''/'' n) [] (toks (length p) base [Leaf n a])
      = Gives (tag_at n (''<'' @ n @ a @ ''/>'') base (length p)) [] []"
    by (simp add: split_on_no_sep tag_at_def)
  from found_node [OF r(2) this] obtain r1 where
    f: "find_the_open_node x n r = (Inr (Some (tag_at n (''<'' @ n @ a @ ''/>'') base (length p))), r1)"
    "view r1 = (?body, [], [])" by blast
  obtain b r2 where b: "read_next_tag x r1 = (b, r2)" by fastforce
  have "b \<notin> range (Inr \<circ> Some)" using no_next_tag [OF f(2)] b by simp
  then show ?thesis
    using r(1) f(1) b by (cases b; cases "projr b") (auto simp: read_node_text_def)
qed

lemma no_tags_text:
  assumes "CHR ''<'' \<notin> set body"
  shows "read_node_text x body path = None" "\<nexists>w. open_walker x body n = Inr (Some w)"
proof -
  have t: "tokens 0 base body = []" using assms by (simp add: tokens_none next_tag_None)
  have fails: "cur_open (split_on CHR ''/'' path) [] [] = Fails" for path by simp
  have no: "find_the_open_node x path r \<noteq> (Inr (Some t), r')"
    if "is_safe_to_read body" "from_slice x body = Inr r" for path r t r'
    using absent_node [of r body "[]" "[]" path] starts [OF that(1)] that(2) t by auto
  show "read_node_text x body path = None"
    using no [of _ path] by (auto simp: read_node_text_def split: sum.splits option.splits prod.splits)
  show "\<nexists>w. open_walker x body n = Inr (Some w)"
    using no [of _ n] by (auto simp: open_walker_def try_bind_Inr_iff split: sum.splits option.splits prod.splits if_splits)
qed

end

section \<open>A reader that keeps the contract\<close>

definition from_outcome :: "('a \<Rightarrow> 'b) \<Rightarrow> 'a outcome \<Rightarrow> cursor \<Rightarrow> ('b, bytes) result \<times> cursor" where
  "from_outcome f out r =
     (case out of Gives a st ts \<Rightarrow> (Inr (f a), (fst r, st, ts)) | _ \<Rightarrow> (Inl ''malformed'', r))"

definition cursor_reader :: "cursor xml_reader" where
  "cursor_reader =
     \<lparr>from_slice = (\<lambda>body. Inr (body, [], tokens 0 1 body)),
      find_the_open_node = (\<lambda>path (b, st, ts).
        from_outcome Some (cur_open (split_on CHR ''/'' path) st ts) (b, st, ts)),
      read_next_tag = (\<lambda>(b, st, ts). from_outcome Some (cur_next st ts) (b, st, ts)),
      find_any_of_these_nodes_inside_parent = (\<lambda>p names (b, st, ts).
        from_outcome id (cur_find True (tag_level p) names st ts) (b, st, ts)),
      read_the_whole_node = (\<lambda>t (b, st, ts). from_outcome id (cur_node b t st ts) (b, st, ts))\<rparr>"

interpretation plain_cursor: document_reader cursor_reader "\<lambda>r. r" 1
  by unfold_locales
    (auto simp: cursor_reader_def from_outcome_def answers_def split: outcome.splits)

end
