(* ===== verification/Listing_Documents.thy ===== *)
theory Listing_Documents
  imports List_Objects Xml_Documents
begin

text \<open>
  A \<open>ListObjectsV2\<close> answer from its bytes to the page: what \<open>parse_list_objects_v2\<close> of
  \<^verbatim>\<open>src/list_objects.rs\<close> makes of a whole document, for every reader that keeps the
  contract of \<open>Xml_Documents\<close>.

  Shown: the page is the one the elements of the document state, or an error; a page
  written as a document, with its kinds of elements interleaved in any way and any other
  elements among them, is read back; a document that was cut is an error.
\<close>

section \<open>The elements of a listing, from its document\<close>

definition texts_of :: "bytes list \<Rightarrow> xml_tree list \<Rightarrow> (bytes \<times> bytes) list" where
  "texts_of names ts = map (\<lambda>t. (name_of t, text_of t)) (filter (wanted names) ts)"

primrec content_of :: "xml_tree \<Rightarrow> xml_tree list" where
  "content_of (Node n a cs) = cs"
| "content_of (Leaf n a) = []"
| "content_of (Chars s) = []"

definition page_element_of :: "xml_tree \<Rightarrow> page_element" where
  "page_element_of t =
     (if name_of t = ''Contents'' then Contents (texts_of OBJECT_ELEMENTS (content_of t))
      else if name_of t = ''CommonPrefixes'' then CommonPrefixes (map snd (texts_of [''Prefix''] (content_of t)))
      else if name_of t = ''IsTruncated'' then IsTruncated (text_of t)
      else NextContinuationToken (text_of t))"

definition page_elements :: "xml_tree list \<Rightarrow> page_element list" where
  "page_elements ts = map page_element_of (filter (wanted PAGE_ELEMENTS) ts)"

lemma filter_unwanted: "list_all (\<lambda>t. \<not> wanted names t) ts \<Longrightarrow> filter (wanted names) ts = []"
  by (auto simp: list_all_iff filter_empty_conv)

lemma texts_of_simps:
  "list_all (\<lambda>t. \<not> wanted names t) ts \<Longrightarrow> texts_of names ts = []"
  "list_all (\<lambda>t. \<not> wanted names t) us \<Longrightarrow> wanted names t \<Longrightarrow>
     texts_of names (us @ t # vs) = (name_of t, text_of t) # texts_of names vs"
  by (simp_all add: texts_of_def filter_unwanted)

lemma page_elements_simps:
  "list_all (\<lambda>t. \<not> wanted PAGE_ELEMENTS t) ts \<Longrightarrow> page_elements ts = []"
  "list_all (\<lambda>t. \<not> wanted PAGE_ELEMENTS t) us \<Longrightarrow> wanted PAGE_ELEMENTS t \<Longrightarrow>
     page_elements (us @ t # vs) = page_element_of t # page_elements vs"
  by (simp_all add: page_elements_def filter_unwanted)

context document_reader
begin

lemma children_texts:
  assumes "walker_reader w = r" "view r = (body, pn # st,
      toks off (Suc (tag_level p)) ts @ CloseTag (tag_at pn raw (tag_level p) c) # rest)"
    and "\<not> is_self_closing p" "list_all tree_ok ts" "drop off body = print_trees ts @ post"
  shows "\<exists>r'. children_text x p names w (texts_of names ts) (w\<lparr>walker_reader := r'\<rparr>) \<and> view r' = (body, st, rest)"
  using assms
proof (induction ts arbitrary: w r off rule: length_induct)
  case (1 ts)
  have step: "next_child_of x p names w = Some (a, w\<lparr>walker_reader := r'\<rparr>)"
    if "next_direct_child x p names r = Some (a, r')" for a r'
    using that 1(2,4) by (simp add: next_child_of_def)
  show ?case
  proof (cases names ts rule: first_wanted)
    case none
    from children_end [OF 1(3) none] obtain r' where
      "next_direct_child x p names r = Some (Inr None, r')" "view r' = (body, st, rest)" by blast
    then show ?thesis using step none by (auto simp: texts_of_simps intro: children_text.no_child)
  next
    case (some us t vs)
    have ok: "tree_ok t" "list_all tree_ok vs" using 1(5) some(1) by simp_all
    from named_text [OF 1(2) 1(3) [unfolded some(1)] some(2,3) ok(1) 1(6) [unfolded some(1)]]
    obtain g r1 r2 off' where g: "next_direct_child x p names r = Some (Inr (Some g), r1)" "tag_name g = name_of t"
      "read_text x g (w\<lparr>walker_reader := r1\<rparr>) = (Inr (text_of t), w\<lparr>walker_reader := r2\<rparr>)"
      and r2: "view r2 = (body, pn # st, toks off' (Suc (tag_level p)) vs @ CloseTag (tag_at pn raw (tag_level p) c) # rest)"
      "drop off' body = print_trees vs @ post"
      by blast
    have "walker_reader (w\<lparr>walker_reader := r2\<rparr>) = r2" by simp
    from 1(1) [rule_format, OF _ this r2(1) 1(4) ok(2) r2(2)] obtain r' where
      "children_text x p names (w\<lparr>walker_reader := r2\<rparr>) (texts_of names vs) (w\<lparr>walker_reader := r'\<rparr>)"
      "view r' = (body, st, rest)"
      using some(1) by auto
    then show ?thesis
      using named_child [OF step [OF g(1)] g(3,2)] some by (auto simp: texts_of_simps)
  qed
qed

lemma named_children:
  assumes w: "walker_reader w = r" "view r = (body, st, toks off (Suc (tag_level p)) (us @ t # vs) @ rest)"
    and us: "list_all (\<lambda>t. \<not> wanted names t) us" "wanted names t" "tree_ok t"
    and at: "drop off body = print_trees (us @ t # vs) @ post"
  shows "\<exists>g r1 r2 off'. next_direct_child x p names r = Some (Inr (Some g), r1) \<and> tag_name g = name_of t
    \<and> children_text x g names' (w\<lparr>walker_reader := r1\<rparr>) (texts_of names' (content_of t)) (w\<lparr>walker_reader := r2\<rparr>)
    \<and> view r2 = (body, st, toks off' (Suc (tag_level p)) vs @ rest) \<and> drop off' body = print_trees vs @ post"
proof (cases t)
  case (Node n a cs)
  let ?o = "off + length (print_trees us)"
  let ?i = "?o + length n + length a + 2"
  let ?c = "?i + length (print_trees cs)"
  let ?e = "?c + length n + 3"
  let ?g = "tag_at n (''<'' @ n @ a @ ''>'') (Suc (tag_level p)) ?o"
  have ok: "name_ok n" "attrs_ok a" "list_all tree_ok cs" "n \<in> set names" using us(2,3) Node by simp_all
  have level: "tag_level ?g = Suc (tag_level p)" by (simp add: tag_at_def)
  obtain r1 where r1: "next_direct_child x p names r = Some (Inr (Some ?g), r1)"
    "view r1 = (body, n # st, toks ?i (Suc (tag_level ?g)) cs
      @ CloseTag (tag_at n (''</'' @ n @ ''>'') (tag_level ?g) ?c) # toks ?e (Suc (tag_level p)) vs @ rest)"
    using children_node [OF w(2) [unfolded Node] us(1) ok(4) refl refl refl] unfolding level by blast
  have o: "drop ?o body = print_tree (Node n a cs) @ print_trees vs @ post"
    using drop_on [of off body "print_trees us"] at Node by simp
  have e: "drop ?e body = print_trees vs @ post" using drop_on [OF o] by (simp add: ac_simps numeral_3_eq_3)
  have i: "drop ?i body = print_trees cs @ ''</'' @ n @ ''>'' @ print_trees vs @ post"
    using drop_on [of ?o body "''<'' @ n @ a @ ''>''"] o by (simp add: ac_simps numeral_2_eq_2)
  have "walker_reader (w\<lparr>walker_reader := r1\<rparr>) = r1" by simp
  from children_texts [OF this r1(2) not_self_closing [OF ok(1,2)] ok(3) i, of names'] show ?thesis
    using r1(1) e Node by (auto simp: tag_at_def)
next
  case (Leaf n a)
  let ?o = "off + length (print_trees us)"
  let ?e = "?o + length n + length a + 3"
  have n: "n \<in> set names" using us(2) Leaf by simp
  obtain r1 where r1: "next_direct_child x p names r
      = Some (Inr (Some (tag_at n (''<'' @ n @ a @ ''/>'') (Suc (tag_level p)) ?o)), r1)"
    "view r1 = (body, st, toks ?e (Suc (tag_level p)) vs @ rest)"
    using children_leaf [OF w(2) [unfolded Leaf] us(1) n refl] by blast
  have e: "drop ?e body = print_trees vs @ post"
    using drop_on [of off body "print_trees us @ print_tree (Leaf n a)" "print_trees vs @ post"] at Leaf
    by (simp add: ac_simps numeral_3_eq_3)
  have "children_text x (tag_at n (''<'' @ n @ a @ ''/>'') (Suc (tag_level p)) ?o) names' (w\<lparr>walker_reader := r1\<rparr>) []
      (w\<lparr>walker_reader := r1\<rparr>)"
    by (rule children_text.no_child) (simp only: next_child_of_def self_closing if_True)
  then show ?thesis using r1 e Leaf by (auto simp: tag_at_def texts_of_def)
qed (use us(2) in simp)

lemma page_walks:
  assumes "walker_reader w = r" "walker_root w = p" "view r = (body, pn # st,
      toks off (Suc (tag_level p)) ts @ CloseTag (tag_at pn raw (tag_level p) c) # rest)"
    and "\<not> is_self_closing p" "list_all tree_ok ts" "drop off body = print_trees ts @ post"
  shows "walks x w (page_elements ts)"
  using assms
proof (induction ts arbitrary: w r off rule: length_induct)
  case (1 ts)
  let ?closing = "CloseTag (tag_at pn raw (tag_level p) c) # rest"
  have step: "next_child x PAGE_ELEMENTS w = Some (a, w\<lparr>walker_reader := r'\<rparr>)"
    if "next_direct_child x p PAGE_ELEMENTS r = Some (a, r')" for a r'
    using that 1(2,3,5) by (simp add: next_child_def)
  show ?case
  proof (cases PAGE_ELEMENTS ts rule: first_wanted)
    case none
    from children_end [OF 1(4) none] obtain r' where
      "next_direct_child x p PAGE_ELEMENTS r = Some (Inr None, r')" by blast
    then show ?thesis using step none by (auto simp: page_elements_simps intro: walks.walk_end)
  next
    case (some us t vs)
    have ok: "tree_ok t" "list_all tree_ok vs" using 1(6) some(1) by simp_all
    have later: "walks x (w\<lparr>walker_reader := r2\<rparr>) (page_elements vs)"
      if "view r2 = (body, pn # st, toks off' (Suc (tag_level p)) vs @ ?closing)" "drop off' body = print_trees vs @ post"
      for r2 off'
      using 1(1) [rule_format, of vs "w\<lparr>walker_reader := r2\<rparr>" r2 off'] 1(3,5) that ok(2) some(1) by simp
    note at = 1(2) 1(4) [unfolded some(1)] some(2,3) ok(1) 1(7) [unfolded some(1)]
    have es: "page_elements ts = page_element_of t # page_elements vs"
      using some by (simp add: page_elements_simps)
    have "name_of t \<in> set PAGE_ELEMENTS" using some(3) by (cases t) simp_all
    then consider "name_of t = ''Contents''" | "name_of t = ''CommonPrefixes''"
      | "name_of t = ''IsTruncated''" | "name_of t = ''NextContinuationToken''"
      by (auto simp: PAGE_ELEMENTS_def)
    then show ?thesis
    proof cases
      case 1
      from named_children [OF at, of OBJECT_ELEMENTS] show ?thesis
        using 1 es step later by (auto simp: page_element_of_def intro: walks.walk_contents)
    next
      case 2
      from named_children [OF at, of "[''Prefix'']"] show ?thesis
        using 2 es step later by (auto simp: page_element_of_def intro: walks.walk_prefixes)
    next
      case 3
      from named_text [OF at] show ?thesis
        using 3 es step later by (auto simp: page_element_of_def intro: walks.walk_truncated)
    next
      case 4
      from named_text [OF at] show ?thesis
        using 4 es step later by (auto simp: page_element_of_def intro: walks.walk_token)
    qed
  qed
qed

lemma listing_parsed:
  assumes ok: "document_ok p (Node ''ListBucketResult'' a ts) q"
  shows "parse_list_objects_v2 x (document p (Node ''ListBucketResult'' a ts) q)
    = Some (try_bind (add_elements (page_elements ts) empty_page) page_of)"
proof -
  let ?n = "''ListBucketResult''"
  let ?body = "document p (Node ?n a ts) q"
  let ?g = "tag_at ?n (''<'' @ ?n @ a @ ''>'') base (length p)"
  let ?i = "length p + length ?n + length a + 2"
  obtain r where o: "open_walker x ?body ?n = Inr (Some \<lparr>walker_reader = r, walker_root = ?g\<rparr>)"
    and v: "view r = (?body, [?n], toks ?i (Suc (tag_level ?g)) ts
        @ [CloseTag (tag_at ?n (''</'' @ ?n @ ''>'') (tag_level ?g) (?i + length (print_trees ts)))])"
    using walker_opens [OF ok] by (auto simp: tag_at_def)
  have t: "list_all tree_ok ts" "\<not> is_self_closing ?g"
    using ok not_self_closing [of ?n a base "length p"] by (simp_all add: document_ok_def)
  have "?body = (p @ ''<'' @ ?n @ a @ ''>'') @ print_trees ts @ ''</'' @ ?n @ ''>'' @ q"
    by (simp add: document_def)
  from behind_prefix(1) [OF this]
  have at: "drop ?i ?body = print_trees ts @ ''</'' @ ?n @ ''>'' @ q" by (simp add: ac_simps)
  have "walks x \<lparr>walker_reader = r, walker_root = ?g\<rparr> (page_elements ts)"
    by (rule page_walks [OF _ _ v t(2,1) at]) simp_all
  from parse_walks [OF o this] show ?thesis .
qed

end

section \<open>A page as a document\<close>

definition text_node :: "bytes \<Rightarrow> bytes \<Rightarrow> xml_tree" where
  "text_node n s = Node n [] [Chars (escape s)]"

definition object_tree :: "S3ObjectInfo \<Rightarrow> xml_tree" where
  "object_tree ob =
     Node ''Contents'' []
       ([text_node ''Key'' (obj_key ob), text_node ''LastModified'' (obj_last_modified ob)]
        @ (case obj_etag ob of None \<Rightarrow> [] | Some e \<Rightarrow> [text_node ''ETag'' e])
        @ [text_node ''Size'' (u64_to_string (obj_size ob))])"

definition prefix_tree :: "bytes \<Rightarrow> xml_tree" where
  "prefix_tree s = Node ''CommonPrefixes'' [] [text_node ''Prefix'' s]"

definition truncated_tree :: "bytes option \<Rightarrow> xml_tree" where
  "truncated_tree token =
     text_node ''IsTruncated'' (case token of None \<Rightarrow> ''false'' | Some _ \<Rightarrow> ''true'')"

definition token_trees :: "bytes option \<Rightarrow> xml_tree list" where
  "token_trees token =
     (case token of None \<Rightarrow> [] | Some s \<Rightarrow> [text_node ''NextContinuationToken'' s])"

text \<open>
  A list of elements that says a page: of each kind those the page has, in order, the kinds
  interleaved in any way, and any other elements and texts among them.
\<close>

definition says_page :: "xml_tree list \<Rightarrow> S3ListObjectsPage \<Rightarrow> bool" where
  "says_page ts page \<longleftrightarrow>
     filter (wanted [''Contents'']) ts = map object_tree (objects page)
     \<and> filter (wanted [''CommonPrefixes'']) ts = map prefix_tree (common_prefixes page)
     \<and> filter (wanted [''IsTruncated'']) ts = [truncated_tree (next_continuation_token page)]
     \<and> filter (wanted [''NextContinuationToken'']) ts = token_trees (next_continuation_token page)"

lemma wanted_name: "wanted names t \<longleftrightarrow> name_of t \<in> set names \<and> \<not> is_chars t"
  by (cases t) auto

lemma page_elements_kinds:
  "contents_of (page_elements ts) = map (\<lambda>t. texts_of OBJECT_ELEMENTS (content_of t)) (filter (wanted [''Contents'']) ts)"
  "prefixes_of (page_elements ts) = map (\<lambda>t. map snd (texts_of [''Prefix''] (content_of t))) (filter (wanted [''CommonPrefixes'']) ts)"
  "truncated_of (page_elements ts) = map text_of (filter (wanted [''IsTruncated'']) ts)"
  "tokens_of (page_elements ts) = filter (\<lambda>v. v \<noteq> []) (map text_of (filter (wanted [''NextContinuationToken'']) ts))"
  by (induction ts)
    (auto simp: page_elements_def page_element_of_def element_kinds wanted_name PAGE_ELEMENTS_def)

lemma text_node_text [simp]: "text_of (text_node n s) = s"
  by (simp add: text_node_def entity_codec.dec_enc)

lemma text_node_name [simp]: "name_of (text_node n s) = n" "wanted names (text_node n s) \<longleftrightarrow> n \<in> set names"
  by (simp_all add: text_node_def)

lemma object_tree_read: "object_of (fields_of (texts_of OBJECT_ELEMENTS (content_of (object_tree ob)))) = Inr ob"
  by (cases "obj_etag ob")
    (simp_all add: object_tree_def texts_of_def OBJECT_ELEMENTS_def fields_of_def set_field_def no_fields_def
      object_of_def required_def parse_u64_to_string)

lemma prefix_tree_read: "map snd (texts_of [''Prefix''] (content_of (prefix_tree s))) = [s]"
  by (simp add: prefix_tree_def texts_of_def)

lemma flag_texts: "is_true ''true''" "\<not> is_true ''false''"
  by code_simp+

lemma said_page:
  assumes "says_page ts page" "next_continuation_token page \<noteq> Some []"
  shows "try_bind (add_elements (page_elements ts) empty_page) page_of = Inr page"
proof -
  let ?es = "page_elements ts"
  note kinds = assms(1) [unfolded says_page_def]
  have c: "contents_of ?es = map (\<lambda>ob. texts_of OBJECT_ELEMENTS (content_of (object_tree ob))) (objects page)"
    and p: "prefixes_of ?es = map (\<lambda>s. [s]) (common_prefixes page)"
    and t: "map is_true (truncated_of ?es) = [next_continuation_token page \<noteq> None]"
    and k: "tokens_of ?es = (case next_continuation_token page of None \<Rightarrow> [] | Some s \<Rightarrow> [s])"
    using kinds assms(2) flag_texts
    by (auto simp: page_elements_kinds comp_def prefix_tree_read truncated_tree_def token_trees_def split: option.split)
  have "readable ?es" by (simp add: readable_def c p list_all_iff object_tree_read)
  moreover have "page_of (gathered ?es empty_page) = Inr page"
    by (cases "next_continuation_token page")
      (simp_all add: page_of_def gathered_def empty_page_def c p t k object_tree_read comp_def)
  ultimately show ?thesis by (simp add: add_elements_gathered [THEN iffD2])
qed

text \<open>A document for every page whose strings are texts.\<close>

definition page_trees :: "S3ListObjectsPage \<Rightarrow> xml_tree list" where
  "page_trees page =
     truncated_tree (next_continuation_token page) # token_trees (next_continuation_token page)
     @ map object_tree (objects page) @ map prefix_tree (common_prefixes page)"

lemma text_node_ok: "tree_ok (text_node n s) \<longleftrightarrow> name_ok n \<and> from_utf8_ok (escape s)"
  by (simp add: text_node_def attrs_ok_def escape_safe)

lemma names_ok:
  "name_ok ''Key''" "name_ok ''LastModified''" "name_ok ''ETag''" "name_ok ''Size''" "name_ok ''Contents''"
  "name_ok ''Prefix''" "name_ok ''CommonPrefixes''" "name_ok ''IsTruncated''" "name_ok ''NextContinuationToken''"
  "name_ok ''ListBucketResult''" "attrs_ok []"
  by code_simp+

lemma object_tree_ok: "object_texts ob \<Longrightarrow> tree_ok (object_tree ob)"
  by (cases "obj_etag ob")
    (simp_all add: object_tree_def object_texts_def text_opt_def text_node_ok names_ok escape_utf8
      u64_to_string_def dec_of_nat_ok)

lemma page_trees_ok: "page_texts page \<Longrightarrow> list_all tree_ok (page_trees page)"
  by (auto simp: page_trees_def page_texts_def truncated_tree_def token_trees_def prefix_tree_def
      text_opt_def text_node_ok names_ok escape_utf8 object_tree_ok list_all_iff split: option.splits)

lemma page_trees_say: "says_page (page_trees page) page"
proof -
  have w: "wanted names (object_tree ob) \<longleftrightarrow> ''Contents'' \<in> set names"
    "wanted names (prefix_tree s) \<longleftrightarrow> ''CommonPrefixes'' \<in> set names"
    "wanted names (truncated_tree t) \<longleftrightarrow> ''IsTruncated'' \<in> set names" for names ob s t
    by (simp_all add: object_tree_def prefix_tree_def truncated_tree_def)
  have k: "filter (wanted names) (token_trees t) = (if ''NextContinuationToken'' \<in> set names then token_trees t else [])"
    for names t by (simp add: token_trees_def split: option.split)
  show ?thesis by (simp add: says_page_def page_trees_def w k filter_map comp_def)
qed

section \<open>Properties\<close>

text \<open>
  C32: of every complete \<open><ListBucketResult>\<close> document, whatever its elements and however
  they nest, the parse returns, and it succeeds exactly when every \<open><Contents>\<close> has its
  required fields and a numeric size, every \<open><CommonPrefixes>\<close> has a prefix, and a truncated
  listing has a token; the page then holds the objects and prefixes in document order, read
  from the direct children only, and the last token if the listing is truncated, none
  otherwise.
\<close>

theorem page_follows_the_document:
  assumes "document_reader x view base" and "document_ok p (Node ''ListBucketResult'' a ts) q"
    and "es = page_elements ts" "truncated = last (False # map is_true (truncated_of es))"
  shows "\<exists>r. parse_list_objects_v2 x (document p (Node ''ListBucketResult'' a ts) q) = Some r
    \<and> (r = Inr page \<longleftrightarrow>
         readable es \<and> (truncated \<longrightarrow> tokens_of es \<noteq> [])
         \<and> page = \<lparr>common_prefixes = concat (prefixes_of es),
                   objects = map (\<lambda>fs. projr (object_of (fields_of fs))) (contents_of es),
                   next_continuation_token = (if truncated then Some (last (tokens_of es)) else None)\<rparr>)"
  using document_reader.listing_parsed [OF assms(1,2)] page_of_elements [of es page]
  unfolding Let_def assms(4) [symmetric] unfolding assms(3) [symmetric] by (intro exI conjI)

text \<open>A listing with a key in a skipped subtree, a self-closed element and no token.\<close>

definition sample_trees :: "xml_tree list" where
  "sample_trees =
     [Leaf ''Prefix'' [], Chars [CHR 0x0A],
      Node ''Contents'' []
        [Node ''Owner'' [] [text_node ''Key'' ''owner-key''], text_node ''Key'' ''a&b'',
         text_node ''Size'' ''12'', text_node ''LastModified'' ''now'', Leaf ''DisplayName'' []],
      text_node ''IsTruncated'' ''True'']"

lemma sample_ok: "document_ok ''<?xml?>'' (Node ''ListBucketResult'' '' x'' sample_trees) [CHR 0x0A]"
  unfolding document_ok_def header_ok_def by code_simp

lemma sample_object:
  "object_of (fields_of [(''Key'', ''a&b''), (''Size'', ''12''), (''LastModified'', ''now'')])
   = Inr \<lparr>obj_key = ''a&b'', obj_size = 12, obj_last_modified = ''now'', obj_etag = None\<rparr>"
proof -
  have "trim ''12'' = ''12''" "dec_of_nat 12 = ''12''" by code_simp+
  then have "parse_u64 (trim ''12'') = Some 12" using parse_u64_dec [of 12] by simp
  then show ?thesis
    by (simp add: object_of_def fields_of_def set_field_def no_fields_def required_def)
qed

theorem page_follows_the_document_witness:
  "\<exists>e. parse_list_objects_v2 cursor_reader
       (document ''<?xml?>'' (Node ''ListBucketResult'' '' x'' sample_trees) [CHR 0x0A]) = Some (Inl e)"
proof -
  have "is_true ''True''" by code_simp
  moreover have es: "page_elements sample_trees =
      [Contents [(''Key'', ''a&b''), (''Size'', ''12''), (''LastModified'', ''now'')], IsTruncated ''True'']"
    by (simp add: page_elements_def sample_trees_def PAGE_ELEMENTS_def page_element_of_def texts_of_def
        OBJECT_ELEMENTS_def)
  ultimately have t: "last (False # map is_true (truncated_of (page_elements sample_trees)))"
    "tokens_of (page_elements sample_trees) = []"
    by (simp_all add: element_kinds)
  let ?parsed = "parse_list_objects_v2 cursor_reader
      (document ''<?xml?>'' (Node ''ListBucketResult'' '' x'' sample_trees) [CHR 0x0A])"
  obtain r where "?parsed = Some r" "r \<noteq> Inr (projr (the ?parsed))"
    using page_follows_the_document [OF plain_cursor.document_reader_axioms sample_ok refl refl,
        of "projr (the ?parsed)"] t by auto
  then show ?thesis by (cases r) auto
qed

text \<open>
  C31: a page is read back from its document. Whatever texts its keys, dates, tags and
  prefixes are, in whatever order the storage interleaves the kinds of elements and
  whatever other elements and texts it puts among them, the parse returns exactly the page;
  and every page whose strings are texts has such a document.
\<close>

theorem listing_round_trip:
  assumes "document_reader x view base"
    and "document_ok p (Node ''ListBucketResult'' a ts) q"
    and "says_page ts page" "next_continuation_token page \<noteq> Some []"
  shows "parse_list_objects_v2 x (document p (Node ''ListBucketResult'' a ts) q) = Some (Inr page)
    \<and> (page_texts other \<longrightarrow>
        document_ok [] (Node ''ListBucketResult'' [] (page_trees other)) [] \<and> says_page (page_trees other) other)"
  using document_reader.listing_parsed [OF assms(1,2)] said_page [OF assms(3,4)] page_trees_ok page_trees_say
  by (simp add: document_ok_def header_ok_def names_ok brackets_text tokens_none next_tag_None)

definition sample_page :: S3ListObjectsPage where
  "sample_page =
     \<lparr>common_prefixes = [''p & q/''],
      objects = [\<lparr>obj_key = ''<caf'' @ [CHR 0xC3, CHR 0xA9] @ ''>'', obj_size = 18446744073709551615,
                  obj_last_modified = ''2024'', obj_etag = Some [CHR 0x22, CHR 0x22]\<rparr>],
      next_continuation_token = Some ''1ue/wM=''\<rparr>"

definition interleaved_trees :: "xml_tree list" where
  "interleaved_trees =
     token_trees (next_continuation_token sample_page) @ map prefix_tree (common_prefixes sample_page)
     @ [Leaf ''Delimiter'' []] @ map object_tree (objects sample_page)
     @ [Node ''KeyCount'' [] [Chars ''1''], truncated_tree (next_continuation_token sample_page)]"

theorem listing_round_trip_witness:
  "parse_list_objects_v2 cursor_reader (document [] (Node ''ListBucketResult'' [] interleaved_trees) [])
   = Some (Inr sample_page)"
proof -
  have t: "page_texts sample_page" unfolding sample_page_def by code_simp
  have trees: "list_all tree_ok (page_trees sample_page)" using page_trees_ok [OF t] .
  have "tree_ok (Leaf ''Delimiter'' [])" "tree_ok (Node ''KeyCount'' [] [Chars ''1''])" by code_simp+
  with trees have "document_ok [] (Node ''ListBucketResult'' [] interleaved_trees) []"
    by (auto simp: document_ok_def header_ok_def names_ok brackets_text tokens_none next_tag_None interleaved_trees_def
        page_trees_def sample_page_def)
  moreover have "says_page interleaved_trees sample_page"
    by (simp add: says_page_def interleaved_trees_def sample_page_def prefix_tree_def object_tree_def
        truncated_tree_def token_trees_def)
  ultimately show ?thesis
    using listing_round_trip [OF plain_cursor.document_reader_axioms, of "[]" "[]" interleaved_trees "[]" sample_page]
    by (simp add: sample_page_def)
qed

text \<open>
  A listing that was cut short on the way is never returned as a shorter listing: of a
  complete \<open><ListBucketResult>\<close> document, no part that ends inside it parses to a page,
  whatever the reader would make of it; the error carries the body.
\<close>

lemma cut_listing_is_an_error:
  assumes "document_ok p (Node ''ListBucketResult'' a ts) q"
    and "length p < i" "i < length p + length (print_tree (Node ''ListBucketResult'' a ts))"
  shows "let body = take i (document p (Node ''ListBucketResult'' a ts) q)
    in parse_list_objects_v2 x body = Some (Inl (not_a_listing ('' ('' @ not_safe @ '')'') body))"
  using assms document_cut [of p "''ListBucketResult''" a ts q i]
  by (simp add: Let_def parse_list_objects_v2_def open_walker_def)

lemma cut_listing_is_an_error_example:
  "\<exists>e. parse_list_objects_v2 cursor_reader ''<ListBucketResult x><Contents></Contents>'' = Some (Inl e)"
proof -
  have "document_ok [] (Node ''ListBucketResult'' '' x'' [Node ''Contents'' [] []]) []"
    unfolding document_ok_def header_ok_def by code_simp
  from cut_listing_is_an_error [OF this, of 41 cursor_reader] show ?thesis
    by (simp add: document_def Let_def)
qed

end
