(* ===== verification/Client_Answers.thy ===== *)
theory Client_Answers
  imports S3_Client Listing_Documents
begin

text \<open>
  What the client makes of the documents a storage answers with
  (\<open>detect_error\<close>, \<open>parse_bucket_location\<close> of \<^verbatim>\<open>src/s3_client.rs\<close>), for every reader that
  keeps the contract of \<open>Xml_Documents\<close>: which error a failed answer becomes, which region a
  bucket's location is, and that every string taken out of an answer is a text.
\<close>

section \<open>Error documents\<close>

text \<open>Which \<open><Error><Code>\<close> a body states, if any.\<close>

inductive says_code :: "bytes \<Rightarrow> bytes option \<Rightarrow> bool" where
  coded: "document_ok p (Node ''Error'' a (us @ text_node ''Code'' c # vs)) q \<Longrightarrow>
    list_all (\<lambda>t. \<not> wanted [''Code''] t) us \<Longrightarrow>
    says_code (document p (Node ''Error'' a (us @ text_node ''Code'' c # vs)) q) (Some c)"
| uncoded: "document_ok p (Node ''Error'' a ts) q \<Longrightarrow> list_all (\<lambda>t. \<not> wanted [''Code''] t) ts \<Longrightarrow>
    says_code (document p (Node ''Error'' a ts) q) None"
| another: "document_ok p t q \<Longrightarrow> \<not> is_chars t \<Longrightarrow> name_of t \<noteq> ''Error'' \<Longrightarrow>
    says_code (document p t q) None"
| no_xml: "CHR ''<'' \<notin> set body \<Longrightarrow> says_code body None"
| broken: "\<not> is_safe_to_read body \<Longrightarrow> says_code body None"

text \<open>Which \<open><LocationConstraint>\<close> a body states: its text, an empty element, or a self-closed one.\<close>

inductive says_location :: "bytes \<Rightarrow> bytes \<Rightarrow> bool" where
  located: "document_ok p (Node ''LocationConstraint'' a [Chars (escape s)]) q \<Longrightarrow>
    says_location (document p (Node ''LocationConstraint'' a [Chars (escape s)]) q) s"
| nowhere: "document_ok p (Node ''LocationConstraint'' a []) q \<Longrightarrow>
    says_location (document p (Node ''LocationConstraint'' a []) q) []"
| closed: "document_ok p (Leaf ''LocationConstraint'' a) q \<Longrightarrow>
    says_location (document p (Leaf ''LocationConstraint'' a) q) []"

lemma error_path: "split_on CHR ''/'' ''Error/Code'' = [''Error'', ''Code'']"
  by code_simp

lemma code_name: "name_ok ''Code''"
  by code_simp

lemma not_chars: "\<not> is_chars t \<Longrightarrow> t \<noteq> Chars s"
  by auto

context document_reader
begin

lemma code_is_read: "says_code body code \<Longrightarrow> read_node_text x body ''Error/Code'' = code"
proof (induction rule: says_code.induct)
  case (coded p a us c vs q)
  then show ?case
    using child_text [of p "''Error''" a us "''Code''" "[]" "[Chars (escape c)]" vs q]
    by (simp add: text_node_def entity_codec.dec_enc)
next
  case (uncoded p a ts q)
  then show ?case using absent_child_text [OF _ code_name, of p "''Error''" a ts q] by simp
next
  case (another p t q)
  then show ?case using other_root_text [of p t q "''Error/Code''"] by (simp add: error_path not_chars)
next
  case (no_xml body)
  then show ?case by (rule no_tags_text)
next
  case (broken body)
  then show ?case by (simp add: read_node_text_def)
qed

lemma location_is_read:
  "says_location body s \<Longrightarrow>
   read_node_text x body ''LocationConstraint'' = Some s
   \<or> s = [] \<and> read_node_text x body ''LocationConstraint'' = None \<and> contains body ''<LocationConstraint''"
proof (induction rule: says_location.induct)
  case (located p a s q)
  then show ?case using root_text by (simp add: entity_codec.dec_enc)
next
  case (nowhere p a q)
  have "unescape [] = []" by (simp add: unescape_def)
  with nowhere show ?case using root_text by simp
next
  case (closed p a q)
  have "document p (Leaf ''LocationConstraint'' a) q = p @ ''<LocationConstraint'' @ (a @ ''/>'' @ q)"
    by (simp add: document_def)
  then have "contains (document p (Leaf ''LocationConstraint'' a) q) ''<LocationConstraint''"
    unfolding contains_sublist sublist_def by blast
  with closed show ?case using leaf_root_text by simp
qed

lemma other_location:
  assumes "document_ok p t q" "\<not> is_chars t" "name_of t \<noteq> ''LocationConstraint''"
  shows "read_node_text x (document p t q) ''LocationConstraint'' = None"
  using assms other_root_text [of p t q "''LocationConstraint''"] by (simp add: split_on_no_sep not_chars)

end

section \<open>Properties\<close>

text \<open>
  C34: what the caller can tell from a failed answer. The \<open><Error><Code>\<close> of the body
  decides over the status code; without one, 404 and 416 are a missing key and a bad range;
  anything else keeps its status code. A code that has an error of its own is never retried,
  whatever the status; another is when it is one of those S3 asks for a retry by or the
  status is 429 or 5xx.
\<close>

theorem answers_are_told_apart:
  assumes "get_body response = Inr b" and "body_into_vec e MAX_ANSWER_SIZE b (net w) = (Inr body, n)"
    and "document_reader (xml_ops e) view base" "says_code body code"
    and "rs_status_code response = sc" "\<not> is_success sc"
  shows "\<exists>err w'. read_success_body e s3 response w = (Inl err, w')
    \<and> (is_bucket_already_exists err \<longleftrightarrow> code = Some ''BucketAlreadyExists'')
    \<and> (is_bucket_already_owned_by_you err \<longleftrightarrow> code = Some ''BucketAlreadyOwnedByYou'')
    \<and> (is_bucket_not_found err \<longleftrightarrow> code = Some ''NoSuchBucket'')
    \<and> (is_key_not_found err \<longleftrightarrow> code = Some ''NoSuchKey'' \<or> code = None \<and> sc = 404)
    \<and> (is_range_not_satisfiable err \<longleftrightarrow> code = Some ''InvalidRange'' \<or> code = None \<and> sc = 416)
    \<and> (is_retryable err \<longleftrightarrow>
        (case code of
           Some c \<Rightarrow> c \<in> set retry_by_name \<or> map_error_code c = None \<and> (sc \<ge> 500 \<or> sc = 429)
         | None \<Rightarrow> sc \<ge> 500 \<or> sc = 429))
    \<and> (get_status_code err = None \<or> get_status_code err = Some sc)"
proof -
  have code: "read_node_text (xml_ops e) body ''Error/Code'' = code"
    by (rule document_reader.code_is_read [OF assms(3,4)])
  let ?err = "detect_error (xml_ops e) sc body"
  have "fst (read_success_body e s3 response w) = Inl ?err"
    using assms(1,2,5,6)
    by (simp add: read_success_body_def read_whole_body_def io_bind_def io_result_def)
  then obtain w' where 1: "read_success_body e s3 response w = (Inl ?err, w')"
    by (cases "read_success_body e s3 response w") auto
  have 2: "is_retryable ?err \<longleftrightarrow>
      (case code of
         Some c \<Rightarrow> c \<in> set retry_by_name \<or> map_error_code c = None \<and> (sc \<ge> 500 \<or> sc = 429)
       | None \<Rightarrow> sc \<ge> 500 \<or> sc = 429)"
    unfolding detect_error_retryable code by (rule refl)
  have 3: "(is_bucket_already_exists ?err \<longleftrightarrow> ?err = BucketAlreadyExists)
    \<and> (is_bucket_not_found ?err \<longleftrightarrow> ?err = BucketNotFound)
    \<and> (is_range_not_satisfiable ?err \<longleftrightarrow> ?err = RangeNotSatisfiable)"
    by (auto simp: is_bucket_already_exists_def is_bucket_not_found_def is_range_not_satisfiable_def
        split: S3Error.splits)
  have 4: "get_status_code ?err = None \<or> get_status_code ?err = Some sc"
    using detect_error_iff(6) [of "xml_ops e" sc body] by (cases ?err) (auto simp: get_status_code_def)
  show ?thesis
    by (intro exI [of _ ?err] exI [of _ w'])
      (simp add: 1 2 3 4 detect_error_iff code)
qed

text \<open>A failed answer to evaluate the model with.\<close>

definition error_body :: bytes where
  "error_body = ''<Error><Code>NoSuchBucket</Code></Error>''"

lemma error_body_says: "says_code error_body (Some ''NoSuchBucket'')"
proof -
  have d: "document_ok [] (Node ''Error'' [] ([] @ text_node ''Code'' ''NoSuchBucket'' # [])) []"
    unfolding document_ok_def header_ok_def by code_simp
  have b: "document [] (Node ''Error'' [] ([] @ text_node ''Code'' ''NoSuchBucket'' # [])) [] = error_body"
    by (simp add: document_def text_node_def escape_def escape_char_def error_body_def)
  show ?thesis using says_code.coded [OF d] unfolding b by simp
qed

theorem answers_are_told_apart_witness:
  "\<exists>err w'. read_success_body (canned_env 503 ''41'' [error_body] cursor_reader)
       sample_client (canned_answer 503 ''41'' [error_body]) fresh = (Inl err, w')
     \<and> is_bucket_not_found err \<and> \<not> is_retryable err"
proof -
  let ?e = "canned_env 503 ''41'' [error_body] cursor_reader" and ?r = "canned_answer 503 ''41'' [error_body]"
  have "get_body ?r = Inr [error_body]"
    "body_into_vec ?e MAX_ANSWER_SIZE [error_body] (net fresh) = (Inr error_body, 0)"
    "document_reader (xml_ops ?e) (\<lambda>r. r) 1"
    using plain_cursor.document_reader_axioms
    by (simp_all add: canned_env_def canned_answer_def sample_response_def)
  note answer = answers_are_told_apart [OF this error_body_says]
  have "rs_status_code ?r = 503" "\<not> is_success 503"
    by (simp_all add: canned_answer_def is_success_def)
  from answer [OF this, of sample_client] show ?thesis
    by (auto simp: retry_by_name_def map_error_code_def)
qed

text \<open>
  C36: a bucket's region survives the round trip. \<open>us-east-1\<close> (and no region at all) is
  stated by sending no configuration, every other region by its text; whichever way the
  storage then spells the constraint it was given (its text, an empty element, or the
  self-closed element, in which there is no text to read), the answer of
  \<open>GetBucketLocation\<close> is read as the region the bucket was created in. A document of
  another kind, or a body that is not XML, is an error that carries it, never a region.
\<close>

theorem bucket_location_round_trip:
  assumes "document_reader x view base" and "parsed_region reg"
    and "says_location body (case create_bucket_configuration reg of None \<Rightarrow> [] | Some _ \<Rightarrow> as_str reg)"
    and "\<not> sublist ''<LocationConstraint'' page"
    and "CHR ''<'' \<notin> set page
      \<or> (\<exists>p t q. document_ok p t q \<and> \<not> is_chars t \<and> name_of t \<noteq> ''LocationConstraint'' \<and> page = document p t q)"
  shows "parse_bucket_location x body = Inr (if region_is_empty reg then AwsUsEast1 else reg)
    \<and> (\<exists>msg. parse_bucket_location x page = Inl (Other (msg @ from_utf8_lossy page)))"
proof
  let ?constraint = "case create_bucket_configuration reg of None \<Rightarrow> [] | Some _ \<Rightarrow> as_str reg"
  note read = document_reader.location_is_read [OF assms(1,3)]
  have empty: "region_is_empty reg \<longleftrightarrow> as_str reg = []" by (simp add: region_is_empty_def)
  have again: "from_str (as_str reg) = reg" using assms(2) by (rule region_value.dec_enc)
  have "from_str ''us-east-1'' = AwsUsEast1" by code_simp
  with again have east: "is_us_east_1 reg \<Longrightarrow> reg = AwsUsEast1" by (simp add: is_us_east_1_def)
  show "parse_bucket_location x body = Inr (if region_is_empty reg then AwsUsEast1 else reg)"
  proof (cases "region_is_empty reg \<or> is_us_east_1 reg")
    case True
    then have "?constraint = []" by (simp add: create_bucket_configuration_def)
    then show ?thesis
      using read True east by (auto simp: parse_bucket_location_def)
  next
    case False
    then have "?constraint = as_str reg" "as_str reg \<noteq> []"
      using empty by (auto simp: create_bucket_configuration_def)
    then show ?thesis
      using read False again by (auto simp: parse_bucket_location_def)
  qed
  have "read_node_text x page ''LocationConstraint'' = None"
    using assms(5) document_reader.no_tags_text(1) [OF assms(1)] document_reader.other_location [OF assms(1)] by (elim disjE) auto
  then show "\<exists>msg. parse_bucket_location x page = Inl (Other (msg @ from_utf8_lossy page))"
    using assms(4) by (auto simp: parse_bucket_location_def contains_sublist)
qed

theorem bucket_location_round_trip_witness:
  "parse_bucket_location cursor_reader ''<LocationConstraint>fsn1</LocationConstraint>'' = Inr (from_str ''fsn1'')
   \<and> (\<exists>msg. parse_bucket_location cursor_reader ''502 Bad Gateway'' = Inl (Other msg))"
proof -
  have d: "document_ok [] (Node ''LocationConstraint'' [] [Chars (escape ''fsn1'')]) []"
    unfolding document_ok_def header_ok_def by code_simp
  have b: "document [] (Node ''LocationConstraint'' [] [Chars (escape ''fsn1'')]) []
      = ''<LocationConstraint>fsn1</LocationConstraint>''"
    by (simp add: document_def escape_def escape_char_def)
  have c: "(case create_bucket_configuration (from_str ''fsn1'') of None \<Rightarrow> [] | Some _ \<Rightarrow> as_str (from_str ''fsn1''))
      = ''fsn1''"
    by (simp add: create_bucket_configuration_def region_is_empty_def is_us_east_1_def)
  have s: "says_location ''<LocationConstraint>fsn1</LocationConstraint>''
      (case create_bucket_configuration (from_str ''fsn1'') of None \<Rightarrow> [] | Some _ \<Rightarrow> as_str (from_str ''fsn1''))"
    unfolding c using says_location.located [OF d] unfolding b .
  have "\<not> contains ''502 Bad Gateway'' ''<LocationConstraint''" by code_simp
  then have page: "\<not> sublist ''<LocationConstraint'' ''502 Bad Gateway''" unfolding contains_sublist .
  from bucket_location_round_trip
      [OF plain_cursor.document_reader_axioms parsed_region_from_str s page]
  show ?thesis by (auto simp: region_is_empty_def)
qed

section \<open>Strings\<close>

text \<open>An error whose strings are texts.\<close>

primrec error_texts :: "S3Error \<Rightarrow> bool" and io_error_texts :: "io_error \<Rightarrow> bool" where
  "error_texts (FlUrlError err) \<longleftrightarrow> from_utf8_ok (fl_debug err) \<and> from_utf8_ok (fl_display err)"
| "error_texts BucketAlreadyExists \<longleftrightarrow> True"
| "error_texts BucketAlreadyOwnedByYou \<longleftrightarrow> True"
| "error_texts BucketNotFound \<longleftrightarrow> True"
| "error_texts KeyNotFound \<longleftrightarrow> True"
| "error_texts NoSuchUpload \<longleftrightarrow> True"
| "error_texts EntityTooSmall \<longleftrightarrow> True"
| "error_texts RangeNotSatisfiable \<longleftrightarrow> True"
| "error_texts (UnexpectedStatusCode sc code body) \<longleftrightarrow> text_opt code \<and> from_utf8_ok body"
| "error_texts (UploadProducerFailed err) \<longleftrightarrow> io_error_texts err"
| "error_texts (Other msg) \<longleftrightarrow> from_utf8_ok msg"
| "io_error_texts (IoMessage k m) \<longleftrightarrow> from_utf8_ok m"
| "io_error_texts (IoSource k e) \<longleftrightarrow> error_texts e"

lemma error_fmt_utf8: "error_texts e \<Longrightarrow> from_utf8_ok (s3_error_fmt e)"
  and "io_error_texts io \<Longrightarrow> from_utf8_ok (io_error_fmt io)"
  by (induction e and io) (simp_all add: dec_of_nat_ok)

lemma detect_error_texts: "error_texts (detect_error x sc body)"
  by (auto simp: detect_error_def Let_def map_error_code_def text_opt_def from_utf8_lossy_ok
      dest: read_node_text_utf8 split: option.split if_splits)

text \<open>
  C37: whatever the reader answers and whatever bytes the storage sent, every string the crate
  takes out of an answer is a text (valid UTF-8): the keys, dates, tags, prefixes and the token
  of a listing, the code and body of an error and what it prints as, the region of a bucket,
  and the trace of the answer.
\<close>

theorem answers_are_texts:
  "(case parse_list_objects_v2 x body of Some (Inr page) \<Rightarrow> page_texts page | _ \<Rightarrow> True)
   \<and> error_texts (detect_error x sc body) \<and> from_utf8_ok (s3_error_fmt (detect_error x sc body))
   \<and> (case parse_bucket_location x body of Inr reg \<Rightarrow> from_utf8_ok (as_str reg) | Inl err \<Rightarrow> error_texts err)
   \<and> from_utf8_ok (format_response_trace sc (Some body)) \<and> from_utf8_ok (format_response_trace sc None)"
proof (intro conjI)
  show "case parse_list_objects_v2 x body of Some (Inr page) \<Rightarrow> page_texts page | _ \<Rightarrow> True"
    using parsed_page_texts [of x body] by (auto split: option.split sum.split)
  show "error_texts (detect_error x sc body)" by (rule detect_error_texts)
  show "from_utf8_ok (s3_error_fmt (detect_error x sc body))" using detect_error_texts by (rule error_fmt_utf8)
  show "case parse_bucket_location x body of Inr reg \<Rightarrow> from_utf8_ok (as_str reg) | Inl err \<Rightarrow> error_texts err"
    using read_node_text_utf8 [of x body "''LocationConstraint''"]
    by (auto simp: parse_bucket_location_def from_utf8_lossy_ok split: option.split)
  show "from_utf8_ok (format_response_trace sc (Some body))" "from_utf8_ok (format_response_trace sc None)"
    by (simp_all add: format_response_trace_def DEBUG_PREFIX_def dec_of_nat_ok from_utf8_lossy_ok)
qed

end
