(* ===== verification/Client_Calls.thy ===== *)
theory Client_Calls
  imports Client_Answers
begin

text \<open>
  Sequences of calls on one client. \<open>client_call\<close> names the operations of \<open>S3Client\<close> with
  their arguments, \<open>run_call\<close> runs one, \<open>run_calls\<close> one after the other.

  The locale \<open>two_clients\<close> compares two runs: the same calls, on two environments and two
  clients that only have to agree in what goes into a request. What sending, reading an
  answer and tracing keep of a relation between the two worlds is its interface; that every
  operation then keeps it, and has the same outcome on both sides, is proved once. The
  interpretations instantiate it three times on the operations of the client: with a
  record of the requests (every one of them is signed for the payload it carries), with the
  trace on and off (tracing changes nothing but the console), and with the console alone
  (nothing is printed unless tracing is on).
\<close>

section \<open>Calls\<close>

datatype 'c client_call =
    Upload bytes bytes bytes nat
  | UploadStreamed bytes bytes 'c nat nat
  | DownloadFile bytes bytes
  | DownloadFileRange bytes bytes u64 "u64 option"
  | DeleteFile bytes bytes
  | CreateBucket bytes
  | CreateBucketIfNotExists bytes
  | GetBucketLocation bytes
  | CheckIfBucketExists bytes
  | ListObjectsV2 bytes S3ListObjectsRequest
  | GetObjectSize bytes bytes
  | OpenReader bytes bytes

datatype 'b outcome =
    Done
  | Failed S3Error
  | NoReturn
  | Streams "'b S3DownloadStream"
  | Located S3Region
  | Answered bool
  | Listed S3ListObjectsPage
  | Sized u64
  | Opened bytes bytes u64

definition outcome_of :: "('a \<Rightarrow> 'b outcome) \<Rightarrow> ('a, S3Error) result \<Rightarrow> 'b outcome" where
  "outcome_of f r = (case r of Inl err \<Rightarrow> Failed err | Inr a \<Rightarrow> f a)"

definition outcome_of_page :: "(S3ListObjectsPage, S3Error) result option \<Rightarrow> 'b outcome" where
  "outcome_of_page r = (case r of None \<Rightarrow> NoReturn | Some a \<Rightarrow> outcome_of Listed a)"

primrec run_call ::
  "('u, 'b, 'c, 'r, 'n) env \<Rightarrow> S3Client \<Rightarrow> 'c client_call \<Rightarrow> 'n world \<Rightarrow> 'b outcome \<times> 'n world"
where
  "run_call e s3 (Upload b k content t) =
     apfst (outcome_of (\<lambda>_. Done)) \<circ> upload_object e s3 b k content t"
| "run_call e s3 (UploadStreamed b k body len t) =
     apfst (outcome_of (\<lambda>_. Done)) \<circ> upload_streamed e s3 b k body len t"
| "run_call e s3 (DownloadFile b k) = apfst (outcome_of Streams) \<circ> download_file e s3 b k"
| "run_call e s3 (DownloadFileRange b k start end_byte) =
     apfst (outcome_of Streams) \<circ> download_file_range e s3 b k start end_byte"
| "run_call e s3 (DeleteFile b k) = apfst (outcome_of (\<lambda>_. Done)) \<circ> delete_file e s3 b k"
| "run_call e s3 (CreateBucket b) = apfst (outcome_of (\<lambda>_. Done)) \<circ> create_bucket e s3 b"
| "run_call e s3 (CreateBucketIfNotExists b) =
     apfst (outcome_of (\<lambda>_. Done)) \<circ> create_bucket_if_not_exists e s3 b"
| "run_call e s3 (GetBucketLocation b) = apfst (outcome_of Located) \<circ> get_bucket_location e s3 b"
| "run_call e s3 (CheckIfBucketExists b) = apfst (outcome_of Answered) \<circ> check_if_bucket_exists e s3 b"
| "run_call e s3 (ListObjectsV2 b request) = apfst outcome_of_page \<circ> list_objects_v2 e s3 b request"
| "run_call e s3 (GetObjectSize b k) = apfst (outcome_of Sized) \<circ> get_object_size e s3 b k"
| "run_call e s3 (OpenReader b k) =
     apfst (outcome_of (\<lambda>r. Opened (r_bucket_name r) (r_key r) (r_size r))) \<circ> open_reader e s3 b k"

fun run_calls ::
  "('u, 'b, 'c, 'r, 'n) env \<Rightarrow> S3Client \<Rightarrow> 'c client_call list \<Rightarrow> 'n world \<Rightarrow> 'b outcome list \<times> 'n world"
where
  "run_calls e s3 [] w = ([], w)"
| "run_calls e s3 (c # cs) w =
     (let (a, w1) = run_call e s3 c w; (as, w2) = run_calls e s3 cs w1 in (a # as, w2))"

text \<open>What a request has to be: signed by this client, for its own method and payload.\<close>

primrec method_text :: "http_method \<Rightarrow> bytes" where
  "method_text GET = ''GET''"
| "method_text HEAD = ''HEAD''"
| "method_text DELETE = ''DELETE''"
| "method_text PUT = ''PUT''"

fun payload_hash :: "crypto \<Rightarrow> 'c request_body \<Rightarrow> bytes" where
  "payload_hash cr NoBody = hex_encode cr (sha256 cr [])"
| "payload_hash cr (RawData payload _) = hex_encode cr (sha256 cr payload)"
| "payload_hash cr (Streamed _ _) = ''UNSIGNED-PAYLOAD''"

text \<open>The urls the operations build: the endpoint with a bucket, an object, a location or a listing.\<close>

inductive client_url :: "'u flurl \<Rightarrow> S3Client \<Rightarrow> 'u \<Rightarrow> bool" for fl s3 where
  a_bucket: "client_url fl s3 (append_path_segment fl bucket (fl_new fl (endpoint s3)))"
| an_object: "client_url fl s3 (append_path_segment fl k (append_path_segment fl bucket (fl_new fl (endpoint s3))))"
| a_location: "client_url fl s3 (append_query_flag fl ''location'' (append_path_segment fl bucket (fl_new fl (endpoint s3))))"
| a_listing: "client_url fl s3 (append_raw_ending_to_url fl (encode_uri_component bucket ''/'' @ ''?'' @ list_query request)
    (fl_new fl (endpoint s3)))"
| timed: "client_url fl s3 u \<Longrightarrow> client_url fl s3 (set_timeout fl t u)"
| retried: "client_url fl s3 u \<Longrightarrow> client_url fl s3 (with_retries fl n u)"

declare client_url.intros [intro]

definition request_signed ::
  "'u flurl \<Rightarrow> crypto \<Rightarrow> ('n \<Rightarrow> bytes) \<Rightarrow> S3Client \<Rightarrow> http_method \<times> 'u \<times> 'c request_body \<Rightarrow> bool"
where
  "request_signed fl cr now s3 r \<longleftrightarrow>
     (case r of (meth, url, body) \<Rightarrow>
        \<exists>n url0 u rng.
          client_url fl s3 url0
          \<and> sign_request_with_payload_hash fl cr (now n) s3 url0 (method_text meth) (payload_hash cr body) = Inr u
          \<and> url = with_range fl rng u \<and> (rng = None \<or> meth = GET))"

section \<open>Interface: the same calls on two clients\<close>

text \<open>Two computations agree when related worlds give the same result and related worlds.\<close>

definition agree :: "('v \<Rightarrow> 'w \<Rightarrow> bool) \<Rightarrow> ('v \<Rightarrow> 'a \<times> 'v) \<Rightarrow> ('w \<Rightarrow> 'a \<times> 'w) \<Rightarrow> bool" where
  "agree R m m' \<longleftrightarrow> (\<forall>w w'. R w w' \<longrightarrow> fst (m w) = fst (m' w') \<and> R (snd (m w)) (snd (m' w')))"

named_theorems agree_intros
  \<open>how computations that agree are put together\<close>

lemma agreeD: "agree R m m' \<Longrightarrow> R w w' \<Longrightarrow> fst (m w) = fst (m' w') \<and> R (snd (m w)) (snd (m' w'))"
  by (simp add: agree_def)

lemma agree_result [agree_intros]: "agree R (io_result r) (io_result r)"
  by (simp add: agree_def io_result_def)

lemma agree_bind [agree_intros]:
  assumes "agree R m m'" "\<And>a w w1. m w = (Inr a, w1) \<Longrightarrow> agree R (f a) (f' a)"
  shows "agree R (io_bind m f) (io_bind m' f')"
  unfolding agree_def
proof (intro allI impI)
  fix w w' assume R: "R w w'"
  obtain r w1 r' w1' where m: "m w = (r, w1)" "m' w' = (r', w1')"
    by (cases "m w"; cases "m' w'") auto
  with agreeD [OF assms(1) R] have r: "r' = r" "R w1 w1'" by auto
  show "fst (io_bind m f w) = fst (io_bind m' f' w')
    \<and> R (snd (io_bind m f w)) (snd (io_bind m' f' w'))"
  proof (cases r)
    case (Inl err)
    then show ?thesis using m r by (simp add: io_bind_def)
  next
    case (Inr a)
    with m(1) have "agree R (f a) (f' a)" using assms(2) by blast
    then show ?thesis using m r Inr by (simp add: io_bind_def agreeD)
  qed
qed

lemma agree_if [agree_intros]:
  "agree R f f' \<Longrightarrow> agree R g g' \<Longrightarrow>
   agree R (\<lambda>w. if c then f w else g w) (\<lambda>w. if c then f' w else g' w)"
  by (simp add: agree_def)

lemma agree_apfst: "agree R m m' \<Longrightarrow> agree R (apfst f \<circ> m) (apfst f \<circ> m')"
  by (simp add: agree_def)

locale two_clients =
  fixes e :: "('u, 'b, 'c, 'r, 'n) env" and e' :: "('u, 'b, 'c, 'r, 'm) env"
    and s3 :: S3Client and s3' :: S3Client
    and R :: "'n world \<Rightarrow> 'm world \<Rightarrow> bool"
  assumes same_url_ops: "url_ops e' = url_ops e" and same_crypto: "crypto_ops e' = crypto_ops e"
    and same_xml: "xml_ops e' = xml_ops e"
    and same_client: "access_key s3' = access_key s3" "secret_key s3' = secret_key s3"
      "region s3' = region s3" "endpoint s3' = endpoint s3"
    and same_time: "R w w' \<Longrightarrow> clock e' (net w') = clock e (net w)"
    and send_agrees: "request_signed (url_ops e) (crypto_ops e) (clock e) s3 (meth, url, body) \<Longrightarrow>
      agree R (send e s3 meth url body) (send e' s3' meth url body)"
    and read_agrees: "agree R (read_whole_body e response) (read_whole_body e' response)"
    and trace_agrees: "R w w' \<Longrightarrow>
      R (trace_response s3 status_code b w) (trace_response s3' status_code b w')"
begin

lemma traced [agree_intros]: "agree R (\<lambda>w. (r, trace_response s3 sc b w)) (\<lambda>w. (r, trace_response s3' sc b w))"
  by (simp add: agree_def trace_agrees)

lemma same_signature: "sign_request_with_payload_hash fl cr now s3' = sign_request_with_payload_hash fl cr now s3"
proof -
  have "authorization cr s3' = authorization cr s3"
    by (simp add: fun_eq_iff authorization_def Let_def same_client)
  then show ?thesis by (auto simp: fun_eq_iff sign_request_with_payload_hash_def split: sum.split)
qed

lemmas same = same_url_ops same_crypto same_xml same_client

lemma signed_hash_agrees [agree_intros]: "agree R (signed_with_hash e s3 url meth h) (signed_with_hash e' s3' url meth h)"
  by (simp add: agree_def signed_with_hash_def same same_time same_signature)

lemma signed_agrees [agree_intros]: "agree R (signed e s3 url meth p) (signed e' s3' url meth p)"
  by (simp add: agree_def signed_def sign_request_def same same_time same_signature)

lemma send_signed_hash:
  assumes "signed_with_hash e s3 url0 meth_text h w = (Inr u, w1)" "client_url (url_ops e) s3 url0"
    and "meth_text = method_text meth" "h = payload_hash (crypto_ops e) body"
    and "rng = None \<or> meth = GET"
  shows "agree R (send e s3 meth (with_range (url_ops e) rng u) body)
    (send e' s3' meth (with_range (url_ops e) rng u) body)"
  using assms by (intro send_agrees) (auto simp: request_signed_def signed_with_hash_def)

lemma send_signed:
  assumes "signed e s3 url0 meth_text p w = (Inr u, w1)" "client_url (url_ops e) s3 url0"
    and "meth_text = method_text meth"
    and "hex_encode (crypto_ops e) (sha256 (crypto_ops e) p) = payload_hash (crypto_ops e) body"
    and "rng = None \<or> meth = GET"
  shows "agree R (send e s3 meth (with_range (url_ops e) rng u) body)
    (send e' s3' meth (with_range (url_ops e) rng u) body)"
  using assms
  by (intro send_signed_hash [of url0 meth_text _ w u w1])
    (auto simp: signed_def signed_with_hash_def sign_request_def)

lemma send_whole_agrees:
  assumes "signed e s3 url0 meth_text p w = (Inr u, w1)" "client_url (url_ops e) s3 url0"
    and "meth_text = method_text meth"
    and "hex_encode (crypto_ops e) (sha256 (crypto_ops e) p) = payload_hash (crypto_ops e) body"
  shows "agree R (send e s3 meth u body) (send e' s3' meth u body)"
  using send_signed [OF assms, of None] by (simp add: with_range_def)

lemma read_success_agrees [agree_intros]:
  "agree R (read_success_body e s3 response) (read_success_body e' s3' response)"
  unfolding read_success_body_def Let_def same by (intro agree_bind read_agrees traced)

lemma expect_success_agrees [agree_intros]: "agree R (expect_success e s3 response) (expect_success e' s3' response)"
  unfolding expect_success_def by (intro agree_bind read_success_agrees agree_result)

declare read_agrees [agree_intros]

lemma upload_agrees:
  "agree R (upload_object e s3 bucket k content t) (upload_object e' s3' bucket k content t)"
  unfolding upload_object_def send_put_def Let_def same
  by (intro agree_intros) (erule send_whole_agrees; auto)

lemma upload_streamed_agrees:
  "agree R (upload_streamed e s3 bucket k body len t) (upload_streamed e' s3' bucket k body len t)"
  unfolding upload_streamed_def send_put_streamed_def Let_def same
  by (intro agree_intros)
    (erule send_signed_hash [where rng = None, unfolded with_range_def option.case]; auto simp: UNSIGNED_PAYLOAD_def)

lemma open_object_agrees [agree_intros]: "agree R (open_object e s3 bucket k rng) (open_object e' s3' bucket k rng)"
  unfolding open_object_def send_get_def Let_def same
  by (intro agree_intros) (erule send_signed; auto)

lemma download_agrees:
  "agree R (download_file e s3 bucket k) (download_file e' s3' bucket k)"
  "agree R (download_file_range e s3 bucket k start end_byte) (download_file_range e' s3' bucket k start end_byte)"
  unfolding download_file_def download_file_range_def
  by (auto intro: agree_bind agree_result open_object_agrees)

lemma delete_agrees: "agree R (delete_file e s3 bucket k) (delete_file e' s3' bucket k)"
  unfolding delete_file_def send_delete_def Let_def same
  by (intro agree_intros) (erule send_whole_agrees; auto)

lemma create_bucket_agrees: "agree R (create_bucket e s3 bucket) (create_bucket e' s3' bucket)"
  unfolding create_bucket_def send_put_def Let_def same
  by (intro agree_intros) (erule send_whole_agrees; auto split: option.split)

lemma ensure_bucket_agrees:
  "agree R (create_bucket_if_not_exists e s3 bucket) (create_bucket_if_not_exists e' s3' bucket)"
  using create_bucket_agrees [of bucket]
  by (auto simp: agree_def create_bucket_if_not_exists_def split: prod.split sum.split) fastforce+

lemma get_bucket_location_agrees:
  "agree R (get_bucket_location e s3 bucket) (get_bucket_location e' s3' bucket)"
  unfolding get_bucket_location_def send_get_def Let_def same
  by (intro agree_intros) (erule send_whole_agrees; auto)

lemma check_if_bucket_exists_agrees:
  "agree R (check_if_bucket_exists e s3 bucket) (check_if_bucket_exists e' s3' bucket)"
  unfolding check_if_bucket_exists_def send_head_def Let_def same
  by (intro agree_intros) (erule send_whole_agrees; auto)

lemma get_object_size_agrees: "agree R (get_object_size e s3 bucket k) (get_object_size e' s3' bucket k)"
  unfolding get_object_size_def send_head_def Let_def same
  by (intro agree_intros) (erule send_whole_agrees; auto)

lemma open_reader_agrees:
  "agree R (run_call e s3 (OpenReader bucket k)) (run_call e' s3' (OpenReader bucket k))"
  using get_object_size_agrees [of bucket k]
  by (auto simp: agree_def open_reader_def io_bind_def io_result_def outcome_of_def new_reader_def
      split: prod.split sum.split) fastforce+

lemma list_objects_agrees:
  "agree R (list_objects_v2 e s3 bucket request) (list_objects_v2 e' s3' bucket request)"
proof -
  have "agree R (listing_answer e s3 bucket request) (listing_answer e' s3' bucket request)"
    unfolding listing_answer_def send_get_def Let_def same
    by (intro agree_intros) (erule send_whole_agrees; (intro client_url.intros | simp))
  then show ?thesis unfolding list_objects_v2_def same by (rule agree_apfst)
qed

lemma call_agrees: "agree R (run_call e s3 c) (run_call e' s3' c)"
proof (cases c)
  case (OpenReader bucket k)
  then show ?thesis by (simp only: open_reader_agrees)
qed (simp_all add: agree_apfst upload_agrees upload_streamed_agrees download_agrees delete_agrees
      create_bucket_agrees ensure_bucket_agrees get_bucket_location_agrees check_if_bucket_exists_agrees
      list_objects_agrees get_object_size_agrees)

lemma calls_agree: "agree R (run_calls e s3 cs) (run_calls e' s3' cs)"
proof (induction cs)
  case (Cons c cs)
  then show ?case
    using call_agrees [of c] by (auto simp: agree_def Let_def split: prod.split) (metis fst_conv snd_conv)+
qed (simp add: agree_def)

end

section \<open>Every request is signed\<close>

text \<open>The environment \<open>e\<close>, with a record of the requests that are sent in front of its own state.\<close>

type_synonym ('u, 'c) sent_request = "http_method \<times> 'u \<times> 'c request_body"

definition recording ::
  "('u, 'b, 'c, 'r, 'n) env \<Rightarrow> ('u, 'b, 'c, 'r, ('u, 'c) sent_request list \<times> 'n) env"
where
  "recording e =
     \<lparr>url_ops = url_ops e, crypto_ops = crypto_ops e,
      clock = (\<lambda>(log, n). clock e n),
      send_request = (\<lambda>meth url body (log, n).
        let (r, n') = send_request e meth url body n in (r, (log @ [(meth, url, body)], n'))),
      send_request_with_debug = (\<lambda>meth url body (log, n).
        let (t, r, n') = send_request_with_debug e meth url body n
        in (t, r, (log @ [(meth, url, body)], n'))),
      body_into_vec = (\<lambda>limit b (log, n). let (r, n') = body_into_vec e limit b n in (r, (log, n'))),
      body_next_item = body_next_item e, xml_ops = xml_ops e\<rparr>"

lemma recording_ops [simp]:
  "url_ops (recording e) = url_ops e" "crypto_ops (recording e) = crypto_ops e"
  "xml_ops (recording e) = xml_ops e" "clock (recording e) ln = clock e (snd ln)"
  by (simp_all add: recording_def split: prod.split)

text \<open>The recorded run is a run of \<open>e\<close>.\<close>

definition forgets :: "'n world \<Rightarrow> ('u, 'c) sent_request list \<times> 'n \<Rightarrow> bytes list \<Rightarrow> bool" where
  "forgets w ln c \<longleftrightarrow> snd ln = net w \<and> c = console w"

interpretation unrecorded: two_clients e "recording e" s3 s3 "\<lambda>w w'. forgets w (net w') (console w')"
proof
  show "agree (\<lambda>w w'. forgets w (net w') (console w')) (read_whole_body e response)
      (read_whole_body (recording e) response)" for response
    unfolding read_whole_body_def
    by (intro agree_bind agree_result)
      (auto simp: agree_def forgets_def recording_def split: prod.split)
qed (auto simp: agree_def forgets_def send_def trace_response_def recording_def split: prod.split)

definition all_signed ::
  "('u, 'b, 'c, 'r, 'n) env \<Rightarrow> S3Client \<Rightarrow> ('u, 'c) sent_request list \<times> 'n \<Rightarrow> bool"
where
  "all_signed e s3 ln \<longleftrightarrow> list_all (request_signed (url_ops e) (crypto_ops e) (clock e) s3) (fst ln)"

interpretation recorded: two_clients "recording e" "recording e" s3 s3
  "\<lambda>w w'. w' = w \<and> all_signed e s3 (net w)"
proof
  show "agree (\<lambda>w w'. w' = w \<and> all_signed e s3 (net w)) (read_whole_body (recording e) response)
      (read_whole_body (recording e) response)" for response
    unfolding read_whole_body_def
    by (intro agree_bind agree_result)
      (auto simp: agree_def all_signed_def recording_def split: prod.split)
next
  fix meth url and body :: "'c request_body"
  assume "request_signed (url_ops (recording e)) (crypto_ops (recording e)) (clock (recording e)) s3 (meth, url, body)"
  then have "request_signed (url_ops e) (crypto_ops e) (clock e) s3 (meth, url, body)"
    by (auto simp: request_signed_def)
  then show "agree (\<lambda>w w'. w' = w \<and> all_signed e s3 (net w)) (send (recording e) s3 meth url body)
      (send (recording e) s3 meth url body)"
    by (auto simp: agree_def all_signed_def send_def recording_def Let_def split: prod.split)
qed (auto simp: agree_def all_signed_def trace_response_def)

section \<open>Tracing\<close>

text \<open>A trace of the HTTP client that sends the request it shows.\<close>

definition with_trace ::
  "(http_method \<Rightarrow> 'u \<Rightarrow> 'c request_body \<Rightarrow> 'n \<Rightarrow> bytes) \<Rightarrow> ('u, 'b, 'c, 'r, 'n) env \<Rightarrow> ('u, 'b, 'c, 'r, 'n) env"
where
  "with_trace shown e =
     e\<lparr>send_request_with_debug := (\<lambda>meth url body n. (shown meth url body n, send_request e meth url body n))\<rparr>"

interpretation trace: two_clients "with_trace shown e" "with_trace shown e" "s3\<lparr>debug_on := False\<rparr>"
  "debug_to_console s3" "\<lambda>w w'. net w' = net w"
proof
  show "agree (\<lambda>w w'. net w' = net w) (read_whole_body (with_trace shown e) response)
      (read_whole_body (with_trace shown e) response)" for response
    unfolding read_whole_body_def
    by (intro agree_bind agree_result) (auto simp: agree_def split: prod.split)
qed (auto simp: agree_def send_def trace_response_def debug_to_console_def with_trace_def split: prod.split)

interpretation quiet: two_clients e e "s3\<lparr>debug_on := False\<rparr>" "s3\<lparr>debug_on := False\<rparr>"
  "\<lambda>w w'. w' = w \<and> console w = printed"
proof
  show "agree (\<lambda>w w'. w' = w \<and> console w = printed) (read_whole_body e response)
      (read_whole_body e response)" for response
    unfolding read_whole_body_def
    by (intro agree_bind agree_result) (auto simp: agree_def split: prod.split)
qed (auto simp: agree_def send_def trace_response_def split: prod.split)

section \<open>Properties\<close>

text \<open>
  C4: every request that leaves the client is signed by it, for its own method and for the
  very payload it carries. Whatever calls are made in whatever order, and whatever the
  network answers: each request was made by signing a url of the client's endpoint (a bucket,
  an object, a location or a listing) with its keys and the time of its clock, with the hash
  of exactly the bytes of its body (\<open>UNSIGNED-PAYLOAD\<close> for a streamed one), and nothing was
  added to it but, on a \<open>GET\<close>, a \<open>Range\<close> header. The record changes nothing: the outcomes, the
  console and the network state are those of the calls without it.
\<close>

theorem every_request_is_signed:
  fixes e :: "('u, 'b, 'c, 'r, 'n) env"
  shows "let (outcomes, w') = run_calls (recording e) s3 calls \<lparr>net = ([], n), console = c\<rparr>
   in run_calls e s3 calls \<lparr>net = n, console = c\<rparr>
        = (outcomes, \<lparr>net = snd (net w'), console = console w'\<rparr>)
      \<and> list_all (request_signed (url_ops e) (crypto_ops e) (clock e) s3) (fst (net w'))"
proof -
  let ?w = "\<lparr>net = n, console = c\<rparr>"
  let ?w' = "\<lparr>net = ([] :: ('u, 'c) sent_request list, n), console = c\<rparr>"
  have "forgets ?w (net ?w') (console ?w')" "all_signed e s3 (net ?w')"
    by (simp_all add: forgets_def all_signed_def)
  then have "fst (run_calls e s3 calls ?w) = fst (run_calls (recording e) s3 calls ?w')"
    "forgets (snd (run_calls e s3 calls ?w)) (net (snd (run_calls (recording e) s3 calls ?w')))
       (console (snd (run_calls (recording e) s3 calls ?w')))"
    "all_signed e s3 (net (snd (run_calls (recording e) s3 calls ?w')))"
    using agreeD [OF unrecorded.calls_agree [of e s3 calls], of ?w ?w']
      agreeD [OF recorded.calls_agree [of e s3 calls], of ?w' ?w'] by simp_all
  then show ?thesis
    by (cases "run_calls e s3 calls ?w"; cases "run_calls (recording e) s3 calls ?w'")
      (auto simp: forgets_def all_signed_def)
qed

text \<open>
  C39: tracing changes nothing but the console, and without it nothing is printed. When the
  HTTP client sends with \<open>*_with_debug\<close> the request it would have sent without, any sequence
  of calls has the same outcomes and leaves the same network state with the trace on and
  off; with it off the console is as it was.
\<close>

theorem tracing_changes_only_the_console:
  assumes "\<And>meth url body n. snd (send_request_with_debug e meth url body n) = send_request e meth url body n"
    and "\<not> debug_on s3" and "net w' = net w"
  shows "fst (run_calls e (debug_to_console s3) calls w') = fst (run_calls e s3 calls w)
    \<and> net (snd (run_calls e (debug_to_console s3) calls w')) = net (snd (run_calls e s3 calls w))
    \<and> console (snd (run_calls e s3 calls w)) = console w"
proof -
  let ?shown = "\<lambda>meth url body n. fst (send_request_with_debug e meth url body n)"
  have "send_request_with_debug e = (\<lambda>meth url body n. (?shown meth url body n, send_request e meth url body n))"
    using assms(1) by (simp add: fun_eq_iff prod_eq_iff)
  then have e: "with_trace ?shown e = e" by (simp add: with_trace_def)
  have s3: "s3\<lparr>debug_on := False\<rparr> = s3" using assms(2) by (cases s3) simp
  show ?thesis
    using agreeD [OF trace.calls_agree [of ?shown e s3 calls], of w' w]
      agreeD [OF quiet.calls_agree [of "console w" e s3 calls], of w w] assms(3)
    by (simp add: e s3)
qed

theorem tracing_changes_only_the_console_witness:
  "run_calls (canned_env 200 ''5'' [''hello''] cursor_reader) sample_client
     [CheckIfBucketExists ''b'', CheckIfBucketExists ''c''] fresh
   = ([Answered True, Answered True], \<lparr>net = 2, console = []\<rparr>)
   \<and> fst (run_calls (canned_env 200 ''5'' [''hello''] cursor_reader) (debug_to_console sample_client)
     [CheckIfBucketExists ''b'', CheckIfBucketExists ''c''] fresh)
   = [Answered True, Answered True]"
proof -
  let ?e = "canned_env 200 ''5'' [''hello''] cursor_reader"
  let ?calls = "[CheckIfBucketExists ''b'', CheckIfBucketExists ''c'']
    :: bytes list client_call list"
  have run: "run_calls ?e sample_client ?calls fresh
      = ([Answered True, Answered True], \<lparr>net = 2, console = []\<rparr>)"
    by code_simp
  have e: "snd (send_request_with_debug ?e meth url body n) = send_request ?e meth url body n"
    for meth url body n by (simp add: canned_env_def)
  have off: "\<not> debug_on sample_client" by (simp add: sample_client_def new_client_def)
  from tracing_changes_only_the_console [OF e off, of fresh fresh ?calls] show ?thesis
    unfolding run by simp
qed

end
