(* ===== verification/Unit_Tests.thy ===== *)
theory Unit_Tests
  imports Client_Calls
begin

text \<open>
  The unit tests of the crate, run on the model: each \<^verbatim>\<open>#[test]\<close> of the source files is a
  definition with its assertions, and a lemma that they hold. Where a test goes through the
  XML reader, the clock or the runtime, what it gets from there is an argument, and the
  test is shown for every reader that keeps the contract of \<open>Xml_Documents\<close>.

  The tests of \<^verbatim>\<open>src/utils.rs\<close>, \<^verbatim>\<open>src/region.rs\<close>, \<^verbatim>\<open>src/upload_handle.rs\<close> and
  \<^verbatim>\<open>src/xml.rs\<close> are here. Left out are the two tests of \<^verbatim>\<open>src/utils.rs\<close> that pin SHA-256 itself, which is an
  argument of the model.
\<close>

section \<open>utils.rs\<close>

definition amz_timestamp_is_compact_iso8601_utc :: "bytes \<Rightarrow> bool" where
  "amz_timestamp_is_compact_iso8601_utc now =
     (let timestamp = get_amz_timestamp now in
      length timestamp = 16 \<and> suffix ''Z'' timestamp \<and> timestamp ! 8 = CHR ''T''
      \<and> list_all is_ascii_digit (take 8 timestamp) \<and> list_all is_ascii_digit (take 6 (drop 9 timestamp)))"

definition no_query_canonicalises_to_empty_string :: bool where
  "no_query_canonicalises_to_empty_string \<longleftrightarrow>
     canonical_query_string None = [] \<and> canonical_query_string (Some []) = []"

definition valueless_param_gets_an_equals_sign :: bool where
  "valueless_param_gets_an_equals_sign \<longleftrightarrow> canonical_query_string (Some ''uploads'') = ''uploads=''"

definition upload_part_query_is_sorted_by_name :: bool where
  "upload_part_query_is_sorted_by_name \<longleftrightarrow>
     canonical_query_string (Some ''uploadId=abc123&partNumber=7'') = ''partNumber=7&uploadId=abc123''"

definition already_encoded_values_are_not_touched :: bool where
  "already_encoded_values_are_not_touched \<longleftrightarrow>
     canonical_query_string (Some ''uploadId=2%7EabC.d-e_f%2Bg'') = ''uploadId=2%7EabC.d-e_f%2Bg''"

definition encode :: "bytes \<Rightarrow> bytes" where
  "encode value = encode_uri_component value []"

definition only_the_unreserved_set_survives_uri_encoding :: bool where
  "only_the_unreserved_set_survives_uri_encoding \<longleftrightarrow>
     encode ''abcXYZ019-_.~'' = ''abcXYZ019-_.~''
     \<and> list_all (\<lambda>(raw, encoded). encode raw = encoded)
         [('' '', ''%20''), (''/'', ''%2F''), (''+'', ''%2B''), (''='', ''%3D''), (''!'', ''%21''),
          (''*'', ''%2A''), ([CHR 0x27], ''%27''), (''('', ''%28''), ('')'', ''%29''), (''%'', ''%25''),
          (''&'', ''%26''), (''?'', ''%3F''), (''#'', ''%23''), ('':'', ''%3A''), (''@'', ''%40''),
          ('','', ''%2C''), ('';'', ''%3B''), (''$'', ''%24'')]"

definition a_space_is_percent_20_and_never_a_plus :: bool where
  "a_space_is_percent_20_and_never_a_plus \<longleftrightarrow>
     encode ''a b'' = ''a%20b'' \<and> CHR ''+'' \<notin> set (encode ''a b'') \<and> encode ''a+b'' = ''a%2Bb''"

definition a_folder_prefix_is_encoded_the_way_sigv4_reads_it :: bool where
  "a_folder_prefix_is_encoded_the_way_sigv4_reads_it \<longleftrightarrow>
     encode ''photos/2024 summer/'' = ''photos%2F2024%20summer%2F''"

definition a_continuation_token_survives_its_base64_punctuation :: bool where
  "a_continuation_token_survives_its_base64_punctuation \<longleftrightarrow>
     encode ''1ueGcxLPRx1Tr/XYExHnhbYLgveDs2J/wm36Hy4vbOwM=''
       = ''1ueGcxLPRx1Tr%2FXYExHnhbYLgveDs2J%2Fwm36Hy4vbOwM%3D''"

text \<open>The Cyrillic word, the accented letter and the emoji of the test, as their UTF-8 bytes.\<close>

definition non_ascii_is_encoded_byte_wise_in_uppercase_hex :: bool where
  "non_ascii_is_encoded_byte_wise_in_uppercase_hex \<longleftrightarrow>
     encode [CHR 0xD0, CHR 0x9F, CHR 0xD1, CHR 0x80, CHR 0xD0, CHR 0xB8, CHR 0xD0, CHR 0xBC,
             CHR 0xD0, CHR 0xB5, CHR 0xD1, CHR 0x80] = ''%D0%9F%D1%80%D0%B8%D0%BC%D0%B5%D1%80''
     \<and> encode (''caf'' @ [CHR 0xC3, CHR 0xA9]) = ''caf%C3%A9''
     \<and> encode [CHR 0xF0, CHR 0x9F, CHR 0x98, CHR 0x80] = ''%F0%9F%98%80''"

definition an_encoded_value_can_not_forge_a_query_separator :: bool where
  "an_encoded_value_can_not_forge_a_query_separator =
     (let query = append_query_param [] ''prefix'' (Some ''a=1&b=2'') in
      query = ''prefix=a%3D1%26b%3D2'' \<and> count_list query CHR ''='' = 1 \<and> count_list query CHR ''&'' = 0)"

definition a_none_parameter_is_not_sent :: bool where
  "a_none_parameter_is_not_sent =
     (let query = append_query_param (append_query_param ''list-type=2'' ''prefix'' None) ''delimiter'' None in
      query = ''list-type=2'' \<and> append_query_param query ''prefix'' (Some []) = ''list-type=2&prefix='')"

definition parameters_are_joined_with_a_single_ampersand :: bool where
  "parameters_are_joined_with_a_single_ampersand \<longleftrightarrow>
     append_query_param (append_query_param [] ''a'' (Some ''1'')) ''b'' (Some ''2'') = ''a=1&b=2''"

definition a_hand_built_query_canonicalises_by_sorting_alone :: bool where
  "a_hand_built_query_canonicalises_by_sorting_alone =
     (let query = append_query_param (append_query_param ''list-type=2'' ''prefix'' (Some ''photos/2024 summer/''))
                    ''delimiter'' (Some ''/'') in
      canonical_query_string (Some query) = ''delimiter=%2F&list-type=2&prefix=photos%2F2024%20summer%2F'')"

definition sort_is_by_name_then_value_not_by_joined_pair :: bool where
  "sort_is_by_name_then_value_not_by_joined_pair \<longleftrightarrow>
     canonical_query_string (Some ''a-b=1&a=2'') = ''a=2&a-b=1''
     \<and> canonical_query_string (Some ''k=2&k=1'') = ''k=1&k=2''"

section \<open>region.rs\<close>

definition every_known_region_round_trips :: bool where
  "every_known_region_round_trips \<longleftrightarrow>
     list_all (\<lambda>reg. as_str (from_str reg) = reg \<and> (case from_str reg of OtherRegion _ \<Rightarrow> False | _ \<Rightarrow> True))
       [''us-east-1'', ''us-east-2'', ''us-west-1'', ''us-west-2'', ''ca-central-1'', ''ca-west-1'',
        ''mx-central-1'', ''sa-east-1'', ''eu-west-1'', ''eu-west-2'', ''eu-west-3'', ''eu-central-1'',
        ''eu-central-2'', ''eu-north-1'', ''eu-south-1'', ''eu-south-2'', ''ap-east-1'', ''ap-south-1'',
        ''ap-south-2'', ''ap-southeast-1'', ''ap-southeast-2'', ''ap-southeast-3'', ''ap-southeast-4'',
        ''ap-northeast-1'', ''ap-northeast-2'', ''ap-northeast-3'', ''me-central-1'', ''me-south-1'',
        ''il-central-1'', ''af-south-1'', ''us-gov-east-1'', ''us-gov-west-1'', ''cn-north-1'',
        ''cn-northwest-1'', ''fsn1'', ''nbg1'', ''hel1'']"

definition an_unknown_region_is_carried_verbatim :: bool where
  "an_unknown_region_is_carried_verbatim =
     (let reg = from_str ''mars-north-7'' in
      reg = OtherRegion ''mars-north-7'' \<and> as_str reg = ''mars-north-7'')"

definition parsing_does_not_normalise :: bool where
  "parsing_does_not_normalise \<longleftrightarrow>
     as_str (from_str '' eu-west-1'') = '' eu-west-1'' \<and> as_str (from_str ''EU-WEST-1'') = ''EU-WEST-1''"

definition conversions_agree_with_from_str :: bool where
  "conversions_agree_with_from_str \<longleftrightarrow>
     region_from_str_ref ''fsn1'' = HetznerFsn1 \<and> region_from_string ''fsn1'' = HetznerFsn1
     \<and> region_from_string ''whatever-1'' = OtherRegion ''whatever-1''
     \<and> region_fmt HetznerFsn1 = ''fsn1''"

definition us_east_1_is_recognised_however_it_was_built :: bool where
  "us_east_1_is_recognised_however_it_was_built \<longleftrightarrow>
     is_us_east_1 AwsUsEast1 \<and> is_us_east_1 (OtherRegion ''us-east-1'')
     \<and> \<not> is_us_east_1 AwsEuWest1 \<and> \<not> is_us_east_1 HetznerFsn1"

definition an_unconfigured_region_is_empty :: bool where
  "an_unconfigured_region_is_empty \<longleftrightarrow>
     region_is_empty (from_str []) \<and> \<not> region_is_empty HetznerFsn1"

section \<open>upload\_handle.rs\<close>

text \<open>
  The channel of these tests has room for the one chunk that is sent. \<open>seven\<close> is the byte
  written, \<open>why\<close> the text of the \<open>JoinError\<close> of a task that panicked.
\<close>

definition seven :: char where
  "seven = CHR 0x07"

definition test_upload :: "nat \<Rightarrow> io_error write_all_answer \<times> bytes \<times> upload" where
  "test_upload n =
     write_all (poll_write always_room) (replicate n seven) (new_upload ''my-bucket'' ''a.bin'' 1000 512)"

definition an_upload_task_that_panics_is_not_blamed_on_the_writer :: "bytes \<Rightarrow> bool" where
  "an_upload_task_that_panics_is_not_blamed_on_the_writer why =
     (let (written, _, u) = test_upload 100;
          handle = new_handle ''my-bucket'' ''a.bin'' in
      written = AllWritten
      \<and> (case finish handle (state u) (Inl why) of
           Inr _ \<Rightarrow> False
         | Inl err \<Rightarrow>
             \<not> is_upload_producer_failed err
             \<and> contains (s3_error_fmt err) ''upload task for my-bucket/a.bin did not finish''
             \<and> \<not> is_retryable err))"

definition an_upload_task_that_panics_is_not_blamed_on_a_body_that_ended_short :: "bytes \<Rightarrow> bool" where
  "an_upload_task_that_panics_is_not_blamed_on_a_body_that_ended_short why =
     (let (written, _, u) = test_upload 600;
          u1 = drop_writer u;
          handle = new_handle ''my-bucket'' ''a.bin'' in
      written = AllWritten
      \<and> (case finish handle (state u1) (Inl why) of
           Inr _ \<Rightarrow> False
         | Inl err \<Rightarrow>
             \<not> is_upload_producer_failed err
             \<and> contains (s3_error_fmt err) ''upload task for my-bucket/a.bin did not finish''))"

definition a_body_ended_short_is_the_writers_failure_even_if_the_upload_failed :: bool where
  "a_body_ended_short_is_the_writers_failure_even_if_the_upload_failed =
     (let (written, _, u) = test_upload 600;
          u1 = drop_writer u;
          handle = new_handle ''my-bucket'' ''a.bin'' in
      written = AllWritten
      \<and> (case finish handle (state u1) (Inr (Inl (Other ''the storage saw a short body''))) of
           Inr _ \<Rightarrow> False
         | Inl err \<Rightarrow>
             (case get_upload_producer_error err of
                None \<Rightarrow> False
              | Some io \<Rightarrow>
                  io_error_kind_of io = UnexpectedEof \<and> contains (io_error_fmt io) ''512 of the 1000'')))"

definition an_upload_that_fails_under_a_live_writer_keeps_its_own_error :: bool where
  "an_upload_that_fails_under_a_live_writer_keeps_its_own_error =
     (let (written, _, u) = test_upload 600;
          handle = new_handle ''my-bucket'' ''a.bin'' in
      written = AllWritten
      \<and> (case finish handle (state u) (Inr (Inl (UnexpectedStatusCode 503 None []))) of
           Inr _ \<Rightarrow> False
         | Inl err \<Rightarrow> get_status_code err = Some 503 \<and> is_retryable err))"

section \<open>xml.rs\<close>

definition quoted :: "bytes \<Rightarrow> bytes" where
  "quoted s = [CHR 0x22] @ s @ [CHR 0x22]"

definition xml_header :: bytes where
  "xml_header = ''<?xml version='' @ quoted ''1.0'' @ '' encoding='' @ quoted ''UTF-8'' @ ''?>''"

definition s3_namespace :: bytes where
  "s3_namespace = '' xmlns='' @ quoted ''http://s3.amazonaws.com/doc/2006-03-01/''"

definition reads_the_error_code :: "'r xml_reader \<Rightarrow> bool" where
  "reads_the_error_code x \<longleftrightarrow>
     read_node_text x
       (xml_header @ ''<Error><Code>NoSuchKey</Code><Message>The specified key does not exist.</Message></Error>'')
       ''Error/Code'' = Some ''NoSuchKey''"

definition reads_the_upload_id :: "'r xml_reader \<Rightarrow> bool" where
  "reads_the_upload_id x \<longleftrightarrow>
     read_node_text x
       (xml_header @ ''<InitiateMultipartUploadResult><Bucket>b</Bucket><Key>k</Key><UploadId>2~aBc-1_2.3</UploadId></InitiateMultipartUploadResult>'')
       ''InitiateMultipartUploadResult/UploadId'' = Some ''2~aBc-1_2.3''"

definition missing_node_is_none_not_a_panic :: "'r xml_reader \<Rightarrow> bool" where
  "missing_node_is_none_not_a_panic x \<longleftrightarrow>
     read_node_text x ''<Error><Message>no code here</Message></Error>'' ''Error/Code'' = None"

definition non_xml_body_is_none_not_a_panic :: "'r xml_reader \<Rightarrow> bool" where
  "non_xml_body_is_none_not_a_panic x \<longleftrightarrow>
     read_node_text x ''502 Bad Gateway'' ''Error/Code'' = None \<and> read_node_text x [] ''Error/Code'' = None
     \<and> read_node_text x ''<Error><Code>tru'' ''Error/Code'' = None"

definition invalid_utf8_is_none_not_undefined_behaviour :: "'r xml_reader \<Rightarrow> bool" where
  "invalid_utf8_is_none_not_undefined_behaviour x \<longleftrightarrow>
     read_node_text x (''<Error><Code>'' @ [CHR 0xFF, CHR 0xFE] @ ''</Code></Error>'') ''Error/Code'' = None"

definition empty_node_reads_as_empty_string :: "'r xml_reader \<Rightarrow> bool" where
  "empty_node_reads_as_empty_string x \<longleftrightarrow>
     read_node_text x ''<Error><Code></Code></Error>'' ''Error/Code'' = Some []"

definition a_stray_closing_tag_is_none_not_an_abort :: "'r xml_reader \<Rightarrow> bool" where
  "a_stray_closing_tag_is_none_not_an_abort x \<longleftrightarrow>
     list_all (\<lambda>body. read_node_text x body ''Error/Code'' = None)
       [''</a>'', ''</div>not xml'', ''<R></R></R>'', ''</Error><Error><Code>NoSuchKey</Code></Error>'']"

definition well_formed_documents_are_still_readable :: bool where
  "well_formed_documents_are_still_readable \<longleftrightarrow>
     is_safe_to_read (xml_header @ ''<Error><Code>NoSuchKey</Code></Error>'')
     \<and> is_safe_to_read ''<LocationConstraint/>'' \<and> is_safe_to_read ''<A><B/><C>x</C></A>''
     \<and> is_safe_to_read [] \<and> is_safe_to_read ''not xml at all'' \<and> \<not> is_safe_to_read ''</A>''
     \<and> \<not> is_safe_to_read (''<A>'' @ [CHR 0xFF] @ ''</A>'')"

definition a_document_that_was_cut_short_is_refused :: bool where
  "a_document_that_was_cut_short_is_refused \<longleftrightarrow>
     \<not> is_safe_to_read ''<A><B>text</B>'' \<and> \<not> is_safe_to_read ''<A><B'' \<and> \<not> is_safe_to_read ''<A><B>te''
     \<and> is_safe_to_read ''<A><B>text</B></A>'' \<and> is_safe_to_read (''<A><B>text</B></A>'' @ nl)"

definition predefined_entities_are_decoded :: bool where
  "predefined_entities_are_decoded \<longleftrightarrow>
     unescape ''a&amp;b&lt;c&gt;d&quot;e&apos;f'' = ''a&b<c>d'' @ [CHR 0x22] @ ''e'' @ [CHR 0x27] @ ''f''
     \<and> unescape ''a&#38;b'' = ''a&#38;b'' \<and> unescape ''plain'' = ''plain'' \<and> unescape ''trailing&'' = ''trailing&''"

section \<open>They hold\<close>

lemma utils_tests_hold:
  "no_query_canonicalises_to_empty_string" "valueless_param_gets_an_equals_sign"
  "upload_part_query_is_sorted_by_name" "already_encoded_values_are_not_touched"
  "only_the_unreserved_set_survives_uri_encoding" "a_space_is_percent_20_and_never_a_plus"
  "a_folder_prefix_is_encoded_the_way_sigv4_reads_it" "a_continuation_token_survives_its_base64_punctuation"
  "non_ascii_is_encoded_byte_wise_in_uppercase_hex" "an_encoded_value_can_not_forge_a_query_separator"
  "a_none_parameter_is_not_sent" "parameters_are_joined_with_a_single_ampersand"
  "a_hand_built_query_canonicalises_by_sorting_alone" "sort_is_by_name_then_value_not_by_joined_pair"
  by code_simp+

lemma timestamp_test_holds: "rfc3339 now \<Longrightarrow> amz_timestamp_is_compact_iso8601_utc now"
  by (erule rfc3339_timestamp)
    (auto simp: amz_timestamp_is_compact_iso8601_utc_def Let_def nth_append suffix_def)

lemma region_tests_hold:
  "every_known_region_round_trips" "an_unknown_region_is_carried_verbatim" "parsing_does_not_normalise"
  "conversions_agree_with_from_str" "us_east_1_is_recognised_however_it_was_built"
  "an_unconfigured_region_is_empty"
  by code_simp+

lemma digit_chars:
  "digit_char 0 = CHR ''0''" "digit_char 1 = CHR ''1''" "digit_char (Suc 0) = CHR ''1''" "digit_char 2 = CHR ''2''"
  "digit_char 3 = CHR ''3''" "digit_char 4 = CHR ''4''" "digit_char 5 = CHR ''5''" "digit_char 6 = CHR ''6''"
  "digit_char 7 = CHR ''7''" "digit_char 8 = CHR ''8''" "digit_char 9 = CHR ''9''"
  by code_simp+

text \<open>A write that fits into the chunk, and one that fills it and goes on.\<close>

lemma write_into_chunk:
  assumes "w_pending (writer u) = None" "sender (writer u)" "\<not> upload_ended (state u)" "data \<noteq> []"
    and "length (buffer (writer u)) + length data < chunk_size (writer u)"
    and "length data \<le> unat (st_content_length (state u) - accepted (state u))"
  shows "write_all (poll_write always_room) data u
    = (AllWritten, [], u\<lparr>writer := (writer u)\<lparr>buffer := buffer (writer u) @ data\<rparr>,
        state := (state u)\<lparr>accepted := accepted (state u) + of_nat (length data)\<rparr>\<rparr>)"
proof -
  have "st_content_length (state u) - accepted (state u) \<noteq> 0" using assms(4,6) by auto
  then have "poll_write always_room data u = (Ready (Inr (length data)),
      u\<lparr>writer := (writer u)\<lparr>buffer := buffer (writer u) @ data\<rparr>,
        state := (state u)\<lparr>accepted := accepted (state u) + of_nat (length data)\<rparr>\<rparr>)"
    using assms by (simp add: poll_write_def poll_pending_def take_bytes_def Let_def)
  then show ?thesis
    using assms(4) by (subst write_all.simps) (simp add: write_all.simps [of _ "[]"])
qed

abbreviation opened :: upload where
  "opened \<equiv> new_upload ''my-bucket'' ''a.bin'' 1000 512"

lemma upload_100:
  "\<exists>u. test_upload 100 = (AllWritten, [], u) \<and> \<not> body_ended (state u)"
  unfolding test_upload_def
  by (subst write_into_chunk) (simp_all add: new_upload_def new_state_def seven_def)

lemma upload_600:
  "\<exists>u. test_upload 600 = (AllWritten, [], u) \<and> st_content_length (state u) = 1000 \<and> sent (state u) = 512
     \<and> \<not> upload_ended (state u) \<and> \<not> body_ended (state u) \<and> sender (writer u)"
proof -
  let ?data = "replicate 600 seven"
  let ?u = "opened\<lparr>state := (state opened)\<lparr>accepted := 512, sent := 512, body_started := True\<rparr>, channel := [take 512 ?data]\<rparr>"
  have ne: "?data \<noteq> []" by simp
  have "poll_write always_room ?data opened = (Ready (Inr 512), ?u)"
    by (simp add: poll_write_def poll_pending_def take_bytes_def Let_def new_upload_def new_state_def
        start_send_def drive_send_def poll_send_def mark_body_started_def)
  then have "test_upload 600 = write_all (poll_write always_room) (drop 512 ?data) ?u"
    unfolding test_upload_def using ne by (subst write_all.simps) simp
  moreover have "write_all (poll_write always_room) (drop 512 ?data) ?u = (AllWritten, [],
      ?u\<lparr>writer := (writer ?u)\<lparr>buffer := buffer (writer ?u) @ drop 512 ?data\<rparr>,
         state := (state ?u)\<lparr>accepted := accepted (state ?u) + of_nat (length (drop 512 ?data))\<rparr>\<rparr>)"
    by (rule write_into_chunk) (simp_all add: new_upload_def new_state_def)
  ultimately show ?thesis by (simp add: new_upload_def new_state_def)
qed

lemma unfinished_message:
  "contains (s3_error_fmt (Other (''the upload task for '' @ ''my-bucket'' @ ''/'' @ ''a.bin'' @ '' did not finish: '' @ why)))
     ''upload task for my-bucket/a.bin did not finish''"
proof -
  have "''the upload task for '' @ ''my-bucket'' @ ''/'' @ ''a.bin'' @ '' did not finish: '' @ why
      = ''the '' @ ''upload task for my-bucket/a.bin did not finish'' @ '': '' @ why" by simp
  then show ?thesis unfolding contains_sublist s3_error_fmt.simps sublist_def by blast
qed

lemma handle_tests_hold:
  "an_upload_task_that_panics_is_not_blamed_on_the_writer why"
  "an_upload_task_that_panics_is_not_blamed_on_a_body_that_ended_short why"
  "a_body_ended_short_is_the_writers_failure_even_if_the_upload_failed"
  "an_upload_that_fails_under_a_live_writer_keeps_its_own_error"
proof -
  obtain u where u: "test_upload 100 = (AllWritten, [], u)" using upload_100 by blast
  obtain v where v: "test_upload 600 = (AllWritten, [], v)" "st_content_length (state v) = 1000"
    "sent (state v) = 512" "\<not> upload_ended (state v)" "\<not> body_ended (state v)" "sender (writer v)"
    using upload_600 by blast
  note panicked = unfinished_message [of why, simplified]
  show "an_upload_task_that_panics_is_not_blamed_on_the_writer why"
    using panicked
    by (simp add: an_upload_task_that_panics_is_not_blamed_on_the_writer_def u finish_def new_handle_def
        is_upload_producer_failed_def)
  show "an_upload_task_that_panics_is_not_blamed_on_a_body_that_ended_short why"
    using panicked
    by (simp add: an_upload_task_that_panics_is_not_blamed_on_a_body_that_ended_short_def v finish_def
        new_handle_def is_upload_producer_failed_def Let_def)
  have st: "state (drop_writer v) = mark_body_ended (state v)"
    using v(6) by (simp add: drop_writer_def Let_def)
  have dec: "u64_to_string 512 = ''512''" "u64_to_string 1000 = ''1000''"
    by (simp_all add: u64_to_string_def dec_of_nat.simps digit_chars)
  obtain msg where msg: "short_body_error (state (drop_writer v)) = Some (IoMessage UnexpectedEof msg)"
    "contains msg ''512 of the 1000''"
  proof
    let ?rest = "'' bytes declared for the upload body went out - the writer was dropped early or shutdown() was not called, or the source ended early''"
    show "short_body_error (state (drop_writer v)) = Some (IoMessage UnexpectedEof (''only '' @ ''512 of the 1000'' @ ?rest))"
      using v(2,3) dec by (simp add: short_body_error_def st mark_body_ended_def)
    show "contains (''only '' @ ''512 of the 1000'' @ ?rest) ''512 of the 1000''"
      unfolding contains_sublist sublist_def by blast
  qed
  have ended: "body_ended (state (drop_writer v))" "\<not> upload_ended (state (drop_writer v))"
    using v(4) by (simp_all add: st mark_body_ended_def)
  show "a_body_ended_short_is_the_writers_failure_even_if_the_upload_failed"
    by (simp add: a_body_ended_short_is_the_writers_failure_even_if_the_upload_failed_def v(1) Let_def finish_def
        ended msg settle_def get_upload_producer_error_def)
  show "an_upload_that_fails_under_a_live_writer_keeps_its_own_error"
    by (simp add: an_upload_that_fails_under_a_live_writer_keeps_its_own_error_def v(1,5) Let_def finish_def
        settle_def get_status_code_def)
qed

lemma guard_tests_hold:
  "invalid_utf8_is_none_not_undefined_behaviour x" "a_stray_closing_tag_is_none_not_an_abort x"
  "well_formed_documents_are_still_readable" "a_document_that_was_cut_short_is_refused"
  "predefined_entities_are_decoded"
proof -
  have refused: "\<not> is_safe_to_read (''<Error><Code>'' @ [CHR 0xFF, CHR 0xFE] @ ''</Code></Error>'')"
    "list_all (\<lambda>body. \<not> is_safe_to_read body)
       [''</a>'', ''</div>not xml'', ''<R></R></R>'', ''</Error><Error><Code>NoSuchKey</Code></Error>'']"
    by code_simp+
  show "invalid_utf8_is_none_not_undefined_behaviour x"
    unfolding invalid_utf8_is_none_not_undefined_behaviour_def read_node_text_def if_P [OF refused(1)] ..
  show "a_stray_closing_tag_is_none_not_an_abort x"
    using refused(2) unfolding a_stray_closing_tag_is_none_not_an_abort_def
    by (rule list.pred_mono_strong) (simp add: read_node_text_def)
  show "well_formed_documents_are_still_readable" "a_document_that_was_cut_short_is_refused"
    "predefined_entities_are_decoded"
    by code_simp+
qed

context document_reader
begin

lemma xml_tests_hold:
  "reads_the_error_code x" "reads_the_upload_id x" "missing_node_is_none_not_a_panic x"
  "non_xml_body_is_none_not_a_panic x" "empty_node_reads_as_empty_string x"
proof -
  let ?error = "Node ''Error'' [] ([] @ Node ''Code'' [] [Chars ''NoSuchKey'']
    # [Node ''Message'' [] [Chars ''The specified key does not exist.'']])"
  have "document_ok xml_header ?error []" unfolding document_ok_def header_ok_def by code_simp
  from child_text [OF this] show "reads_the_error_code x"
    by (simp add: reads_the_error_code_def document_def unescape_def)
  let ?started = "Node ''InitiateMultipartUploadResult'' [] ([Node ''Bucket'' [] [Chars ''b''], Node ''Key'' [] [Chars ''k'']]
    @ Node ''UploadId'' [] [Chars ''2~aBc-1_2.3''] # [])"
  have "document_ok xml_header ?started []" unfolding document_ok_def header_ok_def by code_simp
  from child_text [OF this] show "reads_the_upload_id x"
    by (simp add: reads_the_upload_id_def document_def unescape_def)
  have "document_ok [] (Node ''Error'' [] [Node ''Message'' [] [Chars ''no code here'']]) []"
    unfolding document_ok_def header_ok_def by code_simp
  from absent_child_text [OF this code_name] show "missing_node_is_none_not_a_panic x"
    by (simp add: missing_node_is_none_not_a_panic_def document_def)
  have "\<not> is_safe_to_read ''<Error><Code>tru''" by code_simp
  then show "non_xml_body_is_none_not_a_panic x"
    using no_tags_text(1) [of "''502 Bad Gateway''" "''Error/Code''"] no_tags_text(1) [of "[]" "''Error/Code''"]
    by (simp add: non_xml_body_is_none_not_a_panic_def read_node_text_def [of x "''<Error><Code>tru''"])
  have "document_ok [] (Node ''Error'' [] ([] @ Node ''Code'' [] [] # [])) []"
    unfolding document_ok_def header_ok_def by code_simp
  from child_text [OF this] show "empty_node_reads_as_empty_string x"
    by (simp add: empty_node_reads_as_empty_string_def document_def unescape_def)
qed

end

end
