(* ===== verification/Answer_Tests.thy ===== *)
theory Answer_Tests
  imports Unit_Tests
begin

text \<open>
  The unit tests of \<^verbatim>\<open>src/s3_client.rs\<close>, as in \<open>Unit_Tests\<close>. A body is its bytes; that it is the document of a tree is part of the
  proof, and the test then holds for every reader that keeps the contract.
\<close>

section \<open>s3\_client.rs\<close>

definition delete_returns_204_which_is_a_success :: bool where
  "delete_returns_204_which_is_a_success \<longleftrightarrow>
     is_success 204 \<and> is_success 200 \<and> is_success 206 \<and> \<not> is_success 404 \<and> \<not> is_success 300"

definition a_regional_bucket_states_where_it_goes :: bool where
  "a_regional_bucket_states_where_it_goes =
     (case create_bucket_configuration AwsEuWest1 of
        None \<Rightarrow> False
      | Some configuration \<Rightarrow>
          from_utf8_ok configuration
          \<and> configuration = ''<CreateBucketConfiguration'' @ s3_namespace
              @ ''><LocationConstraint>eu-west-1</LocationConstraint></CreateBucketConfiguration>'')"

definition us_east_1_is_stated_by_sending_nothing :: bool where
  "us_east_1_is_stated_by_sending_nothing \<longleftrightarrow>
     create_bucket_configuration AwsUsEast1 = None
     \<and> create_bucket_configuration (from_str ''us-east-1'') = None
     \<and> create_bucket_configuration (from_str []) = None"

definition a_non_aws_region_is_passed_through_verbatim :: bool where
  "a_non_aws_region_is_passed_through_verbatim \<longleftrightarrow>
     list_all
       (\<lambda>reg. case create_bucket_configuration reg of
                None \<Rightarrow> False
              | Some configuration \<Rightarrow>
                  from_utf8_ok configuration
                  \<and> contains configuration (''<LocationConstraint>'' @ as_str reg @ ''</LocationConstraint>''))
       [HetznerFsn1, OtherRegion ''some-private-ceph'']"

definition a_regional_bucket_reports_its_region :: "'r xml_reader \<Rightarrow> bool" where
  "a_regional_bucket_reports_its_region x \<longleftrightarrow>
     parse_bucket_location x
       (xml_header @ ''<LocationConstraint'' @ s3_namespace @ ''>eu-west-1</LocationConstraint>'') = Inr AwsEuWest1"

definition an_unknown_region_survives_the_round_trip :: "'r xml_reader \<Rightarrow> bool" where
  "an_unknown_region_survives_the_round_trip x \<longleftrightarrow>
     parse_bucket_location x ''<LocationConstraint>some-private-ceph</LocationConstraint>''
       = Inr (OtherRegion ''some-private-ceph'')"

definition an_empty_constraint_is_us_east_1_in_either_spelling :: "'r xml_reader \<Rightarrow> bool" where
  "an_empty_constraint_is_us_east_1_in_either_spelling x \<longleftrightarrow>
     list_all (\<lambda>xml. parse_bucket_location x xml = Inr AwsUsEast1)
       [xml_header @ ''<LocationConstraint'' @ s3_namespace @ ''/>'',
        xml_header @ ''<LocationConstraint'' @ s3_namespace @ ''></LocationConstraint>'',
        ''<LocationConstraint/>'']"

definition a_body_that_is_not_a_location_is_an_error_not_a_default :: "'r xml_reader \<Rightarrow> bool" where
  "a_body_that_is_not_a_location_is_an_error_not_a_default x \<longleftrightarrow>
     list_all (\<lambda>body. isl (parse_bucket_location x body))
       [''502 Bad Gateway'', [], ''<html>nope</html>'', ''<Error><Code>AccessDenied</Code></Error>'']"

definition a_failed_answer_is_traced_in_full_a_successful_one_by_size :: bool where
  "a_failed_answer_is_traced_in_full_a_successful_one_by_size =
     (let error = ''<Error><Code>IllegalLocationConstraintException</Code></Error>'' in
      format_response_trace 400 (Some error)
        = ''[my-s3] <-- 400, body '' @ dec_of_nat (length error) @ '' bytes: '' @ error
      \<and> format_response_trace 200 (Some (replicate 1048576 CHR 0x00)) = ''[my-s3] <-- 200, body 1048576 bytes'')"

definition an_unread_body_says_so :: bool where
  "an_unread_body_says_so \<longleftrightarrow> format_response_trace 416 None = ''[my-s3] <-- 416, body not read''"

definition a_204_is_traced_as_the_success_it_is :: bool where
  "a_204_is_traced_as_the_success_it_is \<longleftrightarrow>
     format_response_trace 204 (Some []) = ''[my-s3] <-- 204, body 0 bytes''"

definition detect_bucket_exists_error :: "'r xml_reader \<Rightarrow> bool" where
  "detect_bucket_exists_error x \<longleftrightarrow>
     is_bucket_already_exists (detect_error x 409
       ''<Error><Code>BucketAlreadyExists</Code><Message>The requested bucket name is not available.</Message><Resource>chat-bot-files-dev</Resource><RequestId>2fd9b10e5df517b3be17b5df4fe3d8c4</RequestId></Error>'')"

definition detect_bucket_already_owned_by_you :: "'r xml_reader \<Rightarrow> bool" where
  "detect_bucket_already_owned_by_you x =
     (let err = detect_error x 409
        ''<Error><Code>BucketAlreadyOwnedByYou</Code><Message>Your previous request to create the named bucket succeeded and you already own it.</Message></Error>'' in
      is_bucket_already_owned_by_you err \<and> bucket_name_is_taken err \<and> \<not> is_retryable err)"

definition detect_no_such_key :: "'r xml_reader \<Rightarrow> bool" where
  "detect_no_such_key x \<longleftrightarrow>
     is_key_not_found (detect_error x 404
       ''<Error><Code>NoSuchKey</Code><Message>The specified key does not exist.</Message></Error>'')"

definition detect_no_such_bucket_is_not_reported_as_a_missing_key :: "'r xml_reader \<Rightarrow> bool" where
  "detect_no_such_bucket_is_not_reported_as_a_missing_key x =
     (let err = detect_error x 404
        ''<Error><Code>NoSuchBucket</Code><Message>The specified bucket does not exist.</Message></Error>'' in
      is_bucket_not_found err \<and> \<not> is_key_not_found err)"

definition bare_404_falls_back_to_key_not_found :: "'r xml_reader \<Rightarrow> bool" where
  "bare_404_falls_back_to_key_not_found x \<longleftrightarrow>
     is_key_not_found (detect_error x 404 []) \<and> is_key_not_found (detect_error x 404 ''<html>Not Found</html>'')"

definition unknown_error_code_keeps_the_status_and_the_code :: "'r xml_reader \<Rightarrow> bool" where
  "unknown_error_code_keeps_the_status_and_the_code x =
     (let err = detect_error x 400 ''<Error><Code>SomethingBrandNew</Code><Message>nope</Message></Error>'' in
      get_status_code err = Some 400
      \<and> (case err of UnexpectedStatusCode _ code _ \<Rightarrow> code = Some ''SomethingBrandNew'' | _ \<Rightarrow> False)
      \<and> \<not> is_retryable err)"

definition server_side_failures_are_retryable :: "'r xml_reader \<Rightarrow> bool" where
  "server_side_failures_are_retryable x \<longleftrightarrow>
     is_retryable (detect_error x 500 []) \<and> is_retryable (detect_error x 503 [])
     \<and> is_retryable (detect_error x 429 [])
     \<and> \<not> is_retryable (detect_error x 400 []) \<and> \<not> is_retryable (detect_error x 403 [])"

definition slow_down_is_retryable_whatever_the_status :: "'r xml_reader \<Rightarrow> bool" where
  "slow_down_is_retryable_whatever_the_status x \<longleftrightarrow>
     is_retryable (detect_error x 400
       ''<Error><Code>SlowDown</Code><Message>Please reduce your request rate.</Message></Error>'')"

definition display_keeps_the_historical_status_code_shape :: "'r xml_reader \<Rightarrow> bool" where
  "display_keeps_the_historical_status_code_shape x \<longleftrightarrow>
     s3_error_fmt (detect_error x 418 ''teapot'') = ''Status Code: 418. Err: teapot''"

section \<open>They hold\<close>

lemma client_tests_hold:
  "delete_returns_204_which_is_a_success" "a_regional_bucket_states_where_it_goes"
  "us_east_1_is_stated_by_sending_nothing" "a_non_aws_region_is_passed_through_verbatim"
  "a_failed_answer_is_traced_in_full_a_successful_one_by_size" "an_unread_body_says_so"
  "a_204_is_traced_as_the_success_it_is"
proof -
  show "delete_returns_204_which_is_a_success"
    by (simp add: delete_returns_204_which_is_a_success_def is_success_def)
  show "a_regional_bucket_states_where_it_goes" "us_east_1_is_stated_by_sending_nothing"
    "a_non_aws_region_is_passed_through_verbatim"
    by code_simp+
  have lossy: "from_utf8_lossy ''<Error><Code>IllegalLocationConstraintException</Code></Error>''
      = ''<Error><Code>IllegalLocationConstraintException</Code></Error>''"
    by (rule from_utf8_lossy_id) code_simp
  show "a_failed_answer_is_traced_in_full_a_successful_one_by_size"
    unfolding a_failed_answer_is_traced_in_full_a_successful_one_by_size_def Let_def format_response_trace_def
      option.case lossy
    by (simp add: DEBUG_PREFIX_def is_success_def dec_of_nat.simps digit_chars)
  show "an_unread_body_says_so" "a_204_is_traced_as_the_success_it_is"
    by (simp_all add: an_unread_body_says_so_def a_204_is_traced_as_the_success_it_is_def format_response_trace_def
        DEBUG_PREFIX_def is_success_def dec_of_nat.simps digit_chars)
qed

text \<open>An error document as the storages send it.\<close>

definition error_document :: "bytes \<Rightarrow> (bytes \<times> bytes) list \<Rightarrow> bytes" where
  "error_document code rest =
     print_tree (Node ''Error'' [] (map (\<lambda>(n, s). Node n [] [Chars s]) ((''Code'', code) # rest)))"

lemma error_document_says:
  assumes "tree_ok (Node ''Error'' [] (map (\<lambda>(n, s). Node n [] [Chars s]) ((''Code'', code) # rest)))"
    and "escape code = code"
  shows "says_code (error_document code rest) (Some code)"
proof -
  have "document_ok [] (Node ''Error'' [] ([] @ text_node ''Code'' code # map (\<lambda>(n, s). Node n [] [Chars s]) rest)) []"
    using assms by (simp add: document_ok_def header_ok_def text_node_def brackets_text tokens_none next_tag_None)
  from says_code.coded [OF this] show ?thesis
    using assms(2) by (simp add: error_document_def document_def text_node_def)
qed

context document_reader
begin

lemma coded_answer:
  assumes "body = error_document code rest"
    and "tree_ok (Node ''Error'' [] (map (\<lambda>(n, s). Node n [] [Chars s]) ((''Code'', code) # rest)))"
    and "escape code = code"
  shows "read_node_text x body ''Error/Code'' = Some code"
  unfolding assms(1) by (rule code_is_read, rule error_document_says) fact+

lemma error_tests_hold:
  "detect_bucket_exists_error x" "detect_bucket_already_owned_by_you x" "detect_no_such_key x"
  "detect_no_such_bucket_is_not_reported_as_a_missing_key x" "bare_404_falls_back_to_key_not_found x"
  "unknown_error_code_keeps_the_status_and_the_code x" "server_side_failures_are_retryable x"
  "slow_down_is_retryable_whatever_the_status x" "display_keeps_the_historical_status_code_shape x"
proof -
  have exists: "read_node_text x ''<Error><Code>BucketAlreadyExists</Code><Message>The requested bucket name is not available.</Message><Resource>chat-bot-files-dev</Resource><RequestId>2fd9b10e5df517b3be17b5df4fe3d8c4</RequestId></Error>'' ''Error/Code''
      = Some ''BucketAlreadyExists''"
    by (rule coded_answer [where rest = "[(''Message'', ''The requested bucket name is not available.''),
          (''Resource'', ''chat-bot-files-dev''), (''RequestId'', ''2fd9b10e5df517b3be17b5df4fe3d8c4'')]"]) code_simp+
  have owned: "read_node_text x ''<Error><Code>BucketAlreadyOwnedByYou</Code><Message>Your previous request to create the named bucket succeeded and you already own it.</Message></Error>'' ''Error/Code''
      = Some ''BucketAlreadyOwnedByYou''"
    by (rule coded_answer [where rest = "[(''Message'', ''Your previous request to create the named bucket succeeded and you already own it.'')]"]) code_simp+
  have no_key: "read_node_text x ''<Error><Code>NoSuchKey</Code><Message>The specified key does not exist.</Message></Error>'' ''Error/Code''
      = Some ''NoSuchKey''"
    by (rule coded_answer [where rest = "[(''Message'', ''The specified key does not exist.'')]"]) code_simp+
  have no_bucket: "read_node_text x ''<Error><Code>NoSuchBucket</Code><Message>The specified bucket does not exist.</Message></Error>'' ''Error/Code''
      = Some ''NoSuchBucket''"
    by (rule coded_answer [where rest = "[(''Message'', ''The specified bucket does not exist.'')]"]) code_simp+
  have new: "read_node_text x ''<Error><Code>SomethingBrandNew</Code><Message>nope</Message></Error>'' ''Error/Code''
      = Some ''SomethingBrandNew''"
    by (rule coded_answer [where rest = "[(''Message'', ''nope'')]"]) code_simp+
  have slow: "read_node_text x ''<Error><Code>SlowDown</Code><Message>Please reduce your request rate.</Message></Error>'' ''Error/Code''
      = Some ''SlowDown''"
    by (rule coded_answer [where rest = "[(''Message'', ''Please reduce your request rate.'')]"]) code_simp+
  have bare: "read_node_text x [] ''Error/Code'' = None" "read_node_text x ''teapot'' ''Error/Code'' = None"
    by (rule no_tags_text; simp)+
  have "document_ok [] (Node ''html'' [] [Chars ''Not Found'']) []"
    unfolding document_ok_def header_ok_def by code_simp
  then have html: "read_node_text x ''<html>Not Found</html>'' ''Error/Code'' = None"
    using other_root_text [of "[]" "Node ''html'' [] [Chars ''Not Found'']" "[]" "''Error/Code''"]
    by (simp add: error_path document_def)
  note told = detect_error_def map_error_code_def error_predicate_defs retry_by_name_def
  show "detect_bucket_exists_error x" unfolding detect_bucket_exists_error_def by (simp add: told exists)
  show "detect_bucket_already_owned_by_you x"
    unfolding detect_bucket_already_owned_by_you_def by (simp add: told owned)
  show "detect_no_such_key x" unfolding detect_no_such_key_def by (simp add: told no_key)
  show "detect_no_such_bucket_is_not_reported_as_a_missing_key x"
    unfolding detect_no_such_bucket_is_not_reported_as_a_missing_key_def by (simp add: told no_bucket)
  show "bare_404_falls_back_to_key_not_found x"
    unfolding bare_404_falls_back_to_key_not_found_def by (simp add: told bare html)
  show "unknown_error_code_keeps_the_status_and_the_code x"
    unfolding unknown_error_code_keeps_the_status_and_the_code_def by (simp add: told new)
  show "server_side_failures_are_retryable x"
    unfolding server_side_failures_are_retryable_def by (simp add: told bare)
  show "slow_down_is_retryable_whatever_the_status x"
    unfolding slow_down_is_retryable_whatever_the_status_def by (simp add: told slow)
  have "from_utf8_lossy ''teapot'' = ''teapot''" by (rule from_utf8_lossy_id) code_simp
  then show "display_keeps_the_historical_status_code_shape x"
    unfolding display_keeps_the_historical_status_code_shape_def
    by (simp add: told bare dec_of_nat.simps digit_chars)
qed

lemma location_tests_hold:
  "a_regional_bucket_reports_its_region x" "an_unknown_region_survives_the_round_trip x"
  "an_empty_constraint_is_us_east_1_in_either_spelling x"
  "a_body_that_is_not_a_location_is_an_error_not_a_default x"
proof -
  let ?n = "''LocationConstraint''"
  have at: "parse_bucket_location x body = Inr (if s = [] then AwsUsEast1 else from_str s)"
    if "says_location body s" for body s
    using location_is_read [OF that] by (auto simp: parse_bucket_location_def)
  have h: "header_ok xml_header" "header_ok []" unfolding header_ok_def by code_simp+
  have a: "attrs_ok s3_namespace" "attrs_ok []" "name_ok ?n" by code_simp+
  have t: "escape ''eu-west-1'' = ''eu-west-1''" "escape ''some-private-ceph'' = ''some-private-ceph''"
    "from_utf8_ok ''eu-west-1''" "from_utf8_ok ''some-private-ceph''"
    by code_simp+
  have "says_location (xml_header @ ''<LocationConstraint'' @ s3_namespace @ ''>eu-west-1</LocationConstraint>'') ''eu-west-1''"
    using says_location.located [of xml_header s3_namespace "''eu-west-1''" "[]"] h a t
    by (simp add: document_ok_def document_def)
  from at [OF this] show "a_regional_bucket_reports_its_region x"
    by (simp add: a_regional_bucket_reports_its_region_def from_str_def)
  have "says_location ''<LocationConstraint>some-private-ceph</LocationConstraint>'' ''some-private-ceph''"
    using says_location.located [of "[]" "[]" "''some-private-ceph''" "[]"] h a t
    by (simp add: document_ok_def document_def)
  from at [OF this] show "an_unknown_region_survives_the_round_trip x"
    by (simp add: an_unknown_region_survives_the_round_trip_def from_str_def)
  have "says_location (xml_header @ ''<LocationConstraint'' @ s3_namespace @ ''/>'') []"
    "says_location ''<LocationConstraint/>'' []"
    using says_location.closed [of xml_header s3_namespace "[]"] says_location.closed [of "[]" "[]" "[]"] h a
    by (simp_all add: document_ok_def document_def)
  moreover have "says_location (xml_header @ ''<LocationConstraint'' @ s3_namespace @ ''></LocationConstraint>'') []"
    using says_location.nowhere [of xml_header s3_namespace "[]"] h a by (simp add: document_ok_def document_def)
  ultimately show "an_empty_constraint_is_us_east_1_in_either_spelling x"
    using at unfolding an_empty_constraint_is_us_east_1_in_either_spelling_def by simp
  have none: "isl (parse_bucket_location x body)"
    if "read_node_text x body ?n = None" "\<not> contains body ''<LocationConstraint''" for body
    using that by (simp add: parse_bucket_location_def)
  have "document_ok [] (Node ''html'' [] [Chars ''nope'']) []"
    "document_ok [] (Node ''Error'' [] [Node ''Code'' [] [Chars ''AccessDenied'']]) []"
    unfolding document_ok_def header_ok_def by code_simp+
  then have "read_node_text x ''<html>nope</html>'' ?n = None"
    "read_node_text x ''<Error><Code>AccessDenied</Code></Error>'' ?n = None"
    using other_location by (force simp: document_def)+
  moreover have "read_node_text x ''502 Bad Gateway'' ?n = None" "read_node_text x [] ?n = None"
    by (rule no_tags_text; simp)+
  moreover have "list_all (\<lambda>body. \<not> contains body ''<LocationConstraint'')
      [''502 Bad Gateway'', [], ''<html>nope</html>'', ''<Error><Code>AccessDenied</Code></Error>'']"
    by code_simp
  ultimately show "a_body_that_is_not_a_location_is_an_error_not_a_default x"
    using none by (simp add: a_body_that_is_not_a_location_is_an_error_not_a_default_def)
qed

end

end
