(* ===== verification/Listing_Tests.thy ===== *)
theory Listing_Tests
  imports Answer_Tests
begin

text \<open>
  The unit tests of \<^verbatim>\<open>src/list_objects.rs\<close>, as in \<open>Unit_Tests\<close>: the answers of the
  storages the tests quote, byte for byte, and what the parse makes of them for every
  reader that keeps the contract of \<open>Xml_Documents\<close>.
\<close>

section \<open>Answers\<close>

definition AWS_WITH_DELIMITER :: bytes where
  "AWS_WITH_DELIMITER =
     join_with nl
       [xml_header,
        ''<ListBucketResult'' @ s3_namespace @ ''>'',
        ''  <Name>my-bucket</Name>'',
        ''  <Prefix>photos/</Prefix>'',
        ''  <Delimiter>/</Delimiter>'',
        ''  <KeyCount>3</KeyCount>'',
        ''  <MaxKeys>1000</MaxKeys>'',
        ''  <IsTruncated>false</IsTruncated>'',
        ''  <Contents>'',
        ''    <Key>photos/cover.jpg</Key>'',
        ''    <LastModified>2024-07-01T12:34:56.000Z</LastModified>'',
        ''    <ETag>&quot;d41d8cd98f00b204e9800998ecf8427e&quot;</ETag>'',
        ''    <Size>1048576</Size>'',
        ''    <StorageClass>STANDARD</StorageClass>'',
        ''    <Owner>'',
        ''      <ID>75aa57f09aa0c8caeab4f8c24e99d10f8e7faeebf76c078efc7c6caea54ba06a</ID>'',
        ''      <DisplayName>someone</DisplayName>'',
        ''    </Owner>'',
        ''  </Contents>'',
        ''  <CommonPrefixes>'',
        ''    <Prefix>photos/2023/</Prefix>'',
        ''  </CommonPrefixes>'',
        ''  <CommonPrefixes>'',
        ''    <Prefix>photos/2024/</Prefix>'',
        ''  </CommonPrefixes>'',
        ''</ListBucketResult>'']"

definition empty_xml :: bytes where
  "empty_xml =
     join_with nl
       [xml_header,
        ''<ListBucketResult'' @ s3_namespace @ ''>'',
        ''  <Name>my-bucket</Name>'',
        ''  <Prefix></Prefix>'',
        ''  <KeyCount>0</KeyCount>'',
        ''  <MaxKeys>1000</MaxKeys>'',
        ''  <IsTruncated>false</IsTruncated>'',
        ''</ListBucketResult>'']"

definition more_xml :: bytes where
  "more_xml =
     join_with nl
       [xml_header,
        ''<ListBucketResult'' @ s3_namespace @ ''>'',
        ''  <Name>my-bucket</Name>'',
        ''  <IsTruncated>true</IsTruncated>'',
        ''  <NextContinuationToken>1ueGcxLPRx1Tr/XYExHnhbYLgveDs2J/wm36Hy4vbOwM=</NextContinuationToken>'',
        ''  <Contents>'',
        ''    <Key>a.bin</Key>'',
        ''    <LastModified>2024-01-01T00:00:00.000Z</LastModified>'',
        ''    <Size>1</Size>'',
        ''  </Contents>'',
        ''</ListBucketResult>'']"

definition leftover_xml :: bytes where
  "leftover_xml =
     join_with nl
       [''<ListBucketResult>'',
        ''  <IsTruncated>false</IsTruncated>'',
        ''  <NextContinuationToken>leftover</NextContinuationToken>'',
        ''</ListBucketResult>'']"

definition tokenless_xml :: bytes where
  "tokenless_xml =
     join_with nl
       [''<ListBucketResult>'',
        ''  <IsTruncated>true</IsTruncated>'',
        ''  <Contents><Key>a</Key><LastModified>x</LastModified><Size>0</Size></Contents>'',
        ''</ListBucketResult>'']"

definition escaped_xml :: bytes where
  "escaped_xml =
     join_with nl
       [''<ListBucketResult>'',
        ''  <IsTruncated>false</IsTruncated>'',
        ''  <Contents>'',
        ''    <Key>reports/Q1 &amp; Q2 &lt;draft&gt;.pdf</Key>'',
        ''    <LastModified>2024-01-01T00:00:00.000Z</LastModified>'',
        ''    <Size>7</Size>'',
        ''  </Contents>'',
        ''  <CommonPrefixes><Prefix>a &amp; b/</Prefix></CommonPrefixes>'',
        ''</ListBucketResult>'']"

definition ceph_xml :: bytes where
  "ceph_xml =
     join_with nl
       [xml_header,
        ''<ListBucketResult'' @ s3_namespace @ ''>'',
        ''  <Name>my-bucket</Name>'',
        ''  <Prefix>photos/</Prefix>'',
        ''  <MaxKeys>1000</MaxKeys>'',
        ''  <Delimiter>/</Delimiter>'',
        ''  <CommonPrefixes><Prefix>photos/2023/</Prefix></CommonPrefixes>'',
        ''  <Contents>'',
        ''    <Key>photos/a.jpg</Key>'',
        ''    <LastModified>2024-07-01T12:34:56.000Z</LastModified>'',
        ''    <ETag>&quot;aaa&quot;</ETag>'',
        ''    <Size>10</Size>'',
        ''    <StorageClass>STANDARD</StorageClass>'',
        ''  </Contents>'',
        ''  <CommonPrefixes><Prefix>photos/2024/</Prefix></CommonPrefixes>'',
        ''  <Contents>'',
        ''    <Key>photos/b.jpg</Key>'',
        ''    <LastModified>2024-07-02T00:00:00.000Z</LastModified>'',
        ''    <Size>20</Size>'',
        ''  </Contents>'',
        ''  <IsTruncated>false</IsTruncated>'',
        ''  <Marker></Marker>'',
        ''</ListBucketResult>'']"

definition minio_xml :: bytes where
  "minio_xml =
     xml_header @ ''<ListBucketResult'' @ s3_namespace @ ''><Name>b</Name><Prefix/><KeyCount>1</KeyCount><MaxKeys>1000</MaxKeys><Delimiter/><IsTruncated>false</IsTruncated><Contents><Key>x.bin</Key><LastModified>2024-07-01T12:34:56.000Z</LastModified><ETag>&quot;e&quot;</ETag><Size>3</Size><Owner><ID>minio</ID><DisplayName/></Owner><StorageClass>STANDARD</StorageClass></Contents></ListBucketResult>''"

definition buried_xml :: bytes where
  "buried_xml =
     join_with nl
       [''<ListBucketResult>'',
        ''  <IsTruncated>false</IsTruncated>'',
        ''  <Contents>'',
        ''    <Owner><ID>x</ID><Key>owner-key</Key></Owner>'',
        ''    <Key>real-key</Key>'',
        ''    <LastModified>2024-01-01T00:00:00.000Z</LastModified>'',
        ''    <Size>5</Size>'',
        ''  </Contents>'',
        ''</ListBucketResult>'']"

definition complete_xml :: bytes where
  "complete_xml =
     join_with nl
       [''<ListBucketResult>'',
        ''  <IsTruncated>false</IsTruncated>'',
        ''  <Contents><Key>a</Key><LastModified>t</LastModified><Size>1</Size></Contents>'',
        ''  <Contents><Key>b</Key><LastModified>t</LastModified><Size>2</Size></Contents>'',
        ''</ListBucketResult>'']"

section \<open>Tests\<close>

text \<open>\<open>unwrap\<close> of a parse that returned a page, and \<open>is_err\<close>.\<close>

definition on_page :: "(S3ListObjectsPage, S3Error) result option \<Rightarrow> (S3ListObjectsPage \<Rightarrow> bool) \<Rightarrow> bool" where
  "on_page r f = (case r of Some (Inr page) \<Rightarrow> f page | _ \<Rightarrow> False)"

definition is_err :: "('a, 'e) result option \<Rightarrow> bool" where
  "is_err r = (case r of Some (Inl _) \<Rightarrow> True | _ \<Rightarrow> False)"

definition the_aws_example_reads_as_one_folder_level :: "'r xml_reader \<Rightarrow> bool" where
  "the_aws_example_reads_as_one_folder_level x =
     on_page (parse_list_objects_v2 x AWS_WITH_DELIMITER) (\<lambda>page.
       common_prefixes page = [''photos/2023/'', ''photos/2024/''] \<and> length (objects page) = 1
       \<and> next_continuation_token page = None
       \<and> (let ob = objects page ! 0 in
           obj_key ob = ''photos/cover.jpg'' \<and> obj_size ob = 1048576
           \<and> obj_last_modified ob = ''2024-07-01T12:34:56.000Z''
           \<and> obj_etag ob = Some (quoted ''d41d8cd98f00b204e9800998ecf8427e'')))"

definition a_common_prefix_is_a_full_prefix_not_a_suffix :: "'r xml_reader \<Rightarrow> bool" where
  "a_common_prefix_is_a_full_prefix_not_a_suffix x =
     on_page (parse_list_objects_v2 x AWS_WITH_DELIMITER) (\<lambda>page.
       list_all (\<lambda>p. starts_with p ''photos/'' \<and> suffix ''/'' p) (common_prefixes page))"

definition an_empty_bucket_is_an_empty_page_not_an_error :: "'r xml_reader \<Rightarrow> bool" where
  "an_empty_bucket_is_an_empty_page_not_an_error x =
     on_page (parse_list_objects_v2 x empty_xml) (\<lambda>page.
       common_prefixes page = [] \<and> objects page = [] \<and> next_continuation_token page = None)"

definition a_truncated_page_hands_back_the_token_to_resume_from :: "'r xml_reader \<Rightarrow> bool" where
  "a_truncated_page_hands_back_the_token_to_resume_from x =
     on_page (parse_list_objects_v2 x more_xml) (\<lambda>page.
       next_continuation_token page = Some ''1ueGcxLPRx1Tr/XYExHnhbYLgveDs2J/wm36Hy4vbOwM='')"

definition a_token_without_truncation_is_not_a_next_page :: "'r xml_reader \<Rightarrow> bool" where
  "a_token_without_truncation_is_not_a_next_page x =
     on_page (parse_list_objects_v2 x leftover_xml) (\<lambda>page. next_continuation_token page = None)"

definition truncated_with_no_token_is_an_error_not_a_last_page :: "'r xml_reader \<Rightarrow> bool" where
  "truncated_with_no_token_is_an_error_not_a_last_page x = is_err (parse_list_objects_v2 x tokenless_xml)"

definition an_escaped_key_is_unescaped :: "'r xml_reader \<Rightarrow> bool" where
  "an_escaped_key_is_unescaped x =
     on_page (parse_list_objects_v2 x escaped_xml) (\<lambda>page.
       obj_key (objects page ! 0) = ''reports/Q1 & Q2 <draft>.pdf'' \<and> common_prefixes page = [''a & b/''])"

definition a_ceph_style_answer_reads_the_same_as_the_aws_one :: "'r xml_reader \<Rightarrow> bool" where
  "a_ceph_style_answer_reads_the_same_as_the_aws_one x =
     on_page (parse_list_objects_v2 x ceph_xml) (\<lambda>page.
       common_prefixes page = [''photos/2023/'', ''photos/2024/'']
       \<and> map obj_key (objects page) = [''photos/a.jpg'', ''photos/b.jpg'']
       \<and> obj_size (objects page ! 0) = 10 \<and> obj_etag (objects page ! 0) = Some (quoted ''aaa'')
       \<and> obj_etag (objects page ! 1) = None \<and> obj_size (objects page ! 1) = 20)"

definition a_minio_style_answer_survives_self_closing_elements :: "'r xml_reader \<Rightarrow> bool" where
  "a_minio_style_answer_survives_self_closing_elements x =
     on_page (parse_list_objects_v2 x minio_xml) (\<lambda>page.
       length (objects page) = 1 \<and> obj_key (objects page ! 0) = ''x.bin'' \<and> obj_size (objects page ! 0) = 3)"

definition a_self_closing_root_is_an_empty_page :: "'r xml_reader \<Rightarrow> bool" where
  "a_self_closing_root_is_an_empty_page x =
     on_page (parse_list_objects_v2 x (''<ListBucketResult/>'' @ nl)) (\<lambda>page.
       objects page = [] \<and> common_prefixes page = [])"

definition a_field_buried_in_a_skipped_subtree_is_not_the_objects_own :: "'r xml_reader \<Rightarrow> bool" where
  "a_field_buried_in_a_skipped_subtree_is_not_the_objects_own x =
     on_page (parse_list_objects_v2 x buried_xml) (\<lambda>page.
       length (objects page) = 1 \<and> obj_key (objects page ! 0) = ''real-key'')"

text \<open>The cut is where the second entry starts.\<close>

fun find_at :: "bytes \<Rightarrow> bytes \<Rightarrow> nat option" where
  "find_at [] pat = (if pat = [] then Some 0 else None)"
| "find_at (c # s) pat = (if starts_with (c # s) pat then Some 0 else map_option Suc (find_at s pat))"

definition a_listing_cut_short_is_an_error_not_a_shorter_page :: "'r xml_reader \<Rightarrow> bool" where
  "a_listing_cut_short_is_an_error_not_a_shorter_page x \<longleftrightarrow>
     on_page (parse_list_objects_v2 x complete_xml) (\<lambda>page. length (objects page) = 2)
     \<and> (case find_at complete_xml ''<Contents><Key>b'' of
          None \<Rightarrow> False
        | Some i \<Rightarrow> is_err (parse_list_objects_v2 x (take i complete_xml)))"

definition a_mangled_body_is_an_error_not_a_panic :: "'r xml_reader \<Rightarrow> bool" where
  "a_mangled_body_is_an_error_not_a_panic x \<longleftrightarrow>
     list_all (\<lambda>body. is_err (parse_list_objects_v2 x body))
       [[], ''502 Bad Gateway'', ''<html><body>nope</body></html>'', ''<Error><Code>AccessDenied</Code></Error>'',
        ''<ListBucketResult><Contents><Key>half'',
        ''<ListBucketResult><Contents></Wrong></ListBucketResult>'', ''</ListBucketResult>'',
        ''</div><ListBucketResult></ListBucketResult>'',
        ''<ListBucketResult><Contents><Key>'' @ [CHR 0xFF, CHR 0xFE] @ ''</Key></Contents></ListBucketResult>'',
        ''<ListBucketResult><Contents><Size>1</Size></Contents></ListBucketResult>'',
        ''<ListBucketResult><Contents><Key>a</Key><LastModified>x</LastModified><Size>huge</Size></Contents></ListBucketResult>'',
        ''<ListBucketResult><CommonPrefixes></CommonPrefixes></ListBucketResult>'']"

section \<open>They hold\<close>

definition pad :: "nat \<Rightarrow> xml_tree" where
  "pad n = Chars (nl @ replicate n CHR 0x20)"

definition aws_trees :: "xml_tree list" where
  "aws_trees =
     [pad 2, Node ''Name'' [] [Chars ''my-bucket''], pad 2, Node ''Prefix'' [] [Chars ''photos/''],
      pad 2, Node ''Delimiter'' [] [Chars ''/''], pad 2, Node ''KeyCount'' [] [Chars ''3''], pad 2,
      Node ''MaxKeys'' [] [Chars ''1000''], pad 2, Node ''IsTruncated'' [] [Chars ''false''], pad 2,
      Node ''Contents'' [] [pad 4, Node ''Key'' [] [Chars ''photos/cover.jpg''], pad 4,
        Node ''LastModified'' [] [Chars ''2024-07-01T12:34:56.000Z''], pad 4, Node ''ETag'' [] [Chars ''&quot;d41d8cd98f00b204e9800998ecf8427e&quot;''], pad 4, Node ''Size'' [] [Chars ''1048576''], pad 4, Node ''StorageClass'' [] [Chars ''STANDARD''], pad 4, Node ''Owner'' [] [pad 6, Node ''ID'' [] [Chars ''75aa57f09aa0c8caeab4f8c24e99d10f8e7faeebf76c078efc7c6caea54ba06a''], pad 6, Node ''DisplayName'' [] [Chars ''someone''], pad 4], pad 2],
      pad 2, Node ''CommonPrefixes'' [] [pad 4, Node ''Prefix'' [] [Chars ''photos/2023/''], pad 2],
      pad 2, Node ''CommonPrefixes'' [] [pad 4, Node ''Prefix'' [] [Chars ''photos/2024/''], pad 2],
      pad 0]"

definition empty_trees :: "xml_tree list" where
  "empty_trees =
     [pad 2, Node ''Name'' [] [Chars ''my-bucket''], pad 2, Node ''Prefix'' [] [], pad 2,
      Node ''KeyCount'' [] [Chars ''0''], pad 2, Node ''MaxKeys'' [] [Chars ''1000''], pad 2,
      Node ''IsTruncated'' [] [Chars ''false''], pad 0]"

definition more_trees :: "xml_tree list" where
  "more_trees =
     [pad 2, Node ''Name'' [] [Chars ''my-bucket''], pad 2, Node ''IsTruncated'' [] [Chars ''true''],
      pad 2,
      Node ''NextContinuationToken'' [] [Chars ''1ueGcxLPRx1Tr/XYExHnhbYLgveDs2J/wm36Hy4vbOwM=''],
      pad 2,
      Node ''Contents'' [] [pad 4, Node ''Key'' [] [Chars ''a.bin''], pad 4,
        Node ''LastModified'' [] [Chars ''2024-01-01T00:00:00.000Z''], pad 4, Node ''Size'' [] [Chars ''1''], pad 2],
      pad 0]"

definition leftover_trees :: "xml_tree list" where
  "leftover_trees =
     [pad 2, Node ''IsTruncated'' [] [Chars ''false''], pad 2,
      Node ''NextContinuationToken'' [] [Chars ''leftover''], pad 0]"

definition tokenless_trees :: "xml_tree list" where
  "tokenless_trees =
     [pad 2, Node ''IsTruncated'' [] [Chars ''true''], pad 2,
      Node ''Contents'' [] [Node ''Key'' [] [Chars ''a''], Node ''LastModified'' [] [Chars ''x''],
        Node ''Size'' [] [Chars ''0'']],
      pad 0]"

definition escaped_trees :: "xml_tree list" where
  "escaped_trees =
     [pad 2, Node ''IsTruncated'' [] [Chars ''false''], pad 2,
      Node ''Contents'' [] [pad 4,
        Node ''Key'' [] [Chars ''reports/Q1 &amp; Q2 &lt;draft&gt;.pdf''], pad 4, Node ''LastModified'' [] [Chars ''2024-01-01T00:00:00.000Z''], pad 4, Node ''Size'' [] [Chars ''7''], pad 2],
      pad 2, Node ''CommonPrefixes'' [] [Node ''Prefix'' [] [Chars ''a &amp; b/'']], pad 0]"

definition ceph_trees :: "xml_tree list" where
  "ceph_trees =
     [pad 2, Node ''Name'' [] [Chars ''my-bucket''], pad 2, Node ''Prefix'' [] [Chars ''photos/''],
      pad 2, Node ''MaxKeys'' [] [Chars ''1000''], pad 2, Node ''Delimiter'' [] [Chars ''/''], pad 2,
      Node ''CommonPrefixes'' [] [Node ''Prefix'' [] [Chars ''photos/2023/'']], pad 2,
      Node ''Contents'' [] [pad 4, Node ''Key'' [] [Chars ''photos/a.jpg''], pad 4,
        Node ''LastModified'' [] [Chars ''2024-07-01T12:34:56.000Z''], pad 4, Node ''ETag'' [] [Chars ''&quot;aaa&quot;''], pad 4, Node ''Size'' [] [Chars ''10''], pad 4, Node ''StorageClass'' [] [Chars ''STANDARD''], pad 2],
      pad 2, Node ''CommonPrefixes'' [] [Node ''Prefix'' [] [Chars ''photos/2024/'']], pad 2,
      Node ''Contents'' [] [pad 4, Node ''Key'' [] [Chars ''photos/b.jpg''], pad 4,
        Node ''LastModified'' [] [Chars ''2024-07-02T00:00:00.000Z''], pad 4, Node ''Size'' [] [Chars ''20''], pad 2],
      pad 2, Node ''IsTruncated'' [] [Chars ''false''], pad 2, Node ''Marker'' [] [], pad 0]"

definition minio_trees :: "xml_tree list" where
  "minio_trees =
     [Node ''Name'' [] [Chars ''b''], Leaf ''Prefix'' [], Node ''KeyCount'' [] [Chars ''1''],
      Node ''MaxKeys'' [] [Chars ''1000''], Leaf ''Delimiter'' [],
      Node ''IsTruncated'' [] [Chars ''false''],
      Node ''Contents'' [] [Node ''Key'' [] [Chars ''x.bin''],
        Node ''LastModified'' [] [Chars ''2024-07-01T12:34:56.000Z''], Node ''ETag'' [] [Chars ''&quot;e&quot;''], Node ''Size'' [] [Chars ''3''], Node ''Owner'' [] [Node ''ID'' [] [Chars ''minio''], Leaf ''DisplayName'' []], Node ''StorageClass'' [] [Chars ''STANDARD'']]]"

definition buried_trees :: "xml_tree list" where
  "buried_trees =
     [pad 2, Node ''IsTruncated'' [] [Chars ''false''], pad 2,
      Node ''Contents'' [] [pad 4, Node ''Owner'' [] [Node ''ID'' [] [Chars ''x''],
        Node ''Key'' [] [Chars ''owner-key'']], pad 4, Node ''Key'' [] [Chars ''real-key''], pad 4, Node ''LastModified'' [] [Chars ''2024-01-01T00:00:00.000Z''], pad 4, Node ''Size'' [] [Chars ''5''], pad 2],
      pad 0]"

definition complete_trees :: "xml_tree list" where
  "complete_trees =
     [pad 2, Node ''IsTruncated'' [] [Chars ''false''], pad 2,
      Node ''Contents'' [] [Node ''Key'' [] [Chars ''a''], Node ''LastModified'' [] [Chars ''t''],
        Node ''Size'' [] [Chars ''1'']],
      pad 2,
      Node ''Contents'' [] [Node ''Key'' [] [Chars ''b''], Node ''LastModified'' [] [Chars ''t''],
        Node ''Size'' [] [Chars ''2'']],
      pad 0]"

lemma aws_document:
  "AWS_WITH_DELIMITER = document (xml_header @ nl) (Node ''ListBucketResult'' s3_namespace aws_trees) []"
  "document_ok (xml_header @ nl) (Node ''ListBucketResult'' s3_namespace aws_trees) []"
  unfolding document_ok_def header_ok_def by code_simp+

lemma empty_document:
  "empty_xml = document (xml_header @ nl) (Node ''ListBucketResult'' s3_namespace empty_trees) []"
  "document_ok (xml_header @ nl) (Node ''ListBucketResult'' s3_namespace empty_trees) []"
  unfolding document_ok_def header_ok_def by code_simp+

lemma more_document:
  "more_xml = document (xml_header @ nl) (Node ''ListBucketResult'' s3_namespace more_trees) []"
  "document_ok (xml_header @ nl) (Node ''ListBucketResult'' s3_namespace more_trees) []"
  unfolding document_ok_def header_ok_def by code_simp+

lemma leftover_document:
  "leftover_xml = document [] (Node ''ListBucketResult'' [] leftover_trees) []"
  "document_ok [] (Node ''ListBucketResult'' [] leftover_trees) []"
  unfolding document_ok_def header_ok_def by code_simp+

lemma tokenless_document:
  "tokenless_xml = document [] (Node ''ListBucketResult'' [] tokenless_trees) []"
  "document_ok [] (Node ''ListBucketResult'' [] tokenless_trees) []"
  unfolding document_ok_def header_ok_def by code_simp+

lemma escaped_document:
  "escaped_xml = document [] (Node ''ListBucketResult'' [] escaped_trees) []"
  "document_ok [] (Node ''ListBucketResult'' [] escaped_trees) []"
  unfolding document_ok_def header_ok_def by code_simp+

lemma ceph_document:
  "ceph_xml = document (xml_header @ nl) (Node ''ListBucketResult'' s3_namespace ceph_trees) []"
  "document_ok (xml_header @ nl) (Node ''ListBucketResult'' s3_namespace ceph_trees) []"
  unfolding document_ok_def header_ok_def by code_simp+

lemma minio_document:
  "minio_xml = document xml_header (Node ''ListBucketResult'' s3_namespace minio_trees) []"
  "document_ok xml_header (Node ''ListBucketResult'' s3_namespace minio_trees) []"
  unfolding document_ok_def header_ok_def by code_simp+

lemma buried_document:
  "buried_xml = document [] (Node ''ListBucketResult'' [] buried_trees) []"
  "document_ok [] (Node ''ListBucketResult'' [] buried_trees) []"
  unfolding document_ok_def header_ok_def by code_simp+

lemma complete_document:
  "complete_xml = document [] (Node ''ListBucketResult'' [] complete_trees) []"
  "document_ok [] (Node ''ListBucketResult'' [] complete_trees) []"
  unfolding document_ok_def header_ok_def by code_simp+

text \<open>The elements of each answer.\<close>

lemma aws_elements:
  "page_elements aws_trees =
     [IsTruncated ''false'',
      Contents [(''Key'', ''photos/cover.jpg''), (''LastModified'', ''2024-07-01T12:34:56.000Z''), (''ETag'', quoted ''d41d8cd98f00b204e9800998ecf8427e''), (''Size'', ''1048576'')],
      CommonPrefixes [''photos/2023/''],
      CommonPrefixes [''photos/2024/'']]"
  by code_simp

lemma empty_elements:
  "page_elements empty_trees =
     [IsTruncated ''false'']"
  by code_simp

lemma more_elements:
  "page_elements more_trees =
     [IsTruncated ''true'',
      NextContinuationToken ''1ueGcxLPRx1Tr/XYExHnhbYLgveDs2J/wm36Hy4vbOwM='',
      Contents [(''Key'', ''a.bin''), (''LastModified'', ''2024-01-01T00:00:00.000Z''), (''Size'', ''1'')]]"
  by code_simp

lemma leftover_elements:
  "page_elements leftover_trees =
     [IsTruncated ''false'',
      NextContinuationToken ''leftover'']"
  by code_simp

lemma tokenless_elements:
  "page_elements tokenless_trees =
     [IsTruncated ''true'',
      Contents [(''Key'', ''a''), (''LastModified'', ''x''), (''Size'', ''0'')]]"
  by code_simp

lemma escaped_elements:
  "page_elements escaped_trees =
     [IsTruncated ''false'',
      Contents [(''Key'', ''reports/Q1 & Q2 <draft>.pdf''), (''LastModified'', ''2024-01-01T00:00:00.000Z''), (''Size'', ''7'')],
      CommonPrefixes [''a & b/'']]"
  by code_simp

lemma ceph_elements:
  "page_elements ceph_trees =
     [CommonPrefixes [''photos/2023/''],
      Contents [(''Key'', ''photos/a.jpg''), (''LastModified'', ''2024-07-01T12:34:56.000Z''), (''ETag'', quoted ''aaa''), (''Size'', ''10'')],
      CommonPrefixes [''photos/2024/''],
      Contents [(''Key'', ''photos/b.jpg''), (''LastModified'', ''2024-07-02T00:00:00.000Z''), (''Size'', ''20'')],
      IsTruncated ''false'']"
  by code_simp

lemma minio_elements:
  "page_elements minio_trees =
     [IsTruncated ''false'',
      Contents [(''Key'', ''x.bin''), (''LastModified'', ''2024-07-01T12:34:56.000Z''), (''ETag'', quoted ''e''), (''Size'', ''3'')]]"
  by code_simp

lemma buried_elements:
  "page_elements buried_trees =
     [IsTruncated ''false'',
      Contents [(''Key'', ''real-key''), (''LastModified'', ''2024-01-01T00:00:00.000Z''), (''Size'', ''5'')]]"
  by code_simp

lemma complete_elements:
  "page_elements complete_trees =
     [IsTruncated ''false'',
      Contents [(''Key'', ''a''), (''LastModified'', ''t''), (''Size'', ''1'')],
      Contents [(''Key'', ''b''), (''LastModified'', ''t''), (''Size'', ''2'')]]"
  by code_simp

lemma size_read: "dec_of_nat n = s \<Longrightarrow> n < 2 ^ 64 \<Longrightarrow> parse_u64 (trim s) = Some (of_nat n)"
  using parse_u64_dec [of n] by auto

lemma sizes_read:
  "parse_u64 (trim ''0'') = Some 0" "parse_u64 (trim ''1'') = Some 1" "parse_u64 (trim ''2'') = Some 2"
  "parse_u64 (trim ''3'') = Some 3" "parse_u64 (trim ''5'') = Some 5" "parse_u64 (trim ''7'') = Some 7"
  "parse_u64 (trim ''10'') = Some 10" "parse_u64 (trim ''20'') = Some 20"
  "parse_u64 (trim ''1048576'') = Some 1048576"
  using size_read [of 0] size_read [of 1] size_read [of 2] size_read [of 3] size_read [of 5] size_read [of 7]
    size_read [of 10] size_read [of 20] size_read [of 1048576]
  by (simp_all add: dec_of_nat.simps digit_chars)

lemma huge_not_read: "parse_u64 (trim ''huge'') = None"
proof -
  have "trim ''huge'' = ''huge''" "\<not> is_ascii_digit CHR ''h''" by code_simp+
  then show ?thesis by (simp add: parse_u64_def)
qed

lemmas page_eval =
  object_of_def fields_of_def set_field_def no_fields_def required_def sizes_read huge_not_read flag_texts
  empty_page_def page_of_def no_prefix_def truncated_without_token_def on_page_def is_err_def quoted_def

context document_reader
begin

lemma answer_read:
  assumes "body = document p (Node ''ListBucketResult'' a ts) q" "document_ok p (Node ''ListBucketResult'' a ts) q"
    and "page_elements ts = es"
  shows "parse_list_objects_v2 x body = Some (try_bind (add_elements es empty_page) page_of)"
  using listing_parsed [OF assms(2)] assms(1,3) by simp

lemmas answers_read =
  answer_read [OF aws_document aws_elements]
  answer_read [OF empty_document empty_elements]
  answer_read [OF more_document more_elements]
  answer_read [OF leftover_document leftover_elements]
  answer_read [OF tokenless_document tokenless_elements]
  answer_read [OF escaped_document escaped_elements]
  answer_read [OF ceph_document ceph_elements]
  answer_read [OF minio_document minio_elements]
  answer_read [OF buried_document buried_elements]
  answer_read [OF complete_document complete_elements]

lemma listing_tests_hold:
  "the_aws_example_reads_as_one_folder_level x" "a_common_prefix_is_a_full_prefix_not_a_suffix x"
  "an_empty_bucket_is_an_empty_page_not_an_error x" "a_truncated_page_hands_back_the_token_to_resume_from x"
  "a_token_without_truncation_is_not_a_next_page x" "truncated_with_no_token_is_an_error_not_a_last_page x"
  "an_escaped_key_is_unescaped x" "a_ceph_style_answer_reads_the_same_as_the_aws_one x"
  "a_minio_style_answer_survives_self_closing_elements x"
  "a_field_buried_in_a_skipped_subtree_is_not_the_objects_own x"
  unfolding the_aws_example_reads_as_one_folder_level_def a_common_prefix_is_a_full_prefix_not_a_suffix_def
    an_empty_bucket_is_an_empty_page_not_an_error_def a_truncated_page_hands_back_the_token_to_resume_from_def
    a_token_without_truncation_is_not_a_next_page_def truncated_with_no_token_is_an_error_not_a_last_page_def
    an_escaped_key_is_unescaped_def a_ceph_style_answer_reads_the_same_as_the_aws_one_def
    a_minio_style_answer_survives_self_closing_elements_def
    a_field_buried_in_a_skipped_subtree_is_not_the_objects_own_def answers_read
  by (simp_all add: page_eval suffix_def)

lemma refused_body: "\<not> is_safe_to_read body \<Longrightarrow> is_err (parse_list_objects_v2 x body)"
  by (simp add: parse_list_objects_v2_def open_walker_def is_err_def)

lemma no_listing: "\<nexists>w. open_walker x body ''ListBucketResult'' = Inr (Some w) \<Longrightarrow> is_err (parse_list_objects_v2 x body)"
  by (auto simp: parse_list_objects_v2_def is_err_def split: sum.split option.split)

lemma self_closing_test_holds: "a_self_closing_root_is_an_empty_page x"
proof -
  let ?n = "''ListBucketResult''"
  have ok: "document_ok [] (Leaf ?n []) nl" unfolding document_ok_def header_ok_def by code_simp
  have body: "document [] (Leaf ?n []) nl = ''<ListBucketResult/>'' @ nl" by (simp add: document_def)
  obtain r where "open_walker x (''<ListBucketResult/>'' @ nl) ?n
      = Inr (Some \<lparr>walker_reader = r, walker_root = tag_at ?n (''<'' @ ?n @ [] @ ''/>'') base (length ([] :: bytes))\<rparr>)"
    using walker_opens_leaf [OF ok] unfolding body by blast
  moreover have "read_page x empty_page \<lparr>walker_reader = r, walker_root = tag_at ?n (''<'' @ ?n @ [] @ ''/>'') base (length ([] :: bytes))\<rparr>
      = Some (Inr empty_page)"
    using self_closing [of ?n "[]" base "length ([] :: bytes)"] by (subst read_page.simps) (simp add: next_child_def)
  ultimately show ?thesis
    unfolding a_self_closing_root_is_an_empty_page_def
    by (simp add: parse_list_objects_v2_def on_page_def page_of_def empty_page_def)
qed

lemma cut_test_holds: "a_listing_cut_short_is_an_error_not_a_shorter_page x"
proof -
  have at: "find_at complete_xml ''<Contents><Key>b'' = Some 136" by code_simp
  have "\<not> is_safe_to_read (take 136 complete_xml)" by code_simp
  then show ?thesis
    unfolding a_listing_cut_short_is_an_error_not_a_shorter_page_def at option.case answers_read
    by (simp add: refused_body) (simp add: page_eval)
qed

text \<open>A closing tag of another name: the reader's error is passed on.\<close>

lemma mismatched_tag: "is_err (parse_list_objects_v2 x ''<ListBucketResult><Contents></Wrong></ListBucketResult>'')"
proof -
  let ?n = "''ListBucketResult''" and ?body = "''<ListBucketResult><Contents></Wrong></ListBucketResult>''"
  let ?g = "tag_at ''Contents'' ''<Contents>'' (Suc base) 18" and ?root = "tag_at ?n ''<ListBucketResult>'' base 0"
  have safe: "is_safe_to_read ?body" by code_simp
  have toks: "tokens 0 base ?body = OpenTag ?root # OpenTag ?g
      # CloseTag (tag_at ''Wrong'' ''</Wrong>'' (Suc base) 28) # [CloseTag (tag_at ?n ''</ListBucketResult>'' base 36)]"
  proof -
    have "tokens 0 base (''<'' @ ?n @ [] @ ''>'' @ ''<'' @ ''Contents'' @ [] @ ''>''
        @ ''</'' @ ''Wrong'' @ ''>'' @ ''</'' @ ?n @ ''>'' @ []) =
      OpenTag (tag_at ?n (''<'' @ ?n @ [] @ ''>'') base 0)
        # OpenTag (tag_at ''Contents'' (''<'' @ ''Contents'' @ [] @ ''>'') (Suc base) 18)
        # CloseTag (tag_at ''Wrong'' (''</'' @ ''Wrong'' @ ''>'') (Suc base) 28)
        # [CloseTag (tag_at ?n (''</'' @ ?n @ ''>'') base 36)]"
    proof -
      have names: "name_ok ?n" "name_ok ''Contents''" "name_ok ''Wrong''" "attrs_ok []" by code_simp+
      show ?thesis
        unfolding tokens_open [OF names(1,4)] tokens_open [OF names(2,4)] tokens_close [OF names(3)] tokens_close [OF names(1)]
        by (simp add: tokens_none next_tag_None eval_nat_numeral)
    qed
    then show ?thesis by simp
  qed
  obtain r where r: "from_slice x ?body = Inr r" "view r = (?body, [], tokens 0 base ?body)"
    using starts [OF safe] toks by (cases "from_slice x ?body") simp_all
  have "split_on CHR ''/'' ?n = [?n]" by code_simp
  then have "cur_open (split_on CHR ''/'' ?n) [] (tokens 0 base ?body) = Gives ?root [?n] (tl (tokens 0 base ?body))"
    unfolding toks by (simp add: tag_at_def)
  from found_node [OF r(2) this] obtain r1 where o: "find_the_open_node x ?n r = (Inr (Some ?root), r1)"
    "view r1 = (?body, [?n], tl (tokens 0 base ?body))" by blast
  have plain: "\<not> is_self_closing ?root" "\<not> is_self_closing ?g" by (simp_all add: is_self_closing_def tag_at_def suffix_def)
  have "cur_find False (tag_level ?root) PAGE_ELEMENTS [?n] (tl (tokens 0 base ?body))
      = Gives (Some ?g) [''Contents'', ?n] (tl (tl (tokens 0 base ?body)))"
    unfolding toks by (simp add: tag_at_def PAGE_ELEMENTS_def)
  with direct_child [OF o(2), of ?root PAGE_ELEMENTS] obtain r2 where
    c: "next_direct_child x ?root PAGE_ELEMENTS r1 = Some (Inr (Some ?g), r2)"
    "view r2 = (?body, [''Contents'', ?n], tl (tl (tokens 0 base ?body)))" by auto
  have "cur_find False (tag_level ?g) OBJECT_ELEMENTS [''Contents'', ?n] (tl (tl (tokens 0 base ?body))) = Fails"
    unfolding toks by (simp add: tag_at_def)
  with direct_child [OF c(2), of ?g OBJECT_ELEMENTS] obtain e r3 where
    f: "next_direct_child x ?g OBJECT_ELEMENTS r2 = Some (Inl e, r3)" by auto
  let ?w = "\<lparr>walker_reader = r1, walker_root = ?root\<rparr>"
  have "read_fields x ?g no_fields (?w\<lparr>walker_reader := r2\<rparr>) = Some (Inl (malformed e), ?w\<lparr>walker_reader := r3\<rparr>)"
    using f plain(2) by (subst read_fields.simps) (simp add: next_child_of_def)
  then have "read_element x ?g empty_page (?w\<lparr>walker_reader := r2\<rparr>) = Some (Inl (malformed e), ?w\<lparr>walker_reader := r3\<rparr>)"
    by (simp add: read_element_def read_object_def tag_at_def)
  then have "read_page x empty_page ?w = Some (Inl (malformed e))"
    using c(1) plain(1) by (subst read_page.simps) (simp add: next_child_def)
  then show ?thesis
    using r(1) o(1) safe by (simp add: parse_list_objects_v2_def open_walker_def is_err_def)
qed

lemma mangled_test_holds: "a_mangled_body_is_an_error_not_a_panic x"
proof -
  have "list_all (\<lambda>body. \<not> is_safe_to_read body)
      [''<ListBucketResult><Contents><Key>half'', ''</ListBucketResult>'', ''</div><ListBucketResult></ListBucketResult>'',
       ''<ListBucketResult><Contents><Key>'' @ [CHR 0xFF, CHR 0xFE] @ ''</Key></Contents></ListBucketResult>'']"
    by code_simp
  then have refused: "list_all (\<lambda>body. is_err (parse_list_objects_v2 x body))
      [''<ListBucketResult><Contents><Key>half'', ''</ListBucketResult>'', ''</div><ListBucketResult></ListBucketResult>'',
       ''<ListBucketResult><Contents><Key>'' @ [CHR 0xFF, CHR 0xFE] @ ''</Key></Contents></ListBucketResult>'']"
    by (rule list.pred_mono_strong) (rule refused_body)
  have plain: "is_err (parse_list_objects_v2 x [])" "is_err (parse_list_objects_v2 x ''502 Bad Gateway'')"
    by (rule no_listing, rule no_tags_text, simp)+
  let ?html = "Node ''html'' [] [Node ''body'' [] [Chars ''nope'']]"
  let ?error = "Node ''Error'' [] [Node ''Code'' [] [Chars ''AccessDenied'']]"
  have docs: "document_ok [] ?html []" "document_ok [] ?error []" unfolding document_ok_def header_ok_def by code_simp+
  have "is_err (parse_list_objects_v2 x (document [] ?html []))" "is_err (parse_list_objects_v2 x (document [] ?error []))"
    by (rule no_listing, rule walker_not_this_root [OF docs(1)], simp_all add: names_ok)
      (rule no_listing, rule walker_not_this_root [OF docs(2)], simp_all add: names_ok)
  then have others: "is_err (parse_list_objects_v2 x ''<html><body>nope</body></html>'')"
    "is_err (parse_list_objects_v2 x ''<Error><Code>AccessDenied</Code></Error>'')"
    by (simp_all add: document_def)
  have listings: "is_err (parse_list_objects_v2 x (document [] (Node ''ListBucketResult'' [] ts) []))"
    if "document_ok [] (Node ''ListBucketResult'' [] ts) []" "page_elements ts = es" "isl (add_elements es empty_page)" for ts es
    using answer_read [OF refl that(1,2)] that(3) by (cases "add_elements es empty_page") (simp_all add: is_err_def)
  let ?no_key = "[Node ''Contents'' [] [Node ''Size'' [] [Chars ''1'']]]"
  let ?huge = "[Node ''Contents'' [] [Node ''Key'' [] [Chars ''a''], Node ''LastModified'' [] [Chars ''x''],
    Node ''Size'' [] [Chars ''huge'']]]"
  let ?no_prefix = "[Node ''CommonPrefixes'' [] []]"
  have ok: "document_ok [] (Node ''ListBucketResult'' [] ?no_key) []" "document_ok [] (Node ''ListBucketResult'' [] ?huge) []"
    "document_ok [] (Node ''ListBucketResult'' [] ?no_prefix) []"
    unfolding document_ok_def header_ok_def by code_simp+
  have es: "page_elements ?no_key = [Contents [(''Size'', ''1'')]]"
    "page_elements ?huge = [Contents [(''Key'', ''a''), (''LastModified'', ''x''), (''Size'', ''huge'')]]"
    "page_elements ?no_prefix = [CommonPrefixes []]"
    by code_simp+
  have "is_err (parse_list_objects_v2 x ''<ListBucketResult><Contents><Size>1</Size></Contents></ListBucketResult>'')"
    using listings [OF ok(1) es(1)] by (simp add: document_def page_eval)
  moreover have "is_err (parse_list_objects_v2 x ''<ListBucketResult><Contents><Key>a</Key><LastModified>x</LastModified><Size>huge</Size></Contents></ListBucketResult>'')"
    using listings [OF ok(2) es(2)] by (simp add: document_def page_eval)
  moreover have "is_err (parse_list_objects_v2 x ''<ListBucketResult><CommonPrefixes></CommonPrefixes></ListBucketResult>'')"
    using listings [OF ok(3) es(3)] by (simp add: document_def)
  ultimately show ?thesis
    using refused plain others mismatched_tag unfolding a_mangled_body_is_an_error_not_a_panic_def by simp
qed

end

section \<open>Properties\<close>

text \<open>
  C40: the unit tests of the crate pass on the model: every assertion of every test that does not
  pin SHA-256 itself, for every reader that keeps the contract, every RFC 3339 text of the clock
  and every text of a panic.
\<close>

theorem unit_tests_hold:
  assumes "document_reader x view base" and "rfc3339 now"
  shows "list_all (\<lambda>passes. passes)
     [amz_timestamp_is_compact_iso8601_utc now,
      no_query_canonicalises_to_empty_string,
      valueless_param_gets_an_equals_sign,
      upload_part_query_is_sorted_by_name,
      already_encoded_values_are_not_touched,
      only_the_unreserved_set_survives_uri_encoding,
      a_space_is_percent_20_and_never_a_plus,
      a_folder_prefix_is_encoded_the_way_sigv4_reads_it,
      a_continuation_token_survives_its_base64_punctuation,
      non_ascii_is_encoded_byte_wise_in_uppercase_hex,
      an_encoded_value_can_not_forge_a_query_separator,
      a_none_parameter_is_not_sent,
      parameters_are_joined_with_a_single_ampersand,
      a_hand_built_query_canonicalises_by_sorting_alone,
      sort_is_by_name_then_value_not_by_joined_pair,
      every_known_region_round_trips,
      an_unknown_region_is_carried_verbatim,
      parsing_does_not_normalise,
      conversions_agree_with_from_str,
      us_east_1_is_recognised_however_it_was_built,
      an_unconfigured_region_is_empty,
      an_upload_task_that_panics_is_not_blamed_on_the_writer why,
      an_upload_task_that_panics_is_not_blamed_on_a_body_that_ended_short why,
      a_body_ended_short_is_the_writers_failure_even_if_the_upload_failed,
      an_upload_that_fails_under_a_live_writer_keeps_its_own_error,
      reads_the_error_code x,
      reads_the_upload_id x,
      missing_node_is_none_not_a_panic x,
      non_xml_body_is_none_not_a_panic x,
      invalid_utf8_is_none_not_undefined_behaviour x,
      empty_node_reads_as_empty_string x,
      a_stray_closing_tag_is_none_not_an_abort x,
      well_formed_documents_are_still_readable,
      a_document_that_was_cut_short_is_refused,
      predefined_entities_are_decoded,
      delete_returns_204_which_is_a_success,
      a_regional_bucket_states_where_it_goes,
      us_east_1_is_stated_by_sending_nothing,
      a_non_aws_region_is_passed_through_verbatim,
      a_regional_bucket_reports_its_region x,
      an_unknown_region_survives_the_round_trip x,
      an_empty_constraint_is_us_east_1_in_either_spelling x,
      a_body_that_is_not_a_location_is_an_error_not_a_default x,
      a_failed_answer_is_traced_in_full_a_successful_one_by_size,
      an_unread_body_says_so,
      a_204_is_traced_as_the_success_it_is,
      detect_bucket_exists_error x,
      detect_bucket_already_owned_by_you x,
      detect_no_such_key x,
      detect_no_such_bucket_is_not_reported_as_a_missing_key x,
      bare_404_falls_back_to_key_not_found x,
      unknown_error_code_keeps_the_status_and_the_code x,
      server_side_failures_are_retryable x,
      slow_down_is_retryable_whatever_the_status x,
      display_keeps_the_historical_status_code_shape x,
      the_aws_example_reads_as_one_folder_level x,
      a_common_prefix_is_a_full_prefix_not_a_suffix x,
      an_empty_bucket_is_an_empty_page_not_an_error x,
      a_truncated_page_hands_back_the_token_to_resume_from x,
      a_token_without_truncation_is_not_a_next_page x,
      truncated_with_no_token_is_an_error_not_a_last_page x,
      an_escaped_key_is_unescaped x,
      a_ceph_style_answer_reads_the_same_as_the_aws_one x,
      a_minio_style_answer_survives_self_closing_elements x,
      a_self_closing_root_is_an_empty_page x,
      a_field_buried_in_a_skipped_subtree_is_not_the_objects_own x,
      a_listing_cut_short_is_an_error_not_a_shorter_page x,
      a_mangled_body_is_an_error_not_a_panic x]"
  using timestamp_test_holds [OF assms(2)] document_reader.xml_tests_hold [OF assms(1)]
    document_reader.error_tests_hold [OF assms(1)] document_reader.location_tests_hold [OF assms(1)]
    document_reader.listing_tests_hold [OF assms(1)] document_reader.self_closing_test_holds [OF assms(1)]
    document_reader.cut_test_holds [OF assms(1)] document_reader.mangled_test_holds [OF assms(1)]
  by (simp add: utils_tests_hold region_tests_hold handle_tests_hold guard_tests_hold client_tests_hold)

theorem unit_tests_hold_witness:
  "amz_timestamp_is_compact_iso8601_utc ''2024-01-02T03:04:05.678901+00:00''
   \<and> the_aws_example_reads_as_one_folder_level cursor_reader"
proof -
  have "list_all is_ascii_digit (''2024'' @ ''01'' @ ''02'' @ ''03'' @ ''04'' @ ''05'')" by code_simp
  then have "rfc3339 (''2024'' @ ''-'' @ ''01'' @ ''-'' @ ''02'' @ ''T'' @ ''03'' @ '':'' @ ''04'' @ '':'' @ ''05''
      @ ''.678901+00:00'')"
    unfolding rfc3339_def by (intro exI conjI) (rule refl | simp)+
  from unit_tests_hold [OF plain_cursor.document_reader_axioms this] show ?thesis by simp
qed

end
