(* ===== verification/Signed_Requests.thy ===== *)
theory Signed_Requests
  imports Client_Calls Fake_S3
begin

text \<open>
  The client's signature (\<^verbatim>\<open>src/utils.rs\<close>) against the check the test server does with code of
  its own (\<^verbatim>\<open>verify_signature\<close> of \<^verbatim>\<open>tests/fake_s3/mod.rs\<close>): what the server takes apart is what the
  client put together, so every request that arrives as it was sent is found valid.
\<close>

section \<open>Encoding and decoding\<close>

lemma fs_uri_encode_eq: "fs_uri_encode s = uri_encode s"
  unfolding fs_uri_encode_def uri_encode_def uri_encode_byte_def [abs_def] unreserved_def hex_digit_def ..

lemma from_str_radix_16_digits:
  assumes "x < 16" "y < 16"
  shows "from_str_radix_16 256 [hex_digit x, hex_digit y] = Some (16 * x + y)"
proof -
  have "\<not> unreserved CHR ''+''" by code_simp
  then have "hex_digit x \<noteq> CHR ''+''" using hex_digit_cases(2) [OF assms(1)] by metis
  then show ?thesis using assms by (simp add: from_str_radix_16_def hex_digit_cases)
qed

lemma fs_percent_decode_plain: "b \<noteq> CHR ''%'' \<Longrightarrow> fs_percent_decode (b # bs) = b # fs_percent_decode bs"
  by (cases bs; cases "tl bs") auto

lemma fs_percent_decode_byte: "fs_percent_decode (uri_encode_byte b @ rest) = b # fs_percent_decode rest"
proof (cases "unreserved b")
  case True
  then have "b \<noteq> CHR ''%''" by auto
  then show ?thesis using True by (simp add: uri_encode_byte_def fs_percent_decode_plain)
next
  case False
  then show ?thesis
    using from_str_radix_16_digits [of "byte_val b div 16" "byte_val b mod 16"] by (simp add: uri_encode_byte_def nibbles)
qed

interpretation server_codec: codec uri_encode fs_percent_decode "\<lambda>_. True"
proof
  fix a :: bytes
  show "fs_percent_decode (uri_encode a) = a"
    by (induction a) (simp_all add: uri_encode_def fs_percent_decode_byte)
qed

lemma reencoded: "rfc3986_encoded s \<Longrightarrow> fs_uri_encode (fs_percent_decode s) = s"
  unfolding rfc3986_encoded_def fs_uri_encode_eq by (metis server_codec.dec_enc)

text \<open>The server's canonical query is the client's, for a query in RFC 3986 form.\<close>

lemma fs_canonical_query_eq:
  assumes "encoded_query (Some q)"
  shows "fs_canonical_query q = canonical_query_string (Some q)"
proof -
  let ?f = "\<lambda>p. case split_once CHR ''='' p of
      Some (name, value) \<Rightarrow> (fs_uri_encode (fs_percent_decode name), fs_uri_encode (fs_percent_decode value))
    | None \<Rightarrow> (fs_uri_encode (fs_percent_decode p), [])"
  have "?f p = query_pair p" if "p \<in> set (filter (\<lambda>p. p \<noteq> []) (split_on CHR ''&'' q))" for p
  proof -
    have "query_pair p \<in> set (query_pairs q)" using that by (simp add: query_pairs_def)
    then have "rfc3986_encoded (fst (query_pair p))" "rfc3986_encoded (snd (query_pair p))"
      using assms by (simp_all add: encoded_query_def list_all_iff)
    then show ?thesis by (cases "split_once CHR ''='' p") (auto simp: query_pair_def reencoded)
  qed
  then have "map ?f (filter (\<lambda>p. p \<noteq> []) (split_on CHR ''&'' q)) = query_pairs q"
    unfolding query_pairs_def by (rule map_cong [OF refl])
  then show ?thesis
    unfolding fs_canonical_query_def canonical_query_string_def join_pairs_def Let_def by simp
qed

text \<open>
  The test of the server itself in \<^verbatim>\<open>tests/integration.rs\<close>: it does not take the query as it
  comes, so it would notice a client that encodes a space as \<open>+\<close>.
\<close>

definition the_fake_server_canonicalises_a_query_the_way_a_real_one_does :: bool where
  "the_fake_server_canonicalises_a_query_the_way_a_real_one_does \<longleftrightarrow>
     fs_canonical_query ''prefix=a+b'' \<noteq> fs_canonical_query ''prefix=a%20b''
     \<and> fs_canonical_query ''prefix=a+b'' = ''prefix=a%2Bb''
     \<and> fs_canonical_query ''prefix=a%20b'' = ''prefix=a%20b''
     \<and> fs_canonical_query ''k=a!b'' = ''k=a%21b''
     \<and> fs_canonical_query ''k=a~b'' = ''k=a~b''
     \<and> fs_canonical_query ''b=2&a=1'' = ''a=1&b=2''
     \<and> fs_canonical_query ''location'' = ''location=''
     \<and> fs_canonical_query [] = []
     \<and> (let ours = ''continuation-token=1ueGcxLPRx1Tr%2FXYExHnhbYLgveDs2J%2Fwm36Hy4vbOwM%3D''
                     @ ''&delimiter=%2F&list-type=2&prefix=photos%2F2024%20summer%2F''
        in fs_canonical_query ours = ours)"

lemma server_test_holds: "the_fake_server_canonicalises_a_query_the_way_a_real_one_does"
  by code_simp

text \<open>An escape with a sign is not one of RFC 3986, but \<open>from_str_radix\<close> takes it.\<close>

lemma signed_escape_is_decoded: "fs_percent_decode ''%+5'' = [CHR 0x05]" "percent_decode ''%+5'' = ''%+5''"
  by code_simp+

section \<open>Taking the header apart\<close>

text \<open>Looking for a pattern by its last character, when that occurs nowhere else in it.\<close>

lemma find_subslice_none: "c \<notin> set s \<Longrightarrow> find_subslice s (n @ [c]) = None"
  by (induction s) (auto dest: set_mono_prefix)

lemma prefix_up_to:
  assumes "c \<notin> set n" "c \<notin> set x"
  shows "prefix (n @ [c]) (x @ c # r) \<longleftrightarrow> x = n"
  using assms by (induction n arbitrary: x) (case_tac x; auto)+

lemma find_subslice_at:
  assumes "c \<notin> set n" "c \<notin> set x"
  shows "find_subslice (x @ c # r) (n @ [c]) =
    (if suffix n x then Some (length x - length n)
     else map_option (\<lambda>i. Suc (length x + i)) (find_subslice r (n @ [c])))"
  using assms(2)
proof (induction x)
  case Nil
  then show ?case using prefix_up_to [OF assms(1), of "[]" r] by (auto simp: suffix_def)
next
  case (Cons a x)
  then have "prefix (n @ [c]) ((a # x) @ c # r) \<longleftrightarrow> a # x = n" using prefix_up_to [OF assms(1)] by blast
  then show ?case
    using Cons
    by (auto simp: suffix_Cons option.map_comp o_def Suc_diff_le suffix_length_le dest: suffix_length_le)
qed

lemma drop_behind: "s = a @ b \<Longrightarrow> n = length a \<Longrightarrow> drop n s = b"
  by simp

lemma second_pieceI:
  assumes "find_subslice s pat = Some i" "drop (i + length pat) s = tail" "find_subslice tail pat = None"
  shows "second_piece pat s = Some tail"
  by (simp only: second_piece_def assms option.case Let_def)

definition no_separator :: "bytes \<Rightarrow> bool" where
  "no_separator t \<longleftrightarrow> list_all (\<lambda>c. c \<notin> set ''/,='') t"

lemma no_separator_chars:
  assumes "no_separator t"
  shows "CHR ''/'' \<notin> set t" "CHR '','' \<notin> set t" "CHR ''='' \<notin> set t"
  using assms by (auto simp: no_separator_def list_all_iff)

definition hex_text :: "crypto \<Rightarrow> bool" where
  "hex_text cr \<longleftrightarrow> (\<forall>b. list_all (\<lambda>c. visible c \<and> c \<notin> set ''/,='') (hex_encode cr b))"

lemma hex_text_props:
  assumes "hex_text cr"
  shows "CHR ''='' \<notin> set (hex_encode cr b)" "trim (hex_encode cr b) = hex_encode cr b"
proof -
  have h: "c \<in> set (hex_encode cr b) \<Longrightarrow> visible c \<and> c \<notin> set ''/,=''" for c
    using assms by (auto simp: hex_text_def list_all_iff)
  from h [of "CHR ''=''"] show "CHR ''='' \<notin> set (hex_encode cr b)" by auto
  show "trim (hex_encode cr b) = hex_encode cr b" by (rule trim_visible) (use h in simp)
qed

text \<open>The credential, the signed headers and the signature of an \<open>Authorization\<close> header.\<close>

definition auth_text :: "bytes \<Rightarrow> bytes \<Rightarrow> bytes" where
  "auth_text credential signature =
     ''AWS4-HMAC-SHA256 Credential='' @ credential
     @ '',SignedHeaders=host;x-amz-content-sha256;x-amz-date,Signature='' @ signature"

lemma auth_text_signature:
  assumes "CHR ''='' \<notin> set credential" "CHR ''='' \<notin> set signature"
  shows "second_piece ''Signature='' (auth_text credential signature) = Some signature"
proof -
  let ?x = "''AWS4-HMAC-SHA256 Credential''"
  let ?y = "credential @ '',SignedHeaders''"
  let ?z = "''host;x-amz-content-sha256;x-amz-date,Signature''"
  have auth: "auth_text credential signature = ?x @ CHR ''='' # (?y @ CHR ''='' # (?z @ CHR ''='' # signature))"
    by (simp add: auth_text_def)
  have suf: "\<not> suffix ''Signature'' ?x" "suffix ''Signature'' ?z" by code_simp+
  have "\<not> suffix ''Signature'' ?y" by (auto simp: suffix_def dest: arg_cong [of _ _ last])
  then have "find_subslice (auth_text credential signature) (''Signature'' @ ''='')
      = Some (length ?x + length ?y + length ?z - 9 + 2)"
    unfolding auth using assms(1) suf
    by (subst find_subslice_at, simp, simp, subst find_subslice_at, simp, simp, subst find_subslice_at) simp_all
  then have "find_subslice (auth_text credential signature) ''Signature=''
      = Some (length ?x + length ?y + length ?z - 9 + 2)" by simp
  moreover have "drop (length ?x + length ?y + length ?z - 9 + 2 + length ''Signature='') (auth_text credential signature) = signature"
    by (rule drop_behind [of _ "?x @ ''='' @ ?y @ ''='' @ ?z @ ''=''"]) (simp_all add: auth)
  moreover have "find_subslice signature ''Signature='' = None"
    using find_subslice_none [OF assms(2), of "''Signature''"] by simp
  ultimately show ?thesis by (rule second_pieceI)
qed

lemma auth_text_region:
  assumes "no_separator ak" "no_separator date" "no_separator reg" "CHR ''='' \<notin> set signature"
  shows "scope_region (auth_text (ak @ ''/'' @ date @ ''/'' @ reg @ ''/s3/aws4_request'') signature) = Some reg"
proof -
  let ?c = "ak @ ''/'' @ date @ ''/'' @ reg @ ''/s3/aws4_request''"
  let ?t = "'',SignedHeaders=host;x-amz-content-sha256;x-amz-date,Signature='' @ signature"
  let ?x = "''AWS4-HMAC-SHA256 Credential''"
  have "suffix ''Credential'' ?x" by code_simp
  then have "find_subslice (?x @ CHR ''='' # (?c @ ?t)) (''Credential'' @ ''='') = Some (length ?x - 10)"
    by (subst find_subslice_at) simp_all
  then have "find_subslice (auth_text ?c signature) ''Credential='' = Some (length ?x - 10)"
    by (simp add: auth_text_def)
  moreover have "drop (length ?x - 10 + length ''Credential='') (auth_text ?c signature) = ?c @ ?t"
    by (rule drop_behind [of _ "?x @ ''=''"]) (simp_all add: auth_text_def)
  moreover have "find_subslice (?c @ ?t) ''Credential='' = None"
  proof -
    let ?y = "?c @ '',SignedHeaders''"
    let ?z = "''host;x-amz-content-sha256;x-amz-date,Signature''"
    have "\<not> suffix ''Credential'' ?y" "\<not> suffix ''Credential'' ?z"
      by (auto simp: suffix_def dest: arg_cong [of _ _ last])
    then have "find_subslice (?y @ CHR ''='' # (?z @ CHR ''='' # signature)) (''Credential'' @ ''='') = None"
      using no_separator_chars assms
      by (subst find_subslice_at, simp, simp, subst find_subslice_at) (simp_all add: find_subslice_none [of _ _ "''Credential''", simplified])
    then show ?thesis by simp
  qed
  ultimately have "second_piece ''Credential='' (auth_text ?c signature) = Some (?c @ ?t)"
    by (rule second_pieceI)
  moreover have "hd (split_on CHR '','' (?c @ ?t)) = ?c"
    using split_on_append [of "CHR '',''" ?c "tl ?t"] no_separator_chars assms by simp
  moreover have "split_on CHR ''/'' ?c = [ak, date, reg, ''s3'', ''aws4_request'']"
    using no_separator_chars assms by (simp add: split_on_append split_on_no_sep)
  ultimately show ?thesis by (simp add: scope_region_def)
qed

section \<open>The check\<close>

lemma signing_key_eq: "derive_signing_key cr secret date reg service = get_signature_key cr secret date reg service"
  by (simp add: derive_signing_key_def get_signature_key_def Let_def)

text \<open>The target of a request on the wire.\<close>

definition wire_target :: "url_builder \<Rightarrow> bytes" where
  "wire_target b = url_path b @ (case url_query b of None \<Rightarrow> [] | Some q \<Rightarrow> ''?'' @ q)"

lemma wire_target_split:
  assumes "CHR ''?'' \<notin> set (url_path b)"
  shows "split_once CHR ''?'' (wire_target b) = map_option (\<lambda>q. (url_path b, q)) (url_query b)"
    and "path_of (wire_target b) = url_path b"
  using assms split_once_none [of "CHR ''?''" "url_path b"]
  by (auto simp: wire_target_def path_of_def split_once_append split: option.split)

lemma server_query_eq:
  assumes "encoded_query query"
  shows "fs_canonical_query (case query of Some q \<Rightarrow> q | None \<Rightarrow> []) = canonical_query_string query"
  using assms by (cases query) (simp_all add: fs_canonical_query_eq, simp_all add: canonical_query_string_def fs_canonical_query_def)

text \<open>The check does not panic on a date the client sends.\<close>

lemma date_of_timestamp:
  assumes "rfc3339 now"
  shows "date_of (get_amz_timestamp now) = Some (take 8 (get_amz_timestamp now))"
proof -
  obtain date time where "get_amz_timestamp now = date @ ''T'' @ time @ ''Z''" "length date = 8"
    using rfc3339_timestamp [OF assms] by blast
  then show ?thesis by (simp add: date_of_def nth_append is_cont_def in_range_def)
qed

lemma verify_defined:
  assumes "rfc3339 now" "header_in hs ''x-amz-date'' = Some (get_amz_timestamp now)"
  shows "\<exists>valid. verify_signature cr meth target hs body = Some valid"
  using date_of_timestamp [OF assms(1)] assms(2)
  by (auto simp: verify_signature_def Let_def split: option.split prod.split)

lemma signature_verifies:
  assumes "secret_key s3 = SECRET_KEY" "no_separator (access_key s3)" "no_separator (as_str (region s3))"
    and "hex_text cr" and "rfc3339 now"
    and "CHR ''?'' \<notin> set (url_path b)" "encoded_query (url_query b)"
    and "hash = ''UNSIGNED-PAYLOAD'' \<or> hash = hex_encode cr (sha256 cr body)"
    and "header_in hs ''host'' = Some (host_port b)" "header_in hs ''x-amz-content-sha256'' = Some hash"
    and "header_in hs ''x-amz-date'' = Some (get_amz_timestamp now)"
    and "header_in hs ''authorization'' = Some (authorization cr s3 (get_amz_timestamp now)
      (canonical_request meth (url_path b) (canonical_query_string (url_query b)) (host_port b) hash
        (get_amz_timestamp now)))"
  shows "verify_signature cr meth (wire_target b) hs body = Some True"
proof -
  let ?ts = "get_amz_timestamp now"
  let ?date = "take 8 ?ts"
  let ?reg = "as_str (region s3)"
  let ?canonical = "canonical_request meth (url_path b) (canonical_query_string (url_query b)) (host_port b) hash ?ts"
  define signature where "signature = hex_encode cr (hmac_sha256 cr
      (get_signature_key cr (secret_key s3) ?date ?reg ''s3'')
      (''AWS4-HMAC-SHA256'' @ nl @ ?ts @ nl @ (?date @ ''/'' @ ?reg @ ''/s3/aws4_request'') @ nl
        @ hex_encode cr (sha256 cr ?canonical)))"
  let ?credential = "access_key s3 @ ''/'' @ ?date @ ''/'' @ ?reg @ ''/s3/aws4_request''"
  obtain date time where ts: "?ts = date @ ''T'' @ time @ ''Z''" "length date = 8" "list_all is_ascii_digit (date @ time)"
    using rfc3339_timestamp [OF assms(5)] by blast
  have "\<forall>c\<in>set ''/,=''. \<not> is_ascii_digit c" by code_simp
  moreover have date: "?date = date" using ts by simp
  ultimately have nd: "no_separator ?date" using ts(3) by (auto simp: no_separator_def list_all_iff)
  have sg: "CHR ''='' \<notin> set signature" "trim signature = signature"
    unfolding signature_def by (simp_all only: hex_text_props [OF assms(4)] not_False_eq_True)
  have auth: "authorization cr s3 ?ts ?canonical = auth_text ?credential signature"
    by (simp add: authorization_def auth_text_def signature_def Let_def)
  have ce: "CHR ''='' \<notin> set ?credential"
    using assms(2,3) nd by (simp add: no_separator_chars)
  have pieces: "second_piece ''Signature='' (authorization cr s3 ?ts ?canonical) = Some signature"
    "scope_region (authorization cr s3 ?ts ?canonical) = Some ?reg"
    unfolding auth by (rule auth_text_signature [OF ce sg(1)], rule auth_text_region [OF assms(2) nd assms(3) sg(1)])
  have d: "date_of ?ts = Some ?date" using assms(5) by (rule date_of_timestamp)
  have c: "fs_canonical_request meth (url_path b) (fs_canonical_query (case url_query b of Some q \<Rightarrow> q | None \<Rightarrow> []))
      (host_port b) hash ?ts = ?canonical"
    by (simp add: fs_canonical_request_def canonical_request_def server_query_eq [OF assms(7)])
  have sp: "(case split_once CHR ''?'' (wire_target b) of
        Some (path, query) \<Rightarrow> (path, Some query) | None \<Rightarrow> (wire_target b, None)) = (url_path b, url_query b)"
    unfolding wire_target_split(1) [OF assms(6)] by (cases "url_query b") (simp_all add: wire_target_def)
  have guard: "(hash \<noteq> ''UNSIGNED-PAYLOAD'' \<and> hex_encode cr (sha256 cr body) \<noteq> hash) = False"
    using assms(8) by blast
  show ?thesis
    unfolding verify_signature_def assms(9-12) prod.case option.case guard if_False pieces sp Let_def c d option.map sg(2)
    by (simp only: signing_key_eq assms(1) signature_def simp_thms)
qed

end
