(* ===== verification/Fake_S3_Client.thy ===== *)
theory Fake_S3_Client
  imports Signed_Requests
begin

text \<open>
  The client of \<^verbatim>\<open>src/s3_client.rs\<close> against the storage of \<^verbatim>\<open>tests/fake_s3/mod.rs\<close>, as in the
  crate's integration tests.

  Between the two is the HTTP client. What it does is stated as three locales, each on top of
  the one before: \<open>url_contract\<close>, how urls are built and which headers they carry;
  \<open>fake_wire\<close>, that a request arrives as it was built and the answer comes back as it was
  written; \<open>trusted_client\<close>, that the client has the server's secret and a clock. They are
  interpreted on a transport that hands requests over without a socket (\<open>fake_env\<close>).

  Shown: every complete request, of any sequence of calls, passes the server's own check of
  its signature; an upload that is \<open>Ok\<close> is stored under its key with its very bytes and one
  that is refused stores nothing; ranges and sizes of an object the server holds are those of
  its bytes.
\<close>

section \<open>Interface: urls\<close>

locale url_contract =
  fixes fl :: "'u flurl" and s3 :: S3Client
    and target_of :: "'u \<Rightarrow> url_builder" and headers_of :: "'u \<Rightarrow> headers"
  assumes builds: "client_url fl s3 u \<Longrightarrow> get_url_builder fl u = Inr (target_of u)"
    and clean_path: "client_url fl s3 u \<Longrightarrow> CHR ''?'' \<notin> set (url_path (target_of u))"
    and new_url: "url_query (target_of (fl_new fl (endpoint s3))) = None" "headers_of (fl_new fl (endpoint s3)) = []"
    and segment: "url_query (target_of (append_path_segment fl p u)) = url_query (target_of u)"
      "headers_of (append_path_segment fl p u) = headers_of u"
    and flag: "url_query (target_of u) = None \<Longrightarrow> url_query (target_of (append_query_flag fl n u)) = Some n"
      "headers_of (append_query_flag fl n u) = headers_of u"
    and raw: "url_query (target_of u) = None \<Longrightarrow> split_once CHR ''?'' ending = Some (p, q) \<Longrightarrow>
        url_query (target_of (append_raw_ending_to_url fl ending u)) = Some q"
      "headers_of (append_raw_ending_to_url fl ending u) = headers_of u"
    and timeout: "target_of (set_timeout fl t u) = target_of u" "headers_of (set_timeout fl t u) = headers_of u"
    and retries: "target_of (with_retries fl k u) = target_of u" "headers_of (with_retries fl k u) = headers_of u"
    and header: "target_of (with_header fl n v u) = target_of u" "headers_of (with_header fl n v u) = headers_of u @ [(n, v)]"
begin

lemmas settings = timeout retries header segment flag new_url

text \<open>The urls of the client carry no headers yet, and their queries are in RFC 3986 form.\<close>

lemma client_url_facts:
  assumes "client_url fl s3 u"
  shows "encoded_query (url_query (target_of u)) \<and> headers_of u = []"
  using assms
proof induction
  case (a_location bucket)
  have "encoded_query (Some ''location'')" by code_simp
  then show ?case by (simp add: settings)
next
  case (a_listing bucket request)
  have "\<not> unreserved CHR ''?''" by code_simp
  then have "CHR ''?'' \<notin> set (encode_uri_component bucket ''/'')"
    using uri_encode_chars [of "CHR ''?''" bucket] by (auto simp: encode_uri_component_eq)
  then have "split_once CHR ''?'' (encode_uri_component bucket ''/'' @ ''?'' @ list_query request)
      = Some (encode_uri_component bucket ''/'', list_query request)"
    by (simp add: split_once_append)
  from raw(1) [OF new_url(1) this] show ?case
    by (simp add: settings raw(2) list_query_pairs list_params_encoded)
qed (simp_all add: settings encoded_query_def)

text \<open>Signing leaves the target alone and attaches three headers.\<close>

lemma signed_headers:
  assumes "sign_request_with_payload_hash fl cr now s3 url0 meth hash = Inr u" "client_url fl s3 url0"
  shows "target_of u = target_of url0"
    and "headers_of u = [(''X-Amz-Content-Sha256'', hash), (''X-Amz-Date'', get_amz_timestamp now),
      (''Authorization'', authorization cr s3 (get_amz_timestamp now)
        (canonical_request meth (url_path (target_of url0)) (canonical_query_string (url_query (target_of url0)))
          (host_port (target_of url0)) hash (get_amz_timestamp now)))]"
  using assms(1) builds [OF assms(2)] client_url_facts [OF assms(2)]
  by (auto simp: sign_request_with_payload_hash_def Let_def header)

lemma range_kept: "target_of (with_range fl rng u) = target_of u"
  by (simp add: with_range_def header split: option.split)

lemma range_headers: "headers_of (with_range fl rng u) = headers_of u @
    (case rng of None \<Rightarrow> [] | Some (a, b) \<Rightarrow> [(''Range'', ''bytes='' @ u64_to_string a @ ''-''
      @ (case b of None \<Rightarrow> [] | Some z \<Rightarrow> u64_to_string z))])"
  by (auto simp: with_range_def header split: option.split)

lemma range_sent:
  assumes "sign_request_with_payload_hash fl cr now s3 url0 meth hash = Inr u" "client_url fl s3 url0"
  shows "header_in (headers_of (with_range fl rng u)) ''range'' =
    map_option (\<lambda>(a, b). ''bytes='' @ u64_to_string a @ ''-'' @ (case b of None \<Rightarrow> [] | Some z \<Rightarrow> u64_to_string z)) rng"
proof -
  have "\<not> eq_ignore_ascii_case ''X-Amz-Content-Sha256'' ''range''" "\<not> eq_ignore_ascii_case ''X-Amz-Date'' ''range''"
    "\<not> eq_ignore_ascii_case ''Authorization'' ''range''" "eq_ignore_ascii_case ''Range'' ''range''" by code_simp+
  then show ?thesis by (auto simp: signed_headers [OF assms] range_headers split: option.split)
qed

end

section \<open>Interface: the wire\<close>

primrec body_bytes :: "('c \<Rightarrow> bytes) \<Rightarrow> 'c request_body \<Rightarrow> bytes" where
  "body_bytes contents NoBody = []"
| "body_bytes contents (RawData payload t) = payload"
| "body_bytes contents (Streamed c len) = contents c"

primrec body_length :: "'c request_body \<Rightarrow> nat" where
  "body_length NoBody = 0"
| "body_length (RawData payload t) = length payload"
| "body_length (Streamed c len) = len"

text \<open>What the client sees of an answer; of one whose length is a lie only its head is certain.\<close>

definition shows_answer ::
  "('u, 'b, 'c, 'r, 'n) env \<Rightarrow> Response \<Rightarrow> bool \<Rightarrow> 'b fl_url_response \<Rightarrow> bool"
where
  "shows_answer e r to_head response \<longleftrightarrow>
     rs_status_code response = rsp_status_code r
     \<and> (\<forall>name. get_header_case_insensitive response name = Inr (header_in (response_headers r to_head) name))
     \<and> (lie_about_length r = None \<longrightarrow>
          (\<exists>b cs. get_body response = Inr b \<and> delivers (body_next_item e) b cs
            \<and> concat cs = response_body r to_head
            \<and> (\<forall>limit n. length (response_body r to_head) \<le> limit \<longrightarrow>
                 fst (body_into_vec e limit b n) = Inr (response_body r to_head))))"

locale fake_wire = url_contract "url_ops e" s3 target_of headers_of
  for e :: "('u, 'b, 'c, 'r, 'n) env" and s3 target_of headers_of +
  fixes contents :: "'c \<Rightarrow> bytes" and store :: "'n \<Rightarrow> fake_state"
    and arrives :: "http_method \<Rightarrow> 'u \<Rightarrow> 'c request_body \<Rightarrow> request_head"
  assumes arrives: "rq_method (arrives meth u body) = method_text meth"
      "rq_target (arrives meth u body) = wire_target (target_of u)"
      "header_in (rq_headers (arrives meth u body)) ''host'' = Some (host_port (target_of u))"
    and kept: "name \<in> set [''authorization'', ''x-amz-content-sha256'', ''x-amz-date'', ''range''] \<Longrightarrow>
      header_in (rq_headers (arrives meth u body)) name = header_in (headers_of u) name"
    and framed: "body_length body < 2 ^ 64 \<Longrightarrow>
      announced_length (rq_headers (arrives meth u body)) = body_length body"
      "\<not> is_chunked (headers_of u) \<Longrightarrow> \<not> is_chunked (rq_headers (arrives meth u body))"
    and answered: "body_length body < 2 ^ 64 \<Longrightarrow>
      serve_request (crypto_ops e) (arrives meth u body) (body_bytes contents body) (store n)
        = (Answers r closing, tail, st) \<Longrightarrow>
      \<exists>response n'. send_request e meth u body n = (Inr response, n') \<and> store n' = st
        \<and> shows_answer e r (meth = HEAD) response"
    \<comment> \<open>a request that was hung up on may be made once more\<close>
    and hung_up: "body_length body < 2 ^ 64 \<Longrightarrow>
      serve_request (crypto_ops e) (arrives meth u body) (body_bytes contents body) (store n)
        = (HangUp, tail, st) \<Longrightarrow>
      (\<exists>err n'. send_request e meth u body n = (Inl err, n') \<and> store n' = st)
      \<or> (\<exists>n'. store n' = st \<and> send_request e meth u body n = send_request e meth u body n')"
    \<comment> \<open>a length is a \<open>usize\<close>\<close>
    and too_long: "2 ^ 64 \<le> body_length body \<Longrightarrow>
      \<exists>err n'. send_request e meth u body n = (Inl err, n') \<and> store n' = store n"
    and reading: "store (snd (body_into_vec e limit b n)) = store n"
    and shown: "snd (send_request_with_debug e meth u body n) = send_request e meth u body n"

text \<open>All that was recorded since has a valid signature, where the body came whole.\<close>

definition adds_checked :: "fake_state \<Rightarrow> fake_state \<Rightarrow> bool" where
  "adds_checked st st' \<longleftrightarrow>
     (\<exists>more. captured st' = captured st @ more \<and> list_all (\<lambda>c. body_complete c \<longrightarrow> signature_valid c) more)"

lemma adds_checked_refl [simp]: "adds_checked st st"
  by (simp add: adds_checked_def)

lemma adds_checked_trans: "adds_checked a b \<Longrightarrow> adds_checked b c \<Longrightarrow> adds_checked a c"
  by (fastforce simp: adds_checked_def)

locale trusted_client = fake_wire e s3 target_of headers_of contents store arrives
  for e :: "('u, 'b, 'c, 'r, 'n) env" and s3 target_of headers_of contents store arrives +
  assumes secret: "secret_key s3 = SECRET_KEY"
    and plain_names: "no_separator (access_key s3)" "no_separator (as_str (region s3))"
    and hex: "hex_text (crypto_ops e)"
    and clock_text: "rfc3339 (clock e n)"
begin

lemma attached:
  assumes "request_signed (url_ops e) (crypto_ops e) (clock e) s3 (meth, u, body)"
  obtains n url0 where "client_url (url_ops e) s3 url0" "target_of u = target_of url0" "\<not> is_chunked (headers_of u)"
    "header_in (headers_of u) ''x-amz-content-sha256'' = Some (payload_hash (crypto_ops e) body)"
    "header_in (headers_of u) ''x-amz-date'' = Some (get_amz_timestamp (clock e n))"
    "header_in (headers_of u) ''authorization'' = Some (authorization (crypto_ops e) s3 (get_amz_timestamp (clock e n))
      (canonical_request (method_text meth) (url_path (target_of u)) (canonical_query_string (url_query (target_of u)))
        (host_port (target_of u)) (payload_hash (crypto_ops e) body) (get_amz_timestamp (clock e n))))"
proof -
  from assms obtain n url0 v rng where c: "client_url (url_ops e) s3 url0"
    and s: "sign_request_with_payload_hash (url_ops e) (crypto_ops e) (clock e n) s3 url0 (method_text meth)
      (payload_hash (crypto_ops e) body) = Inr v" and u: "u = with_range (url_ops e) rng v"
    unfolding request_signed_def by auto
  note h = signed_headers [OF s c]
  have names: "eq_ignore_ascii_case ''X-Amz-Content-Sha256'' ''x-amz-content-sha256''"
    "\<not> eq_ignore_ascii_case ''X-Amz-Content-Sha256'' ''x-amz-date''"
    "\<not> eq_ignore_ascii_case ''X-Amz-Content-Sha256'' ''authorization''"
    "\<not> eq_ignore_ascii_case ''X-Amz-Content-Sha256'' ''transfer-encoding''"
    "eq_ignore_ascii_case ''X-Amz-Date'' ''x-amz-date''"
    "\<not> eq_ignore_ascii_case ''X-Amz-Date'' ''authorization''"
    "\<not> eq_ignore_ascii_case ''X-Amz-Date'' ''transfer-encoding''"
    "eq_ignore_ascii_case ''Authorization'' ''authorization''"
    "\<not> eq_ignore_ascii_case ''Authorization'' ''transfer-encoding''"
    "\<not> eq_ignore_ascii_case ''Range'' ''transfer-encoding''"
    by code_simp+
  show ?thesis
    by (rule that [of url0 n])
      (auto simp: c u range_kept range_headers h is_chunked_def names split: option.split)
qed

lemma arrives_valid:
  assumes "request_signed (url_ops e) (crypto_ops e) (clock e) s3 (meth, u, body)" "body_length body < 2 ^ 64"
  defines "head \<equiv> arrives meth u body"
  shows "\<not> is_chunked (rq_headers head)"
    and "\<exists>valid. verify_signature (crypto_ops e) (rq_method head) (rq_target head) (rq_headers head) b = Some valid"
    and "b = take m (body_bytes contents body) \<Longrightarrow> length b = announced_length (rq_headers head) \<Longrightarrow>
      verify_signature (crypto_ops e) (rq_method head) (rq_target head) (rq_headers head) b = Some True"
proof -
  from assms(1) obtain n url0 where c: "client_url (url_ops e) s3 url0" "target_of u = target_of url0"
    and nc: "\<not> is_chunked (headers_of u)"
    and h: "header_in (headers_of u) ''x-amz-content-sha256'' = Some (payload_hash (crypto_ops e) body)"
      "header_in (headers_of u) ''x-amz-date'' = Some (get_amz_timestamp (clock e n))"
      "header_in (headers_of u) ''authorization'' = Some (authorization (crypto_ops e) s3 (get_amz_timestamp (clock e n))
        (canonical_request (method_text meth) (url_path (target_of u)) (canonical_query_string (url_query (target_of u)))
          (host_port (target_of u)) (payload_hash (crypto_ops e) body) (get_amz_timestamp (clock e n))))"
    by (rule attached)
  show "\<not> is_chunked (rq_headers head)" unfolding head_def using framed(2) [OF nc] .
  have date: "header_in (rq_headers head) ''x-amz-date'' = Some (get_amz_timestamp (clock e n))"
    unfolding head_def using kept [of "''x-amz-date''"] h by simp
  then show "\<exists>valid. verify_signature (crypto_ops e) (rq_method head) (rq_target head) (rq_headers head) b = Some valid"
    by (rule verify_defined [OF clock_text])
  assume b: "b = take m (body_bytes contents body)" "length b = announced_length (rq_headers head)"
  then have "payload_hash (crypto_ops e) body = ''UNSIGNED-PAYLOAD''
      \<or> payload_hash (crypto_ops e) body = hex_encode (crypto_ops e) (sha256 (crypto_ops e) b)"
    using framed(1) [OF assms(2)] by (cases body) (auto simp: head_def)
  then show "verify_signature (crypto_ops e) (rq_method head) (rq_target head) (rq_headers head) b = Some True"
    unfolding head_def arrives(1,2) using client_url_facts [OF c(1)] clean_path [OF c(1)] c(2) h
    by (intro signature_verifies [OF secret plain_names hex clock_text]) (simp_all add: arrives kept)
qed

lemma sent_net: "net (snd (send e s3 meth u body w)) = snd (send_request e meth u body (net w))"
  using shown [of meth u body "net w"] by (auto simp: send_def split: prod.splits)

lemma served_checked:
  assumes "request_signed (url_ops e) (crypto_ops e) (clock e) s3 (meth, u, body)" "body_length body < 2 ^ 64"
    and "serve_request (crypto_ops e) (arrives meth u body) (body_bytes contents body) st = (s, tail, st')"
  shows "adds_checked st st'" "abort_after st' = None \<and> (s = HangUp \<longrightarrow> abort_after st \<noteq> None)"
proof -
  note valid = arrives_valid [OF assms(1,2)]
  note left = serve_request_record [OF assms(3) valid(1,2)]
  show "abort_after st' = None \<and> (s = HangUp \<longrightarrow> abort_after st \<noteq> None)" by (rule left(2))
  show "adds_checked st st'" using left(1) valid(3) by (fastforce simp: adds_checked_def recorded_as_def)
qed

lemma send_checked:
  assumes "request_signed (url_ops e) (crypto_ops e) (clock e) s3 (meth, u, body)"
  shows "adds_checked (store n) (store (snd (send_request e meth u body n)))"
proof (cases "body_length body < 2 ^ 64")
  case False
  then show ?thesis using too_long [of body meth u n] by auto
next
  case fits: True
  let ?serve = "\<lambda>n. serve_request (crypto_ops e) (arrives meth u body) (body_bytes contents body) (store n)"
  have ans: "adds_checked (store n) (store (snd (send_request e meth u body n)))"
    if "?serve n = (Answers r closing, tail, st)" for n r closing tail st
    using served_checked(1) [OF assms fits that] answered [OF fits that] by auto
  obtain s tail st where sv: "?serve n = (s, tail, st)" by (metis prod_cases3)
  show ?thesis
  proof (cases s)
    case (Answers r closing)
    then show ?thesis using ans sv by blast
  next
    case HangUp
    note first = served_checked [OF assms fits sv]
    from hung_up [OF fits sv [unfolded HangUp]] show ?thesis
    proof (elim disjE exE conjE)
      fix n'
      assume n': "store n' = st" "send_request e meth u body n = send_request e meth u body n'"
      obtain s' tail' st' where sv': "?serve n' = (s', tail', st')" by (metis prod_cases3)
      then obtain r closing where "s' = Answers r closing"
        using served_checked(2) [OF assms fits sv'] first(2) n'(1) by (cases s') auto
      then show ?thesis using ans [of n'] sv' adds_checked_trans [OF first(1)] n' by simp
    qed (use first(1) in simp)
  qed
qed

end

text \<open>Any calls, by a client whose requests are checked.\<close>

sublocale trusted_client < checked: two_clients e e s3 s3
  "\<lambda>w w'. w' = w \<and> adds_checked st0 (store (net w))"
  for st0
proof
  fix meth u and body :: "'c request_body"
  assume r: "request_signed (url_ops e) (crypto_ops e) (clock e) s3 (meth, u, body)"
  show "agree (\<lambda>w w'. w' = w \<and> adds_checked st0 (store (net w))) (send e s3 meth u body) (send e s3 meth u body)"
    using send_checked [OF r] by (auto simp: agree_def sent_net intro: adds_checked_trans)
next
  show "agree (\<lambda>w w'. w' = w \<and> adds_checked st0 (store (net w))) (read_whole_body e response)
      (read_whole_body e response)" for response
    unfolding read_whole_body_def
    by (intro agree_bind agree_result) (simp add: agree_def reading split_beta)
qed (auto simp: trace_response_def)

section \<open>Requests of the client\<close>

text \<open>Nothing is queued and nothing is armed: the server answers from its objects.\<close>

definition quiet :: "fake_state \<Rightarrow> bool" where
  "quiet st \<longleftrightarrow> replies st = [] \<and> abort_after st = None \<and> answer_after st = None"

lemma on_record_sel [simp]:
  "replies (on_record head body valid st) = replies st"
  "fs_objects (on_record head body valid st) = fs_objects st"
  "uploaded (on_record head body valid st) = uploaded st"
  by (simp_all add: on_record_def)

lemma quiet_on_record [simp]: "quiet (on_record head body valid st) \<longleftrightarrow> replies st = []"
  by (simp add: quiet_def on_record_def)

lemma serve_from_objects_cong: "fs_objects st' = fs_objects st \<Longrightarrow> serve_from_objects st' = serve_from_objects st"
  by (simp add: fun_eq_iff serve_from_objects_def)

lemma method_names [simp]:
  "\<not> eq_ignore_ascii_case ''PUT'' ''GET''" "\<not> eq_ignore_ascii_case ''PUT'' ''HEAD''"
  "\<not> eq_ignore_ascii_case ''GET'' ''PUT''" "\<not> eq_ignore_ascii_case ''HEAD'' ''PUT''"
  by code_simp+

text \<open>The length that an answer announces is read back.\<close>

lemma shown_length:
  assumes "shows_answer e r to_head response" "lie_about_length r = None"
    and "to_head \<or> rsp_status_code r \<noteq> 204" "length (rsp_body r) < 2 ^ 64"
  shows "content_length_of response = Some (of_nat (length (rsp_body r)))"
proof -
  have "eq_ignore_ascii_case ''Content-Length'' ''content-length''" by code_simp
  then have "header_in (response_headers r to_head) ''content-length'' = Some (dec_of_nat (length (rsp_body r)))"
    using assms(2,3) by (simp add: response_headers_def Let_def)
  then show ?thesis
    using assms(1,4) by (simp add: shows_answer_def content_length_of_def header_of_def parse_u64_dec)
qed

context trusted_client
begin

lemma calls_checked: "adds_checked (store (net w)) (store (net (snd (run_calls e s3 calls w))))"
  using agreeD [OF checked.calls_agree [of "store (net w)" calls], of w w] by simp

lemma send_result: "fst (send e s3 meth u body w) = map_err from_fl_url_error (fst (send_request e meth u body (net w)))"
  using shown [of meth u body "net w"] by (auto simp: send_def split: prod.splits)

lemma trace_net [simp]: "net (trace_response s3 sc b w) = net w"
  by (simp add: trace_response_def)

lemma signing:
  assumes "client_url (url_ops e) s3 url0" "rng = None \<or> meth = GET"
  obtains u where "signed_with_hash e s3 url0 (method_text meth) (payload_hash (crypto_ops e) body) w = (Inr u, w)"
    "request_signed (url_ops e) (crypto_ops e) (clock e) s3 (meth, with_range (url_ops e) rng u, body)"
    "target_of u = target_of url0"
proof -
  obtain u where "sign_request_with_payload_hash (url_ops e) (crypto_ops e) (clock e (net w)) s3 url0 (method_text meth)
      (payload_hash (crypto_ops e) body) = Inr u"
    using builds [OF assms(1)] by (simp add: sign_request_with_payload_hash_def Let_def)
  with assms show ?thesis
    by (intro that [of u]) (auto simp: signed_with_hash_def request_signed_def dest: signed_headers(1))
qed

lemma signed_range:
  assumes "client_url (url_ops e) s3 url0" "signed_with_hash e s3 url0 meth_text h w = (Inr u, w')"
  shows "header_in (headers_of (with_range (url_ops e) rng u)) ''range'' =
    map_option (\<lambda>(a, b). ''bytes='' @ u64_to_string a @ ''-'' @ (case b of None \<Rightarrow> [] | Some z \<Rightarrow> u64_to_string z)) rng"
  using assms by (intro range_sent) (auto simp: signed_with_hash_def)

lemma exchange:
  assumes "request_signed (url_ops e) (crypto_ops e) (clock e) s3 (meth, u, body)" "body_length body < 2 ^ 64"
    and "abort_after (store n) = None" "answer_after (store n) = None"
  defines "b \<equiv> take (body_length body) (body_bytes contents body)"
  obtains valid r st response n' where
    "answer_request (arrives meth u body) b (length b = body_length body)
       (on_record (arrives meth u body) b valid (store n)) = (r, st)"
    "send_request e meth u body n = (Inr response, n')" "store n' = st" "shows_answer e r (meth = HEAD) response"
proof -
  note valid = arrives_valid [OF assms(1,2)]
  have b: "b = take (wanted_bytes (arrives meth u body) (store n)) (body_bytes contents body)"
    by (simp add: b_def wanted_bytes_def assms(3,4) framed(1) [OF assms(2)])
  obtain v where v: "verify_signature (crypto_ops e) (rq_method (arrives meth u body)) (rq_target (arrives meth u body))
      (rq_headers (arrives meth u body)) b = Some v" using valid(2) by blast
  obtain r st where a: "answer_request (arrives meth u body) b (length b = body_length body)
       (on_record (arrives meth u body) b v (store n)) = (r, st)" by fastforce
  then obtain tail where "serve_request (crypto_ops e) (arrives meth u body) (body_bytes contents body) (store n)
      = (Answers r (lie_about_length r \<noteq> None), tail, st)"
    using serve_request_eq [OF valid(1) b v] by (auto simp: assms(3,4) framed(1) [OF assms(2)])
  with answered [OF assms(2)] show ?thesis using that a by blast
qed

end

section \<open>Uploads\<close>

text \<open>The server does not answer a request with a 2xx before it has read it.\<close>

definition no_early_success :: "fake_state \<Rightarrow> bool" where
  "no_early_success st \<longleftrightarrow>
     (case answer_after st of None \<Rightarrow> True | Some (_, reply) \<Rightarrow> \<not> is_success (rp_status_code reply))"

text \<open>What the server keeps of the \<open>PUT\<close>s that were answered with \<open>res\<close>.\<close>

definition kept_put ::
  "bytes \<Rightarrow> bytes \<Rightarrow> fake_state \<Rightarrow> fake_state \<Rightarrow> ('b fl_url_response, fl_url_error) result \<Rightarrow> bool"
where
  "kept_put path content st st' res \<longleftrightarrow>
     (if (case res of Inr response \<Rightarrow> is_success (rs_status_code response) | Inl _ \<Rightarrow> False)
      then map_of (uploaded st') = (map_of (uploaded st))(path \<mapsto> content)
      else uploaded st' = uploaded st)"

context trusted_client
begin

lemma put_kept_answered:
  assumes "request_signed (url_ops e) (crypto_ops e) (clock e) s3 (PUT, u, body)" "body_length body < 2 ^ 64"
    and "body_length body \<le> length (body_bytes contents body)" "abort_after (store n) = None"
    and "no_early_success (store n)" "CHR ''?'' \<notin> set (url_path (target_of u))"
  shows "kept_put (url_path (target_of u)) (take (body_length body) (body_bytes contents body)) (store n)
    (store (snd (send_request e PUT u body n))) (fst (send_request e PUT u body n))"
proof (cases "answer_after (store n)")
  case None
  let ?b = "take (body_length body) (body_bytes contents body)"
  obtain valid r st response n' where
    a: "answer_request (arrives PUT u body) ?b (length ?b = body_length body)
       (on_record (arrives PUT u body) ?b valid (store n)) = (r, st)"
    and s: "send_request e PUT u body n = (Inr response, n')" "store n' = st" "shows_answer e r (PUT = HEAD) response"
    by (rule exchange [OF assms(1,2,4) None])
  have "rs_status_code response = rsp_status_code r" using s(3) by (simp add: shows_answer_def)
  moreover have "path_of (rq_target (arrives PUT u body)) = url_path (target_of u)"
    using wire_target_split(2) [OF assms(6)] by (simp add: arrives)
  moreover have "eq_ignore_ascii_case (rq_method (arrives PUT u body)) ''PUT''" by (simp add: arrives)
  ultimately show ?thesis
    using answer_request_uploads [OF a] s(1,2) assms(3) by (simp add: kept_put_def update_conv')
next
  case (Some early)
  then obtain m reply where early: "answer_after (store n) = Some (m, reply)" by (cases early) auto
  note valid = arrives_valid [OF assms(1,2)]
  let ?b = "take (wanted_bytes (arrives PUT u body) (store n)) (body_bytes contents body)"
  obtain v where v: "verify_signature (crypto_ops e) (rq_method (arrives PUT u body)) (rq_target (arrives PUT u body))
      (rq_headers (arrives PUT u body)) ?b = Some v" using valid(2) by blast
  obtain tail where "serve_request (crypto_ops e) (arrives PUT u body) (body_bytes contents body) (store n)
      = (Answers (response_of_reply reply) True, tail, on_record (arrives PUT u body) ?b v (store n))"
    using serve_request_eq [OF valid(1) refl v] assms(4) early by auto
  from answered [OF assms(2) this] show ?thesis
    using assms(5) early by (auto simp: kept_put_def shows_answer_def response_of_reply_def no_early_success_def)
qed

lemma put_kept:
  assumes "request_signed (url_ops e) (crypto_ops e) (clock e) s3 (PUT, u, body)" "body_length body < 2 ^ 64"
    and "body_length body \<le> length (body_bytes contents body)"
    and "no_early_success (store n)" "CHR ''?'' \<notin> set (url_path (target_of u))"
  shows "kept_put (url_path (target_of u)) (take (body_length body) (body_bytes contents body)) (store n)
    (store (snd (send_request e PUT u body n))) (fst (send_request e PUT u body n))"
proof (cases "abort_after (store n)")
  case None
  then show ?thesis using put_kept_answered assms by blast
next
  case (Some m)
  note valid = arrives_valid [OF assms(1,2)]
  let ?b = "take (wanted_bytes (arrives PUT u body) (store n)) (body_bytes contents body)"
  obtain v where v: "verify_signature (crypto_ops e) (rq_method (arrives PUT u body)) (rq_target (arrives PUT u body))
      (rq_headers (arrives PUT u body)) ?b = Some v" using valid(2) by blast
  let ?st = "on_record (arrives PUT u body) ?b v (store n)"
  obtain tail where "serve_request (crypto_ops e) (arrives PUT u body) (body_bytes contents body) (store n)
      = (HangUp, tail, ?st)"
    using serve_request_eq [OF valid(1) refl v] Some by auto
  from hung_up [OF assms(2) this] show ?thesis
  proof (elim disjE exE conjE)
    fix n' assume n': "store n' = ?st" "send_request e PUT u body n = send_request e PUT u body n'"
    have "abort_after (store n') = None" "no_early_success (store n')"
      by (simp_all add: n'(1) on_record_def no_early_success_def)
    from put_kept_answered [OF assms(1-3) this assms(5)] show ?thesis
      using n' by (simp add: kept_put_def)
  qed (simp add: kept_put_def)
qed

lemma expect_success_store: "store (net (snd (expect_success e s3 response w))) = store (net w)"
  by (simp add: expect_success_def read_success_body_def read_whole_body_def io_bind_def io_result_def Let_def
      reading split_beta split: sum.split)

text \<open>Both uploads are a signed \<open>PUT\<close> whose answer has to be a success.\<close>

lemma signed_put:
  assumes "client_url (url_ops e) s3 url0"
  obtains u where "request_signed (url_ops e) (crypto_ops e) (clock e) s3 (PUT, u, body)" "target_of u = target_of url0"
    "io_bind (signed_with_hash e s3 url0 ''PUT'' (payload_hash (crypto_ops e) body))
       (\<lambda>url. io_bind (send e s3 PUT url body) (\<lambda>response. expect_success e s3 response)) w
     = io_bind (send e s3 PUT u body) (\<lambda>response. expect_success e s3 response) w"
proof -
  obtain u where "signed_with_hash e s3 url0 (method_text PUT) (payload_hash (crypto_ops e) body) w = (Inr u, w)"
    "request_signed (url_ops e) (crypto_ops e) (clock e) s3 (PUT, with_range (url_ops e) None u, body)"
    "target_of u = target_of url0"
    by (rule signing [OF assms, of None]) simp
  then show ?thesis
    by (intro that [of u]) (simp_all add: with_range_def io_bind_def [of "signed_with_hash _ _ _ _ _"])
qed

lemma put_upload:
  assumes "client_url (url_ops e) s3 url0" "body_length body < 2 ^ 64"
    and "body_length body \<le> length (body_bytes contents body)" "no_early_success (store (net w))"
    and "io_bind (signed_with_hash e s3 url0 ''PUT'' (payload_hash (crypto_ops e) body))
       (\<lambda>url. io_bind (send e s3 PUT url body) (\<lambda>response. expect_success e s3 response)) w = (res, w')"
  defines "stored \<equiv> (map_of (uploaded (store (net w))))(url_path (target_of url0) \<mapsto>
      take (body_length body) (body_bytes contents body))"
  shows "(res = Inr () \<longrightarrow> map_of (uploaded (store (net w'))) = stored)
    \<and> (uploaded (store (net w')) = uploaded (store (net w)) \<or> map_of (uploaded (store (net w'))) = stored)"
proof -
  obtain u where r: "request_signed (url_ops e) (crypto_ops e) (clock e) s3 (PUT, u, body)"
    and u: "target_of u = target_of url0"
    and run: "io_bind (send e s3 PUT u body) (\<lambda>response. expect_success e s3 response) w = (res, w')"
    using signed_put [OF assms(1), of body w] assms(5) by metis
  have kept: "kept_put (url_path (target_of url0)) (take (body_length body) (body_bytes contents body)) (store (net w))
      (store (snd (send_request e PUT u body (net w)))) (fst (send_request e PUT u body (net w)))"
    using put_kept [OF r assms(2-4)] clean_path [OF assms(1)] u by simp
  obtain x n where x: "send_request e PUT u body (net w) = (x, n)" by fastforce
  obtain w1 where w1: "send e s3 PUT u body w = (map_err from_fl_url_error x, w1)" "net w1 = n"
    using send_result [of PUT u body w] sent_net [of PUT u body w] x by (metis prod.collapse fst_conv snd_conv)
  show ?thesis
  proof (cases x)
    case (Inl err)
    then show ?thesis using kept x w1 run by (auto simp: kept_put_def io_bind_def)
  next
    case (Inr response)
    then have ex: "expect_success e s3 response w1 = (res, w')" using run w1 by (simp add: io_bind_def)
    then have "store (net w') = store n" using expect_success_store [of response w1] w1 by simp
    moreover have "is_success (rs_status_code response)" if "res = Inr ()"
      using expect_success_ok ex that by blast
    ultimately show ?thesis using kept x Inr by (auto simp: kept_put_def stored_def split: if_splits)
  qed
qed

text \<open>With nothing armed and nothing queued, the upload succeeds.\<close>

lemma put_accepted:
  assumes "client_url (url_ops e) s3 url0" "body_length body < 2 ^ 64" "quiet (store (net w))"
  shows "fst (io_bind (signed_with_hash e s3 url0 ''PUT'' (payload_hash (crypto_ops e) body))
       (\<lambda>url. io_bind (send e s3 PUT url body) (\<lambda>response. expect_success e s3 response)) w) = Inr ()"
proof -
  obtain u where r: "request_signed (url_ops e) (crypto_ops e) (clock e) s3 (PUT, u, body)"
    and run: "io_bind (signed_with_hash e s3 url0 ''PUT'' (payload_hash (crypto_ops e) body))
       (\<lambda>url. io_bind (send e s3 PUT url body) (\<lambda>response. expect_success e s3 response)) w
     = io_bind (send e s3 PUT u body) (\<lambda>response. expect_success e s3 response) w"
    by (rule signed_put [OF assms(1)])
  have armed: "abort_after (store (net w)) = None" "answer_after (store (net w)) = None"
    using assms(3) by (simp_all add: quiet_def)
  let ?b = "take (body_length body) (body_bytes contents body)"
  obtain valid x st response n where a: "answer_request (arrives PUT u body) ?b (length ?b = body_length body)
       (on_record (arrives PUT u body) ?b valid (store (net w))) = (x, st)"
    and s: "send_request e PUT u body (net w) = (Inr response, n)" "shows_answer e x (PUT = HEAD) response"
    by (rule exchange [OF r assms(2) armed])
  have "x = empty_ok"
    using a assms(3)
    by (auto simp: answer_request_def quiet_def serve_from_objects_def arrives Let_def)
  then have "is_success (rs_status_code response)" and "\<exists>b. get_body response = Inr b
      \<and> (\<forall>limit n. fst (body_into_vec e limit b n) = Inr [])"
    using s(2) by (auto simp: shows_answer_def empty_ok_def response_body_def is_success_def)
  moreover obtain w1 where "send e s3 PUT u body w = (Inr response, w1)"
    using send_result [of PUT u body w] s(1) by (metis prod.collapse fst_conv map_err_simps(2))
  ultimately show ?thesis
    unfolding run
    by (auto simp: io_bind_def io_result_def expect_success_def read_success_body_def read_whole_body_def Let_def
        split_beta split: sum.split prod.split)
qed

end

section \<open>Objects the server holds\<close>

text \<open>The server holds \<open>content\<close> under a path and will answer from its objects.\<close>

definition holds :: "fake_state \<Rightarrow> bytes \<Rightarrow> bytes \<Rightarrow> bool" where
  "holds st path content \<longleftrightarrow> quiet st \<and> map_of (fs_objects st) path = Some content \<and> length content < 2 ^ 64"

definition whole_object :: "bytes \<Rightarrow> Response" where
  "whole_object content = empty_ok\<lparr>rsp_body := content, rsp_content_type := ''application/octet-stream''\<rparr>"

lemma serve_held:
  assumes "holds st path content" "path_of target = path" "eq_ignore_ascii_case meth ''GET'' \<or> eq_ignore_ascii_case meth ''HEAD''"
  shows "serve_from_objects st meth target None = Some (whole_object content)"
    and "serve_from_objects st meth target (Some (''bytes='' @ u64_to_string start @ ''-'' @ u64_to_string stop)) =
      Some (if length content \<le> unat start \<or> stop < start
        then empty_ok\<lparr>rsp_status_code := 416, rsp_body := INVALID_RANGE\<rparr>
        else (whole_object content)\<lparr>rsp_status_code := 206,
          rsp_body := piece (unat start) (min (unat stop) (length content - 1) + 1 - unat start) content,
          extra_headers := [(''Content-Range'', ''bytes '' @ u64_to_string start @ ''-''
            @ u64_to_string (min stop (of_nat (length content) - 1)) @ ''/'' @ u64_to_string (of_nat (length content)))]\<rparr>)"
proof -
  have held: "map_of (fs_objects st) (path_of target) = Some content" "fs_objects st \<noteq> []"
    and len: "unat (of_nat (length content) :: u64) = length content"
    using assms(1,2) by (auto simp: holds_def unat_of_nat_no_wrap)
  then show "serve_from_objects st meth target None = Some (whole_object content)"
    using assms(3) by (auto simp: serve_from_objects_def whole_object_def Let_def)
  have ranged: "serve_from_objects st meth target (Some h) =
      (case parse_range h (of_nat (length content)) of
         None \<Rightarrow> Some (empty_ok\<lparr>rsp_status_code := 416, rsp_body := INVALID_RANGE\<rparr>)
       | Some (start, stop) \<Rightarrow> Some ((whole_object content)\<lparr>rsp_status_code := 206,
           rsp_body := take (unat stop + 1 - unat start) (drop (unat start) content),
           extra_headers := [(''Content-Range'', ''bytes '' @ u64_to_string start @ ''-'' @ u64_to_string stop
             @ ''/'' @ u64_to_string (of_nat (length content)))]\<rparr>))" for h
    using assms(3) held unfolding serve_from_objects_def whole_object_def Let_def by auto
  have past: "(of_nat (length content) \<le> start) = (length content \<le> unat start)"
    by (simp add: word_le_nat_alt len)
  show "serve_from_objects st meth target (Some (''bytes='' @ u64_to_string start @ ''-'' @ u64_to_string stop)) =
      Some (if length content \<le> unat start \<or> stop < start
        then empty_ok\<lparr>rsp_status_code := 416, rsp_body := INVALID_RANGE\<rparr>
        else (whole_object content)\<lparr>rsp_status_code := 206,
          rsp_body := piece (unat start) (min (unat stop) (length content - 1) + 1 - unat start) content,
          extra_headers := [(''Content-Range'', ''bytes '' @ u64_to_string start @ ''-''
            @ u64_to_string (min stop (of_nat (length content) - 1)) @ ''/'' @ u64_to_string (of_nat (length content)))]\<rparr>)"
  proof (cases "length content \<le> unat start \<or> stop < start")
    case True
    then show ?thesis
      using ranged parse_range_closed [of start stop "of_nat (length content)"] by (simp add: past)
  next
    case False
    then have "start < of_nat (length content)" using past by (simp add: not_le)
    then have "unat (min stop (of_nat (length content) - 1)) = min (unat stop) (length content - 1)"
      using last_index(1) len by (simp add: min_def word_le_nat_alt)
    then show ?thesis
      using False ranged parse_range_closed [of start stop "of_nat (length content)"] by (simp add: past piece_def)
  qed
qed

context trusted_client
begin

lemma object_answer:
  assumes "request_signed (url_ops e) (crypto_ops e) (clock e) s3 (meth, u, NoBody :: 'c request_body)" "meth = GET \<or> meth = HEAD"
    and "holds (store n) (url_path (target_of u)) content"
    and "serve_from_objects (store n) (method_text meth) (wire_target (target_of u)) (header_in (headers_of u) ''range'') = Some r"
  obtains response n' where "send_request e meth u NoBody n = (Inr response, n')" "shows_answer e r (meth = HEAD) response"
    "holds (store n') (url_path (target_of u)) content"
proof -
  have armed: "abort_after (store n) = None" "answer_after (store n) = None" "replies (store n) = []"
    using assms(3) by (simp_all add: holds_def quiet_def)
  have fits: "body_length (NoBody :: 'c request_body) < 2 ^ 64" by simp
  obtain valid x st response n' where
    a: "answer_request (arrives meth u NoBody) [] True (on_record (arrives meth u NoBody) [] valid (store n)) = (x, st)"
    and s: "send_request e meth u NoBody n = (Inr response, n')" "store n' = st" "shows_answer e x (meth = HEAD) response"
    by (rule exchange [OF assms(1) fits armed(1,2), unfolded body_length.simps take_0 list.size(3) refl [THEN eqTrueI]])
  have "serve_from_objects (on_record (arrives meth u NoBody) [] valid (store n)) = serve_from_objects (store n)"
    by (rule serve_from_objects_cong) simp
  then have "x = r \<and> st = on_record (arrives meth u NoBody) [] valid (store n)"
    using a assms(2,4) armed(3) by (auto simp: answer_request_def arrives kept Let_def)
  then show ?thesis using that s assms(3) by (simp add: holds_def quiet_def on_record_def)
qed

lemma object_path_clean: "CHR ''?'' \<notin> set (url_path (target_of (object_url e s3 bucket k)))"
  by (rule clean_path) (rule client_url.an_object)

lemma held_size:
  assumes "holds (store (net w)) (url_path (target_of (object_url e s3 bucket k))) content"
  obtains w' where "get_object_size e s3 bucket k w = (Inr (of_nat (length content)), w')"
    "holds (store (net w')) (url_path (target_of (object_url e s3 bucket k))) content"
proof -
  let ?url = "with_retries (url_ops e) 3 (object_url e s3 bucket k)"
  have c: "client_url (url_ops e) s3 ?url" by (intro client_url.intros)
  from signing [OF c, of None HEAD NoBody w] obtain u where
    s: "signed_with_hash e s3 ?url ''HEAD'' (payload_hash (crypto_ops e) (NoBody :: 'c request_body)) w = (Inr u, w)"
    and r: "request_signed (url_ops e) (crypto_ops e) (clock e) s3 (HEAD, u, NoBody :: 'c request_body)"
    and t: "target_of u = target_of (object_url e s3 bucket k)"
    by (auto simp: with_range_def retries)
  have rng: "header_in (headers_of u) ''range'' = None"
    using signed_range [OF c s, of None] by (simp add: with_range_def)
  have held: "holds (store (net w)) (url_path (target_of u)) content" using assms t by simp
  have "serve_from_objects (store (net w)) (method_text HEAD) (wire_target (target_of u)) (header_in (headers_of u) ''range'')
      = Some (whole_object content)"
    unfolding rng t by (rule serve_held(1) [OF assms wire_target_split(2) [OF object_path_clean]]) simp
  from object_answer [OF r disjI2 [OF refl] held this] obtain response n where
    a: "send_request e HEAD u NoBody (net w) = (Inr response, n)" "shows_answer e (whole_object content) True response"
    and h: "holds (store n) (url_path (target_of (object_url e s3 bucket k))) content"
    using t by auto
  obtain w1 where w1: "send_head e s3 u w = (Inr response, w1)" "net w1 = n"
    using send_result [of HEAD u NoBody w] sent_net [of HEAD u NoBody w] a(1)
    by (metis send_head_def prod.collapse fst_conv snd_conv map_err_simps(2))
  have "content_length_of response = Some (of_nat (length content))"
    using shown_length [OF a(2)] assms by (simp add: whole_object_def empty_ok_def holds_def)
  moreover have "is_success (rs_status_code response)"
    using a(2) by (simp add: shows_answer_def whole_object_def empty_ok_def is_success_def)
  ultimately show ?thesis
    using that s w1 h
    by (simp add: get_object_size_def signed_def signed_with_hash_def sign_request_def io_bind_def Let_def)
qed

lemma held_get:
  assumes "holds (store (net w)) (url_path (target_of (object_url e s3 bucket k))) content"
    and "serve_from_objects (store (net w)) ''GET'' (wire_target (target_of (object_url e s3 bucket k)))
      (map_option (\<lambda>(a, b). ''bytes='' @ u64_to_string a @ ''-'' @ (case b of None \<Rightarrow> [] | Some z \<Rightarrow> u64_to_string z)) rng) = Some r"
    and "rsp_status_code r = (if rng = None then 200 else 206) \<or> rng \<noteq> None \<and> rsp_status_code r = 416"
  obtains response w' where "shows_answer e r False response"
    "open_object e s3 bucket k rng w = (if rsp_status_code r = 416 then Inl RangeNotSatisfiable else Inr response, w')"
    "holds (store (net w')) (url_path (target_of (object_url e s3 bucket k))) content"
proof -
  let ?url = "with_retries (url_ops e) 3 (object_url e s3 bucket k)"
  have c: "client_url (url_ops e) s3 ?url" by (intro client_url.intros)
  from signing [OF c, of rng GET NoBody w] obtain v where
    s: "signed_with_hash e s3 ?url ''GET'' (payload_hash (crypto_ops e) (NoBody :: 'c request_body)) w = (Inr v, w)"
    and q: "request_signed (url_ops e) (crypto_ops e) (clock e) s3 (GET, with_range (url_ops e) rng v, NoBody :: 'c request_body)"
    and t: "target_of (with_range (url_ops e) rng v) = target_of (object_url e s3 bucket k)"
    by (auto simp: retries range_kept)
  let ?u = "with_range (url_ops e) rng v"
  have held: "holds (store (net w)) (url_path (target_of ?u)) content" using assms(1) t by simp
  have "serve_from_objects (store (net w)) (method_text GET) (wire_target (target_of ?u)) (header_in (headers_of ?u) ''range'') = Some r"
    unfolding signed_range [OF c s] t method_text.simps by (rule assms(2))
  from object_answer [OF q disjI1 [OF refl] held this] obtain response n where
    a: "send_request e GET ?u NoBody (net w) = (Inr response, n)" "shows_answer e r False response"
    and h: "holds (store n) (url_path (target_of (object_url e s3 bucket k))) content"
    using t by auto
  obtain w1 where w1: "send_get e s3 ?u w = (Inr response, w1)" "net w1 = n"
    using send_result [of GET ?u NoBody w] sent_net [of GET ?u NoBody w] a(1)
    by (metis send_get_def prod.collapse fst_conv snd_conv map_err_simps(2))
  have status: "rs_status_code response = rsp_status_code r" using a(2) by (simp add: shows_answer_def)
  have run: "open_object e s3 bucket k rng w =
      (if rsp_status_code r = 416 then Inl RangeNotSatisfiable else Inr response, trace_response s3 (rsp_status_code r) None w1)"
    using s w1(1) assms(3) status
    by (auto simp: open_object_def signed_def signed_with_hash_def sign_request_def io_bind_def Let_def split: if_splits)
  show ?thesis by (rule that [OF a(2) run]) (use h w1 in simp)
qed

text \<open>The body of an answer to a \<open>GET\<close>, read to its end.\<close>

lemma shown_body:
  assumes "shows_answer e r False response" "lie_about_length r = None" "rsp_status_code r \<noteq> 204" "length (rsp_body r) < 2 ^ 64"
  obtains stream s' where "from_response response = Inr stream"
    "read_to_end (body_next_item e) [] stream = Some (Inr (rsp_body r), s')"
proof -
  obtain b cs where b: "get_body response = Inr b" "delivers (body_next_item e) b cs" "concat cs = rsp_body r"
    using assms(1-3) by (auto simp: shows_answer_def response_body_def)
  define stream where "stream = \<lparr>content_length = Some (of_nat (length (rsp_body r))),
    content_type = header_of response ''content-type'', socket = b, received_bytes = 0\<rparr>"
  have "from_response response = Inr stream"
    using b(1) shown_length [OF assms(1,2) _ assms(4)] assms(3) by (simp add: from_response_def stream_def)
  moreover obtain s' where "read_to_end (body_next_item e) [] stream = Some (Inr (rsp_body r), s')"
    using read_to_end_delivers [of "body_next_item e" stream cs "[]"] b(2,3)
    by (auto simp: stream_def at_end_def)
  ultimately show ?thesis by (rule that)
qed

lemma held_whole:
  assumes "holds (store (net w)) (url_path (target_of (object_url e s3 bucket k))) content"
  shows "\<exists>stream w' s'. download_file e s3 bucket k w = (Inr stream, w')
    \<and> read_to_end (body_next_item e) [] stream = Some (Inr content, s')
    \<and> holds (store (net w')) (url_path (target_of (object_url e s3 bucket k))) content"
proof -
  let ?r = "whole_object content"
  have sel: "rsp_status_code ?r = 200" "rsp_body ?r = content" "lie_about_length ?r = None"
    by (simp_all add: whole_object_def empty_ok_def)
  have "serve_from_objects (store (net w)) ''GET'' (wire_target (target_of (object_url e s3 bucket k))) None = Some ?r"
    by (rule serve_held(1) [OF assms wire_target_split(2) [OF object_path_clean]]) simp
  then obtain response w' where a: "shows_answer e ?r False response"
    "open_object e s3 bucket k None w = (Inr response, w')"
    "holds (store (net w')) (url_path (target_of (object_url e s3 bucket k))) content"
    using held_get [OF assms, of None ?r] sel(1) by auto
  obtain stream s' where "from_response response = Inr stream"
    "read_to_end (body_next_item e) [] stream = Some (Inr (rsp_body ?r), s')"
    by (rule shown_body [OF a(1) sel(3)]) (use sel assms in \<open>simp_all add: holds_def\<close>)
  then show ?thesis using a(2,3) sel(2) by (auto simp: download_file_def io_bind_def io_result_def)
qed

lemma held_range:
  assumes "holds (store (net w)) (url_path (target_of (object_url e s3 bucket k))) content" "start \<le> stop"
  shows "\<exists>res w'. download_file_range e s3 bucket k start (Some stop) w = (res, w')
    \<and> holds (store (net w')) (url_path (target_of (object_url e s3 bucket k))) content
    \<and> (if length content \<le> unat start then res = Inl RangeNotSatisfiable
       else \<exists>stream s'. res = Inr stream \<and> read_to_end (body_next_item e) [] stream =
         Some (Inr (piece (unat start) (min (unat stop) (length content - 1) + 1 - unat start) content), s'))"
proof -
  let ?path = "url_path (target_of (object_url e s3 bucket k))"
  define bytes where "bytes = piece (unat start) (min (unat stop) (length content - 1) + 1 - unat start) content"
  define r where "r = (if length content \<le> unat start then empty_ok\<lparr>rsp_status_code := 416, rsp_body := INVALID_RANGE\<rparr>
    else (whole_object content)\<lparr>rsp_status_code := 206, rsp_body := bytes,
      extra_headers := [(''Content-Range'', ''bytes '' @ u64_to_string start @ ''-''
        @ u64_to_string (min stop (of_nat (length content) - 1)) @ ''/'' @ u64_to_string (of_nat (length content)))]\<rparr>)"
  have sv: "serve_from_objects (store (net w)) ''GET'' (wire_target (target_of (object_url e s3 bucket k)))
      (map_option (\<lambda>(a, b). ''bytes='' @ u64_to_string a @ ''-'' @ (case b of None \<Rightarrow> [] | Some z \<Rightarrow> u64_to_string z))
        (Some (start, Some stop))) = Some r"
    using serve_held(2) [OF assms(1) wire_target_split(2) [OF object_path_clean], of "''GET''" start stop] assms(2)
    by (simp add: r_def bytes_def not_less)
  have "rsp_status_code r = (if Some (start, Some stop) = None then 200 else 206)
      \<or> Some (start, Some stop) \<noteq> None \<and> rsp_status_code r = 416"
    by (simp add: r_def)
  then obtain response w' where a: "shows_answer e r False response"
    "open_object e s3 bucket k (Some (start, Some stop)) w =
       (if rsp_status_code r = 416 then Inl RangeNotSatisfiable else Inr response, w')"
    "holds (store (net w')) ?path content"
    by (rule held_get [OF assms(1) sv])
  have run: "download_file_range e s3 bucket k start (Some stop) w =
      (if rsp_status_code r = 416 then Inl RangeNotSatisfiable else from_response response, w')"
    using a(2) leD [OF assms(2)] by (simp add: download_file_range_def io_bind_def io_result_def)
  show ?thesis
  proof (cases "length content \<le> unat start")
    case True
    then show ?thesis using run a(3) by (simp add: r_def)
  next
    case False
    then have sel: "rsp_status_code r = 206" "rsp_body r = bytes" "lie_about_length r = None"
      by (simp_all add: r_def whole_object_def empty_ok_def)
    have "length bytes \<le> length content" by (simp add: bytes_def piece_def)
    then have "length bytes < 2 ^ 64" using assms(1) unfolding holds_def by linarith
    then obtain stream s' where "from_response response = Inr stream"
      "read_to_end (body_next_item e) [] stream = Some (Inr bytes, s')"
      using shown_body [OF a(1) sel(3)] sel by auto
    then show ?thesis using run a(3) False sel(1) by (simp add: bytes_def)
  qed
qed

end

section \<open>A transport without a socket\<close>

text \<open>
  Urls as in \<open>plain_flurl\<close>, with path segments percent-encoded; a request is handed to the
  server with its framing headers in front, its answer handed back.
\<close>

definition encode_path :: "bytes \<Rightarrow> bytes" where
  "encode_path p = concat (map (\<lambda>c. if c = CHR ''/'' then [c] else uri_encode_byte c) p)"

definition wire_flurl :: "plain_request flurl" where
  "wire_flurl = plain_flurl\<lparr>append_path_segment :=
     (\<lambda>p (b, hs). (b\<lparr>url_path := url_path b @ ''/'' @ encode_path p\<rparr>, hs))\<rparr>"

definition fake_arrives :: "http_method \<Rightarrow> plain_request \<Rightarrow> bytes request_body \<Rightarrow> request_head" where
  "fake_arrives meth u body =
     \<lparr>rq_method = method_text meth, rq_target = wire_target (fst u),
      rq_headers = (''Host'', host_port (fst u)) # (''Content-Length'', dec_of_nat (body_length body)) # snd u\<rparr>"

definition fake_response :: "Response \<Rightarrow> bool \<Rightarrow> bytes list fl_url_response" where
  "fake_response r to_head =
     \<lparr>rs_status_code = rsp_status_code r,
      get_header_case_insensitive = (\<lambda>name. Inr (header_in (response_headers r to_head) name)),
      get_body = Inr [response_body r to_head]\<rparr>"

definition broken :: fl_url_error where
  "broken = \<lparr>fl_is_timeout = False, fl_variant = FlIoError, fl_debug = ''Broken'', fl_display = ''broken''\<rparr>"

definition fake_send ::
  "crypto \<Rightarrow> http_method \<Rightarrow> plain_request \<Rightarrow> bytes request_body \<Rightarrow> fake_state
   \<Rightarrow> (bytes list fl_url_response, fl_url_error) result \<times> fake_state"
where
  "fake_send cr meth u body st =
     (if 2 ^ 64 \<le> body_length body then (Inl broken, st)
      else
        (case serve_request cr (fake_arrives meth u body) (body_bytes (\<lambda>c. c) body) st of
           (HangUp, _, st') \<Rightarrow> (Inl broken, st')
         | (Answers r _, _, st') \<Rightarrow> (Inr (fake_response r (meth = HEAD)), st')))"

definition fake_env ::
  "crypto \<Rightarrow> bytes \<Rightarrow> 'r xml_reader \<Rightarrow> (plain_request, bytes list, bytes, 'r, fake_state) env"
where
  "fake_env cr now x =
     \<lparr>url_ops = wire_flurl, crypto_ops = cr, clock = (\<lambda>_. now), send_request = fake_send cr,
      send_request_with_debug = (\<lambda>meth u body st. (method_text meth, fake_send cr meth u body st)),
      body_into_vec = (\<lambda>limit b st. (if length (concat b) \<le> limit then Inr (concat b) else Inl broken, st)),
      body_next_item = list_body, xml_ops = x\<rparr>"

definition hex_crypto :: crypto where
  "hex_crypto = \<lparr>sha256 = rev, hmac_sha256 = (\<lambda>k m. k @ m),
     hex_encode = (\<lambda>b. concat (map (\<lambda>c. [hex_digit (byte_val c div 16), hex_digit (byte_val c mod 16)]) b))\<rparr>"

definition test_client :: S3Client where
  "test_client = client_in_region HetznerFsn1 ''127.0.0.1:9000''"

lemma wire_flurl_sel [simp]:
  "get_url_builder wire_flurl u = Inr (fst u)"
  "fl_new wire_flurl h = (\<lparr>host_port = h, url_path = [], url_query = None\<rparr>, [])"
  "append_path_segment wire_flurl p u = ((fst u)\<lparr>url_path := url_path (fst u) @ ''/'' @ encode_path p\<rparr>, snd u)"
  "append_query_flag wire_flurl n u = ((fst u)\<lparr>url_query := Some n\<rparr>, snd u)"
  "append_raw_ending_to_url wire_flurl t u = (raw_ending t (fst u), snd u)"
  "set_timeout wire_flurl k u = u" "with_retries wire_flurl k u = u"
  "with_header wire_flurl n v u = (fst u, snd u @ [(n, v)])"
  by (simp_all add: wire_flurl_def plain_flurl_def split_beta)

lemma encode_path_clean: "CHR ''?'' \<notin> set (encode_path p)"
proof -
  have "\<not> unreserved CHR ''?''" by code_simp
  then have "CHR ''?'' \<notin> set (uri_encode_byte c)" for c
    by (auto simp: uri_encode_byte_def hex_digit_cases nibbles split: if_splits dest: sym)
  then show ?thesis by (auto simp: encode_path_def split: if_splits)
qed

lemma wire_path_clean: "client_url wire_flurl s3 u \<Longrightarrow> CHR ''?'' \<notin> set (url_path (fst u))"
proof (induction rule: client_url.induct)
  case (a_listing bucket request)
  have "\<not> unreserved CHR ''?''" by code_simp
  then have "CHR ''?'' \<notin> set (encode_uri_component bucket ''/'')"
    using uri_encode_chars [of "CHR ''?''" bucket] by (auto simp: encode_uri_component_eq)
  then show ?case by (simp add: raw_ending_def split_once_append)
qed (simp_all add: encode_path_clean)

lemma fake_framing:
  "header_in (rq_headers (fake_arrives meth u body)) ''host'' = Some (host_port (fst u))"
  "body_length body < 2 ^ 64 \<Longrightarrow> announced_length (rq_headers (fake_arrives meth u body)) = body_length body"
  "is_chunked (rq_headers (fake_arrives meth u body)) = is_chunked (snd u)"
  "name \<in> set [''authorization'', ''x-amz-content-sha256'', ''x-amz-date'', ''range''] \<Longrightarrow>
     header_in (rq_headers (fake_arrives meth u body)) name = header_in (snd u) name"
proof -
  have "eq_ignore_ascii_case ''Host'' ''host''" "\<not> eq_ignore_ascii_case ''Host'' ''content-length''"
    "eq_ignore_ascii_case ''Content-Length'' ''content-length''"
    "\<not> eq_ignore_ascii_case ''Host'' ''transfer-encoding''" "\<not> eq_ignore_ascii_case ''Content-Length'' ''transfer-encoding''"
    "list_all (\<lambda>n. \<not> eq_ignore_ascii_case ''Host'' n \<and> \<not> eq_ignore_ascii_case ''Content-Length'' n)
      [''authorization'', ''x-amz-content-sha256'', ''x-amz-date'', ''range'']"
    by code_simp+
  note names = this
  show "header_in (rq_headers (fake_arrives meth u body)) ''host'' = Some (host_port (fst u))"
    "is_chunked (rq_headers (fake_arrives meth u body)) = is_chunked (snd u)"
    using names by (simp_all add: fake_arrives_def is_chunked_def)
  show "body_length body < 2 ^ 64 \<Longrightarrow> announced_length (rq_headers (fake_arrives meth u body)) = body_length body"
    using names(2,3) by (simp add: fake_arrives_def announced_length_def parse_u64_dec unat_of_nat_no_wrap)
  show "header_in (rq_headers (fake_arrives meth u body)) name = header_in (snd u) name"
    if "name \<in> set [''authorization'', ''x-amz-content-sha256'', ''x-amz-date'', ''range'']"
    using names(6) that unfolding list_all_iff by (auto simp: fake_arrives_def)
qed

lemma fake_shows: "shows_answer (fake_env cr now x) r to_head (fake_response r to_head)"
  by (auto simp: shows_answer_def fake_env_def fake_response_def list_body_def
      intro!: exI [of _ "[response_body r to_head]"])

lemma hex_crypto_text: "hex_text hex_crypto"
proof -
  have "list_all (\<lambda>n. visible (hex_digit n) \<and> hex_digit n \<notin> set ''/,='') [0..<16]" by code_simp
  then have "visible (hex_digit n) \<and> hex_digit n \<notin> set ''/,=''" if "n < 16" for n
    using that unfolding list_all_iff by auto
  then show ?thesis unfolding hex_text_def hex_crypto_def list_all_iff using nibbles by auto
qed

lemma sample_clock: "rfc3339 ''2024-01-02T03:04:05Z''"
proof -
  have "list_all is_ascii_digit (''2024'' @ ''01'' @ ''02'' @ ''03'' @ ''04'' @ ''05'')" by code_simp
  then have "rfc3339 (''2024'' @ ''-'' @ ''01'' @ ''-'' @ ''02'' @ ''T'' @ ''03'' @ '':'' @ ''04'' @ '':'' @ ''05'' @ ''Z'')"
    unfolding rfc3339_def by (intro exI conjI) (rule refl | simp)+
  then show ?thesis by simp
qed

interpretation fake: trusted_client "fake_env hex_crypto ''2024-01-02T03:04:05Z'' x" test_client fst snd
  "\<lambda>c. c" "\<lambda>st. st" fake_arrives
proof
  let ?e = "fake_env hex_crypto ''2024-01-02T03:04:05Z'' x"
  show "\<exists>response n'. send_request ?e meth u body n = (Inr response, n') \<and> n' = st \<and> shows_answer ?e r (meth = HEAD) response"
    if "body_length body < 2 ^ 64"
      "serve_request (crypto_ops ?e) (fake_arrives meth u body) (body_bytes (\<lambda>c. c) body) n = (Answers r closing, tail, st)"
    for meth u body n r closing tail st
    using that fake_shows by (simp add: fake_env_def fake_send_def)
qed (auto simp: fake_env_def fake_send_def fake_framing wire_path_clean hex_crypto_text sample_clock raw_ending_def
    test_client_def client_in_region_def new_client_def no_separator_def ACCESS_KEY_def SECRET_KEY_def
    fake_arrives_def [THEN arg_cong [of _ _ rq_method]] fake_arrives_def [THEN arg_cong [of _ _ rq_target]])

section \<open>Properties\<close>

text \<open>
  C5: the server finds every signature valid. Whatever calls a client with the server's
  secret makes, in whatever order, and whatever the server has queued or armed: it records
  nothing but requests whose body came whole with a signature that its own check, made from
  the request as it arrived, accepts, and requests it cut off itself. So no key, prefix,
  token, region or payload can make the client sign something else than it sends.
\<close>

theorem server_verifies_every_request:
  assumes "trusted_client e s3 target_of headers_of contents store arrives"
  shows "\<exists>more. captured (store (net (snd (run_calls e s3 calls w)))) = captured (store (net w)) @ more
    \<and> list_all (\<lambda>c. body_complete c \<longrightarrow> signature_valid c) more"
  using trusted_client.calls_checked [OF assms, of w calls] by (simp add: adds_checked_def)

theorem server_verifies_every_request_witness:
  "list_all (\<lambda>c. body_complete c \<longrightarrow> signature_valid c)
     (captured (net (snd (run_calls (fake_env hex_crypto ''2024-01-02T03:04:05Z'' cursor_reader) test_client
       [Upload ''b'' ''a key'' ''hi'' 30, DeleteFile ''b'' ''a key''] \<lparr>net = start_server, console = []\<rparr>))))"
  using server_verifies_every_request [OF fake.trusted_client_axioms [of cursor_reader],
      of "[Upload ''b'' ''a key'' ''hi'' 30, DeleteFile ''b'' ''a key'']" "\<lparr>net = start_server, console = []\<rparr>"]
  by (simp add: start_server_def)

text \<open>
  C6: an upload that is \<open>Ok\<close> is stored, under its own path and with its very bytes, and
  nothing else is touched; one that fails has stored either that or nothing; and a server
  that has nothing else to say accepts it. For both kinds of upload (a streamed one whose
  body is as long as it says), and whatever the server has queued or armed, short of
  answering with a 2xx before it has read the request.
\<close>

theorem uploads_are_stored:
  assumes "trusted_client e s3 target_of headers_of contents store arrives"
    and "upload = upload_object e s3 bucket k content t \<and> length content < 2 ^ 64
      \<or> upload = upload_streamed e s3 bucket k c len t \<and> content = take len (contents c)
        \<and> len \<le> length (contents c) \<and> len < 2 ^ 64"
    and "no_early_success (store (net w))" "upload w = (res, w')"
  shows "let path = url_path (target_of (object_url e s3 bucket k));
      stored = (map_of (uploaded (store (net w))))(path \<mapsto> content);
      after = map_of (uploaded (store (net w')))
    in (res = Inr () \<longrightarrow> after = stored) \<and> (after = map_of (uploaded (store (net w))) \<or> after = stored)
      \<and> (quiet (store (net w)) \<longrightarrow> res = Inr ())"
proof -
  define url0 where "url0 = (if upload = upload_object e s3 bucket k content t \<and> length content < 2 ^ 64
    then with_retries (url_ops e) 3 (set_timeout (url_ops e) t (object_url e s3 bucket k))
    else set_timeout (url_ops e) t (object_url e s3 bucket k))"
  define body where "body = (if upload = upload_object e s3 bucket k content t \<and> length content < 2 ^ 64
    then RawData content None else Streamed c len)"
  have c: "client_url (url_ops e) s3 url0" unfolding url0_def by (auto intro!: client_url.intros)
  have t: "target_of url0 = target_of (object_url e s3 bucket k)"
    using trusted_client.axioms(1) [OF assms(1), THEN fake_wire.axioms(1)]
    by (simp add: url0_def url_contract.timeout url_contract.retries)
  have run: "io_bind (signed_with_hash e s3 url0 ''PUT'' (payload_hash (crypto_ops e) body))
      (\<lambda>url. io_bind (send e s3 PUT url body) (\<lambda>response. expect_success e s3 response)) w = (res, w')"
    using assms(2,4)
    by (auto simp: url0_def body_def upload_object_def upload_streamed_def send_put_def send_put_streamed_def
        signed_def signed_with_hash_def sign_request_def UNSIGNED_PAYLOAD_def Let_def io_bind_def)
  have b: "body_length body < 2 ^ 64" "body_length body \<le> length (body_bytes contents body)"
    "take (body_length body) (body_bytes contents body) = content"
    using assms(2) by (auto simp: body_def)
  show ?thesis
    using trusted_client.put_upload [OF assms(1) c b(1,2) assms(3) run]
      trusted_client.put_accepted [OF assms(1) c b(1), of w] run
    by (auto simp: Let_def b(3) t)
qed

theorem uploads_are_stored_witness:
  "\<exists>w'. upload_object (fake_env hex_crypto ''2024-01-02T03:04:05Z'' cursor_reader) test_client ''b'' ''k'' ''hi'' 30
      \<lparr>net = start_server, console = []\<rparr> = (Inr (), w') \<and> uploaded_object ''b'' ''k'' (net w') = Some ''hi''"
proof -
  let ?e = "fake_env hex_crypto ''2024-01-02T03:04:05Z'' cursor_reader"
  let ?w = "\<lparr>net = start_server, console = []\<rparr>"
  obtain res w' where run: "upload_object ?e test_client ''b'' ''k'' ''hi'' 30 ?w = (res, w')" by fastforce
  have st: "no_early_success (net ?w)" "quiet (net ?w)"
    by (simp_all add: no_early_success_def quiet_def start_server_def)
  have path: "url_path (fst (object_url ?e test_client ''b'' ''k'')) = object_path ''b'' ''k''"
  proof -
    have "encode_path ''b'' = ''b''" "encode_path ''k'' = ''k''" by code_simp+
    then show ?thesis by (simp add: fake_env_def object_path_def)
  qed
  let ?upload = "upload_object ?e test_client ''b'' ''k'' ''hi'' 30"
  have "?upload = upload_object ?e test_client ''b'' ''k'' ''hi'' 30 \<and> length ''hi'' < 2 ^ 64
      \<or> ?upload = upload_streamed ?e test_client ''b'' ''k'' [] 0 30 \<and> ''hi'' = take 0 [] \<and> 0 \<le> length [] \<and> 0 < 2 ^ 64"
    by simp
  from uploads_are_stored [OF fake.trusted_client_axioms [of cursor_reader] this st(1) run] st(2) run show ?thesis
    by (simp add: Let_def path uploaded_object_def)
qed

text \<open>
  C7: an object the server holds is read as it is. Opening a reader asks for its size and
  gets it; a download gives its bytes; a range gives the bytes of that range, up to the end
  of the object, a range that starts behind the end \<open>RangeNotSatisfiable\<close>, and one whose
  end is before its start is an error before anything is sent. None of it changes the object.
\<close>

theorem held_objects_are_read:
  assumes "trusted_client e s3 target_of headers_of contents store arrives"
    and "path = url_path (target_of (object_url e s3 bucket k))" "holds (store (net w)) path content"
  shows "(\<exists>w'. open_reader e s3 bucket k w = (Inr (new_reader s3 bucket k (of_nat (length content))), w')
      \<and> holds (store (net w')) path content)
    \<and> (\<exists>stream w' s'. download_file e s3 bucket k w = (Inr stream, w') \<and> holds (store (net w')) path content
      \<and> read_to_end (body_next_item e) [] stream = Some (Inr content, s'))
    \<and> (\<exists>res w'. download_file_range e s3 bucket k start (Some stop) w = (res, w') \<and> holds (store (net w')) path content
      \<and> (if stop < start then res = Inl (invalid_range start stop) \<and> w' = w
         else if length content \<le> unat start then res = Inl RangeNotSatisfiable
         else \<exists>stream s'. res = Inr stream \<and> read_to_end (body_next_item e) [] stream =
           Some (Inr (piece (unat start) (min (unat stop) (length content - 1) + 1 - unat start) content), s')))"
proof -
  note held = assms(3) [unfolded assms(2)]
  obtain w' where "get_object_size e s3 bucket k w = (Inr (of_nat (length content)), w')" "holds (store (net w')) path content"
    using trusted_client.held_size [OF assms(1) held] assms(2) by blast
  then have "open_reader e s3 bucket k w = (Inr (new_reader s3 bucket k (of_nat (length content))), w')
      \<and> holds (store (net w')) path content"
    by (simp add: open_reader_def io_bind_def io_result_def)
  moreover have "\<exists>res w'. download_file_range e s3 bucket k start (Some stop) w = (res, w') \<and> holds (store (net w')) path content
      \<and> (if stop < start then res = Inl (invalid_range start stop) \<and> w' = w
         else if length content \<le> unat start then res = Inl RangeNotSatisfiable
         else \<exists>stream s'. res = Inr stream \<and> read_to_end (body_next_item e) [] stream =
           Some (Inr (piece (unat start) (min (unat stop) (length content - 1) + 1 - unat start) content), s'))"
  proof (cases "stop < start")
    case True
    then show ?thesis using assms(3) by (simp add: download_file_range_def io_result_def)
  next
    case False
    then have "start \<le> stop" by (simp add: not_less)
    then show ?thesis
      unfolding assms(2) if_not_P [OF False] by (rule trusted_client.held_range [OF assms(1) held])
  qed
  ultimately show ?thesis using trusted_client.held_whole [OF assms(1) held] assms(2) by blast
qed

theorem held_objects_are_read_witness:
  "\<exists>res w' stream s'. download_file_range (fake_env hex_crypto ''2024-01-02T03:04:05Z'' cursor_reader) test_client ''b'' ''k''
      1 (Some 9) \<lparr>net = put_object ''b'' ''k'' ''hello'' start_server, console = []\<rparr> = (res, w')
    \<and> res = Inr stream \<and> read_to_end list_body [] stream = Some (Inr ''ello'', s')"
proof -
  let ?e = "fake_env hex_crypto ''2024-01-02T03:04:05Z'' cursor_reader"
  let ?w = "\<lparr>net = put_object ''b'' ''k'' ''hello'' start_server, console = []\<rparr>"
  have "encode_path ''b'' = ''b''" "encode_path ''k'' = ''k''" by code_simp+
  then have path: "object_path ''b'' ''k'' = url_path (fst (object_url ?e test_client ''b'' ''k''))"
    by (simp add: fake_env_def object_path_def)
  have held: "holds (net ?w) (object_path ''b'' ''k'') ''hello''"
    by (simp add: holds_def quiet_def put_object_def start_server_def)
  have body: "body_next_item ?e = list_body" by (simp add: fake_env_def)
  have got: "piece (unat (1 :: u64)) (min (unat (9 :: u64)) (length ''hello'' - 1) + 1 - unat (1 :: u64)) ''hello'' = ''ello''"
    and "\<not> (9 :: u64) < 1" "\<not> length ''hello'' \<le> unat (1 :: u64)" by code_simp+
  then show ?thesis
    using held_objects_are_read [OF fake.trusted_client_axioms [of cursor_reader] path held, of 1 9]
    unfolding got body by (auto simp only: if_False)
qed

end
