(* ===== verification/Started_Uploads.thy ===== *)
theory Started_Uploads
  imports S3_Client Listing_Documents
begin

text \<open>
  \<open>start_upload\<close> of \<^verbatim>\<open>src/s3_client.rs\<close>: the task it spawns, and whole sessions in which the
  writer's calls, the polls of the task, the chunks its request receives and a drop of the
  handle (\<^verbatim>\<open>src/upload_handle.rs\<close>) come in any order.

  The task is the source's \<open>async move\<close> block with what it captures. It calls the client's
  \<open>upload_streamed\<close> itself: the request starts in the world of the poll that gets past
  \<open>body_started\<close>, and when it is answered its result is that of \<open>upload_streamed\<close> in that world,
  for the captured object, with the chunks received so far as the body.
\<close>

section \<open>Definitions\<close>

record task_captures =
  task_client :: S3Client
  task_bucket_name :: bytes
  task_key :: bytes
  task_content_length :: nat
  task_upload_timeout :: nat

definition ended_short :: "bytes \<Rightarrow> bytes \<Rightarrow> S3Error" where
  "ended_short bucket k =
     Other (''the body of '' @ bucket @ ''/'' @ k @ '' ended short before its request was started'')"

text \<open>
  One poll of the block in the world \<open>w\<close>. \<open>answered\<close> is whether the network lets the request
  come to its end in this poll, \<open>body\<close> what it has received by then.
\<close>

definition poll_task ::
  "('u, 'b, bytes list, 'r, 'n) env \<Rightarrow> task_captures \<Rightarrow> bytes list \<Rightarrow> 'n world \<Rightarrow> bool \<Rightarrow> UploadWriterState
   \<Rightarrow> 'n world task_stage \<Rightarrow> 'n world task_stage"
where
  "poll_task e c body w answered st t =
     (case t of
        AwaitingBody \<Rightarrow>
          if \<not> body_started st then AwaitingBody
          else if body_ended st \<and> short_body_error st \<noteq> None then
            TaskEnded (Inl (ended_short (task_bucket_name c) (task_key c)))
          else Requesting w
      | Requesting w0 \<Rightarrow>
          if \<not> answered then Requesting w0
          else TaskEnded (fst (upload_streamed e (task_client c) (task_bucket_name c) (task_key c) body
                 (task_content_length c) (task_upload_timeout c) w0))
      | _ \<Rightarrow> t)"

text \<open>What the runtime does when it gets to the task: it cancels one that was aborted, or polls it.\<close>

definition run_task ::
  "('u, 'b, bytes list, 'r, 'n) env \<Rightarrow> task_captures \<Rightarrow> bytes list \<Rightarrow> 'n world \<Rightarrow> bool \<Rightarrow> UploadWriterState
   \<Rightarrow> 'n world upload_task \<Rightarrow> 'n world upload_task"
where
  "run_task e c body w answered st task =
     (if is_finished task then task
      else if abort_scheduled task then task\<lparr>stage := TaskAborted\<rparr>
      else task\<lparr>stage := poll_task e c body w answered st (stage task)\<rparr>)"

record 'w upload_session =
  sess_run :: upload_run
  captures :: task_captures
  upload_job :: "'w upload_task"
  handle :: S3UploadHandle
  requested :: bool      \<comment> \<open>whether the request has been started\<close>

datatype 'n session_event =
    Body upload_event
  | PollTask "'n world" bool
  | DropHandle

abbreviation shared_state :: "'w upload_session \<Rightarrow> UploadWriterState" where
  "shared_state s \<equiv> state (up (sess_run s))"

abbreviation set_shared :: "UploadWriterState \<Rightarrow> 'w upload_session \<Rightarrow> 'w upload_session" where
  "set_shared st s \<equiv> s\<lparr>sess_run := (sess_run s)\<lparr>up := (up (sess_run s))\<lparr>state := st\<rparr>\<rparr>\<rparr>"

definition is_requesting :: "'w task_stage \<Rightarrow> bool" where
  "is_requesting t = (case t of Requesting _ \<Rightarrow> True | _ \<Rightarrow> False)"

text \<open>The receiver is inside the task: only a request that is running receives.\<close>

definition body_step_of :: "'w task_stage \<Rightarrow> upload_run \<Rightarrow> upload_event \<Rightarrow> upload_run" where
  "body_step_of t run ev =
     (case ev of
        Receive \<Rightarrow> if is_requesting t then upload_step run Receive else run
      | _ \<Rightarrow> upload_step run ev)"

fun session_step ::
  "('u, 'b, bytes list, 'r, 'n) env \<Rightarrow> 'n world upload_session \<Rightarrow> 'n session_event \<Rightarrow> 'n world upload_session"
where
  "session_step e s (Body ev) = s\<lparr>sess_run := body_step_of (stage (upload_job s)) (sess_run s) ev\<rparr>"
| "session_step e s (PollTask w answered) =
     (let task = run_task e (captures s) (received_body (sess_run s)) w answered (shared_state s) (upload_job s)
      in s\<lparr>upload_job := task, requested := requested s \<or> is_requesting (stage task)\<rparr>)"
| "session_step e s DropHandle =
     (let (st, task) = drop_handle (shared_state s) (upload_job s)
      in (set_shared st s)\<lparr>upload_job := task\<rparr>)"

text \<open>\<open>start_upload\<close>, for any chunk size; nothing below depends on which one it is.\<close>

definition start_session ::
  "S3Client \<Rightarrow> bytes \<Rightarrow> bytes \<Rightarrow> nat \<Rightarrow> nat \<Rightarrow> nat \<Rightarrow> 'w upload_session"
where
  "start_session s3 bucket k len upload_timeout csize =
     \<lparr>sess_run = start_run bucket k (of_nat len) csize,
      captures = \<lparr>task_client = s3, task_bucket_name = bucket, task_key = k, task_content_length = len,
                  task_upload_timeout = upload_timeout\<rparr>,
      upload_job = \<lparr>stage = AwaitingBody, abort_scheduled = False\<rparr>,
      handle = new_handle bucket k, requested = False\<rparr>"

definition start_upload :: "S3Client \<Rightarrow> bytes \<Rightarrow> bytes \<Rightarrow> nat \<Rightarrow> nat \<Rightarrow> 'w upload_session" where
  "start_upload s3 bucket k len upload_timeout =
     start_session s3 bucket k len upload_timeout DEFAULT_UPLOAD_CHUNK_SIZE"

section \<open>What a session keeps\<close>

text \<open>The request of an answered task carried what has been received of this body.\<close>

definition answered_with ::
  "('u, 'b, bytes list, 'r, 'n) env \<Rightarrow> task_captures \<Rightarrow> bytes list \<Rightarrow> (unit, S3Error) result \<Rightarrow> bool"
where
  "answered_with e c body r \<longleftrightarrow>
     (\<exists>w. fst (upload_streamed e (task_client c) (task_bucket_name c) (task_key c) body
       (task_content_length c) (task_upload_timeout c) w) = r)"

definition session_inv ::
  "('u, 'b, bytes list, 'r, 'n) env \<Rightarrow> 'n world upload_session \<Rightarrow> nat \<Rightarrow> 'n world upload_session \<Rightarrow> bool"
where
  "session_inv e s0 csize s \<longleftrightarrow>
     captures s = captures s0 \<and> handle s = handle s0
     \<and> run_of (task_bucket_name (captures s)) (task_key (captures s)) (of_nat (task_content_length (captures s)))
         csize (sess_run s)
     \<and> received (sess_run s) \<le> length (channel (up (sess_run s)))
     \<and> (stage (upload_job s) = AwaitingBody \<longrightarrow> \<not> requested s)
     \<and> (is_requesting (stage (upload_job s)) \<longrightarrow> requested s)
     \<and> (stage (upload_job s) = TaskEnded (Inr ()) \<longrightarrow>
          requested s \<and> answered_with e (captures s) (received_body (sess_run s)) (Inr ()))
     \<and> (requested s \<longrightarrow> body_started (shared_state s))"

lemma body_started_stays:
  assumes "body_started (state (up s))"
  shows "body_started (state (up (upload_step s e)))"
proof -
  have drive: "drive_send r c u = (a, u') \<Longrightarrow> body_started (state u) \<Longrightarrow> body_started (state u')"
    for r c u a u'
    by (auto simp: drive_send_def poll_send_def upload_is_gone_def split: reserve_answer.splits)
  have pending: "body_started (state u) \<Longrightarrow> poll_pending r u = (a, u') \<Longrightarrow> body_started (state u')"
    for r u a u'
    by (auto simp: poll_pending_def split: option.splits dest!: drive)
  have starts: "body_started (state u) \<Longrightarrow> start_send r c u = (a, u') \<Longrightarrow> body_started (state u')"
    for r c u a u'
    by (auto simp: start_send_def mark_body_started_def split: if_splits dest!: drive)
  have take: "body_started (state u')" if "body_started (state u)" "take_bytes r c u = (a, u')" for r c u a u'
    using starts [OF _ prod.collapse [symmetric]] that take_bytes_snd [of r c u]
    by (auto simp: Let_def split: if_splits)
  have flush: "body_started (state u) \<Longrightarrow> poll_flush r u = (a, u') \<Longrightarrow> body_started (state u')"
    for r u a u'
    by (auto simp: poll_flush_def upload_is_gone_def dest: pending dest!: starts [rotated]
        split: prod.splits poll.splits sum.splits if_splits)
  show ?thesis
    using assms
    by (cases e)
      (auto simp: poll_write_def poll_shutdown_def drop_writer_def Let_def mark_body_ended_def
        mark_upload_ended_def upload_is_gone_def dest: pending take flush
        split: prod.split poll.split sum.split, metis flush prod.collapse)
qed

lemma run_of_mark_ended:
  "run_of b k len c s \<Longrightarrow> run_of b k len c (s\<lparr>up := (up s)\<lparr>state := mark_upload_ended (state (up s))\<rparr>\<rparr>)"
  using named.step_inv [of b k len c s UploadEnds] by simp

lemma body_step_of_cases:
  obtains "body_step_of t run ev = upload_step run ev" "is_requesting t \<or> (case ev of Receive \<Rightarrow> False | _ \<Rightarrow> True)"
  | "body_step_of t run ev = run"
  by (cases ev; cases "is_requesting t") (auto simp: body_step_of_def)

lemma session_step_inv: "session_inv e s0 csize s \<Longrightarrow> session_inv e s0 csize (session_step e s ev)"
proof (cases ev)
  case (Body x)
  assume inv: "session_inv e s0 csize s"
  then have b: "body_inv (sess_run s)" by (simp add: session_inv_def run_of_def)
  show ?thesis
  proof (cases rule: body_step_of_cases [of "stage (upload_job s)" "sess_run s" x])
    case 1
    with Body inv show ?thesis
      using named.step_inv [of _ _ _ csize "sess_run s" x] body_started_stays [of "sess_run s" x]
        upload_step_received [OF b, of x]
      by (auto simp: session_inv_def is_requesting_def split: task_stage.splits)
  next
    case 2
    with Body inv show ?thesis by (auto simp: session_inv_def)
  qed
next
  case (PollTask w a)
  assume "session_inv e s0 csize s"
  with PollTask show ?thesis
    by (auto simp: session_inv_def run_task_def poll_task_def is_finished_def is_requesting_def Let_def
        answered_with_def split: task_stage.splits if_splits)
next
  case DropHandle
  assume "session_inv e s0 csize s"
  with DropHandle show ?thesis
    using run_of_mark_ended [of _ _ _ csize "sess_run s"]
    by (auto simp: session_inv_def drop_handle_def is_finished_def abort_def mark_upload_ended_def
        received_body_def is_requesting_def split: task_stage.splits)
qed

interpretation session: transition_system
  "\<lambda>s. s = start_session s3 b k len t csize" "session_step e" "\<lambda>_ _. True"
  "session_inv e (start_session s3 b k len t csize) csize"
proof
  show "session_inv e (start_session s3 b k len t csize) csize s" if "s = start_session s3 b k len t csize" for s
    using that named.start_inv [of "start_run b k (of_nat len) csize" b k "of_nat len" csize]
    by (simp add: session_inv_def start_session_def is_requesting_def start_run_def)
qed (rule session_step_inv)

lemma reachable_session:
  "session_inv e (start_session s3 b k len t csize) csize
     (run_steps (session_step e) (start_session s3 b k len t csize) es)"
  by (rule session.run_from_start) (auto intro: steps_ok_always)

lemma start_session_sel [simp]:
  "captures (start_session s3 b k len t csize) =
     \<lparr>task_client = s3, task_bucket_name = b, task_key = k, task_content_length = len, task_upload_timeout = t\<rparr>"
  "handle (start_session s3 b k len t csize) = new_handle b k"
  by (simp_all add: start_session_def)

lemma reachable_run:
  "run_of b k (of_nat len) csize (sess_run (run_steps (session_step e) (start_session s3 b k len t csize) es))"
proof -
  note inv = reachable_session [of e s3 b k len t csize es, unfolded session_inv_def]
  then have "captures (run_steps (session_step e) (start_session s3 b k len t csize) es) =
      \<lparr>task_client = s3, task_bucket_name = b, task_key = k, task_content_length = len, task_upload_timeout = t\<rparr>"
    by simp
  with inv show ?thesis by simp
qed

text \<open>Once the body has ended, what is counted as sent is final.\<close>

lemma closed_body_final:
  assumes inv: "body_inv s" and ended: "body_ended (state (up s))"
  shows "body_ended (state (up (upload_step s e))) \<and> sent (state (up (upload_step s e))) = sent (state (up s))
    \<and> st_content_length (state (up (upload_step s e))) = st_content_length (state (up s))"
proof -
  have "upload_wf (up s)" using inv by (simp add: body_inv_def in_step_def)
  then have "\<not> sender (writer (up s))" "w_pending (writer (up s)) = None" "buffer (writer (up s)) = []"
    using ended by (auto simp: upload_wf_def flags_wf_def held_def)
  moreover have "poll_pending r (up s) = (Ready (Inr ()), up s)" for r
    using calculation(2) by (simp add: poll_pending_def)
  ultimately show ?thesis
    using ended
    by (cases e)
      (auto simp: poll_write_def poll_flush_def poll_shutdown_def upload_is_gone_def drop_writer_def
        Let_def mark_upload_ended_def)
qed

definition settled_short :: "'w upload_session \<Rightarrow> bool" where
  "settled_short s \<longleftrightarrow>
     body_inv (sess_run s) \<and> body_ended (shared_state s) \<and> short_body_error (shared_state s) \<noteq> None
     \<and> \<not> is_requesting (stage (upload_job s)) \<and> \<not> requested s"

lemma short_body_error_None: "short_body_error st = None \<longleftrightarrow> st_content_length st \<le> sent st"
  by (simp add: short_body_error_def Let_def)

lemma settled_short_step: "settled_short s \<Longrightarrow> settled_short (session_step e s ev)"
proof (cases ev)
  case (Body x)
  assume "settled_short s"
  with Body show ?thesis
    using closed_body_final [of "sess_run s" x] upload_step_inv [of "sess_run s" x]
    by (cases rule: body_step_of_cases [of "stage (upload_job s)" "sess_run s" x])
      (simp_all add: settled_short_def short_body_error_None)
next
  case (PollTask w a)
  assume "settled_short s"
  with PollTask show ?thesis
    by (auto simp: settled_short_def run_task_def poll_task_def is_requesting_def Let_def
        split: task_stage.splits)
next
  case DropHandle
  assume "settled_short s"
  with DropHandle show ?thesis
    using upload_step_inv [of "sess_run s" UploadEnds]
    by (auto simp: settled_short_def drop_handle_def short_body_error_None mark_upload_ended_def abort_def)
qed

interpretation short_session: transition_system settled_short "session_step e" "\<lambda>_ _. True" settled_short
  by unfold_locales (auto intro: settled_short_step)

text \<open>An upload that has ended stays ended, and takes nothing more.\<close>

lemma upload_over_step:
  assumes inv: "body_inv s" and over: "upload_ended (state (up s))"
  shows "upload_ended (state (up (upload_step s ev))) \<and> written (upload_step s ev) = written s"
proof -
  have wf: "upload_wf (up s)" using inv by (simp add: body_inv_def in_step_def)
  have flushes: "upload_ended (state u')" if "poll_flush reserve (up s) = (r, u')" for reserve r u'
  proof -
    consider "r = Pending" | e where "r = Ready (Inl e)" | x where "r = Ready (Inr x)"
      by (metis old.sum.exhaust poll.exhaust)
    then show ?thesis
      using that over poll_flush_Pending(4) [OF wf, of reserve u'] poll_flush_err(3) [OF wf, of reserve _ u']
        poll_flush_ok(5) [OF wf, of reserve _ u']
      by cases auto
  qed
  show ?thesis
  proof (cases ev)
    case (Write reserve buf)
    obtain r u' where p: "poll_write reserve buf (up s) = (r, u')" by (cases "poll_write reserve buf (up s)")
    consider "r = Pending" | e where "r = Ready (Inl e)" | n where "r = Ready (Inr n)"
      by (metis old.sum.exhaust poll.exhaust)
    then have "upload_ended (state u') \<and> taken r buf = []"
    proof cases
      case 1
      then show ?thesis using p poll_write_Pending [of reserve buf "up s" u'] over by (simp add: taken_def)
    next
      case (2 e)
      then show ?thesis using poll_write_err(5) [OF wf p [unfolded 2] over] by (simp add: taken_def)
    next
      case (3 n)
      note ok = poll_write_ok [OF wf p [unfolded 3]]
      then show ?thesis using 3 over by (cases n) (simp_all add: taken_def)
    qed
    then show ?thesis using Write p by simp
  next
    case (Flush reserve)
    then show ?thesis using flushes [OF prod.collapse [symmetric]] by simp
  next
    case (Shutdown reserve)
    obtain r u' where p: "poll_shutdown reserve (up s) = (r, u')" by (cases "poll_shutdown reserve (up s)")
    have "upload_ended (state u')"
    proof (cases "sender (writer (up s))")
      case False
      then show ?thesis using p over by (auto simp: poll_shutdown_def)
    next
      case True
      from True p show ?thesis
        by (cases rule: poll_shutdown_flush) (use flushes in \<open>auto simp: mark_body_ended_def\<close>)
    qed
    then show ?thesis using Shutdown p by simp
  qed (use over in \<open>auto simp: drop_writer_def Let_def mark_body_ended_def mark_upload_ended_def\<close>)
qed

text \<open>A session whose handle has been dropped in the state \<open>s0\<close>, while the upload was running.\<close>

definition handle_dropped :: "'w upload_session \<Rightarrow> 'w upload_session \<Rightarrow> bool" where
  "handle_dropped s0 s \<longleftrightarrow>
     body_inv (sess_run s) \<and> upload_ended (shared_state s) \<and> written (sess_run s) = written (sess_run s0)
     \<and> abort_scheduled (upload_job s) \<and> stage (upload_job s) \<in> {stage (upload_job s0), TaskAborted}
     \<and> (requested s \<longleftrightarrow> requested s0)"

lemma run_aborted:
  assumes "abort_scheduled task" "\<not> is_finished task \<or> stage task = TaskAborted"
  shows "run_task e c body w a st task = task\<lparr>stage := TaskAborted\<rparr>"
  using assms by (cases task) (auto simp: run_task_def is_finished_def)

lemma handle_dropped_step:
  assumes unfinished: "\<not> is_finished (upload_job s0)" and d: "handle_dropped s0 s"
  shows "handle_dropped s0 (session_step e s ev)"
proof (cases ev)
  case (Body x)
  with d show ?thesis
    using upload_over_step [of "sess_run s" x] upload_step_inv [of "sess_run s" x]
    by (cases rule: body_step_of_cases [of "stage (upload_job s)" "sess_run s" x])
      (simp_all add: handle_dropped_def)
next
  case (PollTask w a)
  have "\<not> is_finished (upload_job s) \<or> stage (upload_job s) = TaskAborted"
    using d unfinished by (auto simp: handle_dropped_def is_finished_def)
  with d PollTask show ?thesis
    by (simp add: handle_dropped_def run_aborted is_requesting_def)
next
  case DropHandle
  with d show ?thesis
    using upload_step_inv [of "sess_run s" UploadEnds]
    by (auto simp: handle_dropped_def drop_handle_def abort_def mark_upload_ended_def)
qed

lemma drop_handle_dropped:
  assumes "\<not> is_finished (upload_job s)" "body_inv (sess_run s)"
  shows "handle_dropped s (session_step e s DropHandle)"
  using assms upload_step_inv [of "sess_run s" UploadEnds]
  by (auto simp: handle_dropped_def drop_handle_def abort_def mark_upload_ended_def)

lemma dropped_run:
  assumes "\<not> is_finished (upload_job s)" "handle_dropped s s'"
  shows "handle_dropped s (run_steps (session_step e) s' later)"
  using assms(2)
  by (induction later arbitrary: s') (auto intro: handle_dropped_step [OF assms(1)])

section \<open>Properties\<close>

text \<open>
  \<open>finish\<close> reports success only when every declared byte went into the channel: the chunks
  handed over are exactly the first \<open>Content-Length\<close> bytes the writer took.
\<close>

lemma finish_ok_means_sent:
  assumes run: "run_of b k (of_nat len) csize run" and len: "len < 2 ^ 64"
    and ok: "finish h (state (up run)) (Inr r) = Inr ()"
  shows "r = Inr ()" "concat (channel (up run)) = take len (written run)" "length (concat (channel (up run))) = len"
proof -
  note settled = by_finish.ok_all_sent [OF ok]
  then show "r = Inr ()" by simp
  show "concat (channel (up run)) = take len (written run)" "length (concat (channel (up run))) = len"
    using all_sent_written [OF run len] settled by simp_all
qed

text \<open>
  C2: an upload that was started with \<open>start_upload\<close> and whose \<open>finish\<close> returns \<open>Ok\<close> is a
  stored object. However writes, flushes, shutdowns and drops of the writer, polls of the
  task, chunks received by its request and a drop of the handle interleave, in whatever worlds
  and whatever the network does: exactly \<open>len\<close> bytes went into the channel, the first ones
  written, in order; and the task's own request, the signed \<open>PUT\<close> to this bucket and key with
  this \<open>Content-Length\<close> and timeout, whose body is what it received out of that channel, was
  answered with a 2xx.
\<close>

theorem start_upload_stores:
  assumes "len < 2 ^ 64" and "s = run_steps (session_step e) (start_upload s3 bucket k len t) es"
    and "stage (upload_job s) = TaskEnded r" and "finish (handle s) (shared_state s) (Inr r) = Inr ()"
  shows "concat (channel (up (sess_run s))) = take len (written (sess_run s))
    \<and> length (concat (channel (up (sess_run s)))) = len
    \<and> (\<exists>w url w1 response w2.
         signed_with_hash e s3 (set_timeout (url_ops e) t (object_url e s3 bucket k)) ''PUT'' UNSIGNED_PAYLOAD w
           = (Inr url, w1)
         \<and> send_put_streamed e s3 url (take (received (sess_run s)) (channel (up (sess_run s)))) len w1
           = (Inr response, w2)
         \<and> is_success (rs_status_code response))"
proof -
  note s = assms(2) [unfolded start_upload_def]
  have "run_of bucket k (of_nat len) DEFAULT_UPLOAD_CHUNK_SIZE (sess_run s)" unfolding s by (rule reachable_run)
  note sent = finish_ok_means_sent [OF this assms(1,4)]
  have inv: "session_inv e (start_session s3 bucket k len t DEFAULT_UPLOAD_CHUNK_SIZE) DEFAULT_UPLOAD_CHUNK_SIZE s"
    unfolding s by (rule reachable_session)
  then have "answered_with e (captures s) (received_body (sess_run s)) (Inr ())"
    using assms(3) sent(1) by (auto simp: session_inv_def)
  moreover have "captures s = \<lparr>task_client = s3, task_bucket_name = bucket, task_key = k,
      task_content_length = len, task_upload_timeout = t\<rparr>"
    using inv by (simp add: session_inv_def)
  ultimately obtain w where
    "fst (upload_streamed e s3 bucket k (received_body (sess_run s)) len t w) = Inr ()"
    by (auto simp: answered_with_def)
  then have "upload_streamed e s3 bucket k (received_body (sess_run s)) len t w
      = (Inr (), snd (upload_streamed e s3 bucket k (received_body (sess_run s)) len t w))"
    by (metis prod.collapse)
  from upload_streamed_ok [OF this] show ?thesis using sent unfolding received_body_def by metis
qed

definition stored_session :: "nat session_event list" where
  "stored_session =
     [Body (Write always_room ''abcd''), Body (Shutdown always_room), PollTask fresh False, Body Receive,
      PollTask fresh True]"

lemma stored_session_ends:
  fixes x :: "'r xml_reader"
  defines "s \<equiv> run_steps (session_step (canned_env 200 ''0'' [] x)) (start_upload sample_client ''b'' ''k'' 3 9) stored_session"
  shows "stage (upload_job s) = TaskEnded (Inr ())" "finish (handle s) (shared_state s) (Inr (Inr ())) = Inr ()"
    "received (sess_run s) = 1"
  unfolding s_def stored_session_def
  by (simp_all add: start_upload_def start_session_def start_run_def new_upload_def new_state_def poll_write_def
      poll_pending_def take_bytes_def poll_shutdown_def poll_flush_def start_send_def drive_send_def poll_send_def
      mark_body_started_def mark_body_ended_def DEFAULT_UPLOAD_CHUNK_SIZE_def short_body_error_def poll_task_def
      run_task_def is_finished_def is_requesting_def body_step_of_def finish_def settle_def Let_def canned_upload)

theorem start_upload_stores_witness:
  "let s = run_steps (session_step (canned_env 200 ''0'' [] cursor_reader))
       (start_upload sample_client ''b'' ''k'' 3 9) stored_session
   in length (concat (channel (up (sess_run s)))) = 3 \<and> received (sess_run s) = 1"
proof -
  have "(3 :: nat) < 2 ^ 64" by simp
  from start_upload_stores [OF this refl stored_session_ends(1,2)] stored_session_ends(3)
  show ?thesis unfolding Let_def by blast
qed

text \<open>
  C16: a body that ends short before its request was started never causes one, whatever
  happens afterwards: the task only reports the short body.
\<close>

theorem short_body_never_requested:
  assumes "s = run_steps (session_step e) (start_session s3 b k len t csize) es" and "len < 2 ^ 64"
    and "stage (upload_job s) = AwaitingBody" and "body_ended (shared_state s)"
    and "unat (sent (shared_state s)) < len"
  shows "\<not> requested (run_steps (session_step e) s later)"
proof -
  have inv: "session_inv e (start_session s3 b k len t csize) csize s"
    unfolding assms(1) by (rule reachable_session)
  have run: "run_of b k (of_nat len) csize (sess_run s)" unfolding assms(1) by (rule reachable_run)
  have "unat (of_nat len :: u64) = len" using assms(2) by (simp add: unat_of_nat_no_wrap)
  then have "settled_short s"
    using assms(3-5) inv run_ofD(3) [OF run] run
    by (simp add: settled_short_def short_body_error_None session_inv_def run_of_def is_requesting_def
        word_le_nat_alt not_le)
  then have "settled_short (run_steps (session_step e) s later)"
    by (rule short_session.run_from_start) (auto intro: steps_ok_always)
  then show ?thesis by (simp add: settled_short_def)
qed

theorem short_body_never_requested_witness:
  "\<not> requested (run_steps (session_step (canned_env 200 ''0'' [] cursor_reader))
     (run_steps (session_step (canned_env 200 ''0'' [] cursor_reader)) (start_session sample_client ''b'' ''k'' 3 9 2)
       [Body (Write always_room ''a''), Body DropWriter])
     [PollTask fresh False, PollTask fresh True])"
proof -
  let ?es = "[Body (Write always_room ''a''), Body DropWriter]"
  let ?s = "run_steps (session_step (canned_env 200 ''0'' [] cursor_reader)) (start_session sample_client ''b'' ''k'' 3 9 2) ?es"
  have "(3 :: nat) < 2 ^ 64" by simp
  moreover have "stage (upload_job ?s) = AwaitingBody" "body_ended (shared_state ?s)"
    "unat (sent (shared_state ?s)) < 3"
    by code_simp+
  ultimately show ?thesis
    by (rule short_body_never_requested [OF refl])
qed

text \<open>
  C17: dropping the handle of an upload that is still running ends it for good. From then on,
  after any further events (calls of the writer that wait or are refused, polls, received
  chunks) and whatever the channel says: every ready non-empty write and every ready flush
  and shutdown of the open writer fails with \<open>BrokenPipe\<close>, no byte is taken any more, no
  request is started that was not running at the drop, the task ends in nothing but its
  cancellation, and the next time the runtime gets to it it is cancelled.
\<close>

theorem dropped_handle_stops_writer:
  assumes "s = run_steps (session_step e) (start_session s3 b k len t csize) es"
    and "\<not> is_finished (upload_job s)"
    and "s' = run_steps (session_step e) (session_step e s DropHandle) later" and "buf \<noteq> []"
  shows "written (sess_run s') = written (sess_run s) \<and> requested s' = requested s
    \<and> stage (upload_job s') \<in> {stage (upload_job s), TaskAborted}
    \<and> stage (upload_job (session_step e s' (PollTask w answered))) = TaskAborted
    \<and> (sender (writer (up (sess_run s'))) \<longrightarrow>
        (\<forall>r u. poll_write reserve buf (up (sess_run s')) = (Ready r, u) \<longrightarrow>
           (\<exists>e. r = Inl e \<and> io_error_kind_of e = BrokenPipe))
        \<and> (\<forall>r u. poll_flush reserve (up (sess_run s')) = (Ready r, u) \<longrightarrow>
           (\<exists>e. r = Inl e \<and> io_error_kind_of e = BrokenPipe))
        \<and> (\<forall>r u. poll_shutdown reserve (up (sess_run s')) = (Ready r, u) \<longrightarrow>
           (\<exists>e. r = Inl e \<and> io_error_kind_of e = BrokenPipe)))"
proof -
  have "body_inv (sess_run s)"
    using reachable_run [of b k len csize e s3 t es] assms(1) by (simp add: run_of_def)
  then have d: "handle_dropped s s'"
    unfolding assms(3) by (intro dropped_run drop_handle_dropped assms(2))
  then have "handle_dropped s (session_step e s' (PollTask w answered))" by (rule handle_dropped_step [OF assms(2)])
  have over: "upload_wf (up (sess_run s'))" "upload_ended (shared_state s')"
    using d by (simp_all add: handle_dropped_def body_inv_def in_step_def)
  have "\<not> is_finished (upload_job s') \<or> stage (upload_job s') = TaskAborted"
    using d assms(2) by (auto simp: handle_dropped_def is_finished_def)
  then have "stage (upload_job (session_step e s' (PollTask w answered))) = TaskAborted"
    using d by (simp add: handle_dropped_def run_aborted)
  then show ?thesis
    using d write_refused_over [OF over(1) _ over(2) assms(4)] flush_refused_over [OF over]
      shutdown_refused_over [OF over(1) _ over(2)]
    unfolding handle_dropped_def by blast
qed

theorem dropped_handle_stops_writer_witness:
  "let s = run_steps (session_step (canned_env 200 ''0'' [] cursor_reader)) (start_session sample_client ''b'' ''k'' 3 9 2)
             [Body (Write always_room ''a''), DropHandle, Body (Flush always_room), PollTask fresh False]
   in \<exists>e. fst (poll_write always_room ''bc'' (up (sess_run s))) = Ready (Inl e)
        \<and> io_error_kind_of e = BrokenPipe"
proof -
  let ?e = "canned_env 200 ''0'' [] cursor_reader"
  let ?s = "run_steps (session_step ?e) (start_session sample_client ''b'' ''k'' 3 9 2) [Body (Write always_room ''a'')]"
  let ?s' = "run_steps (session_step ?e) (session_step ?e ?s DropHandle) [Body (Flush always_room), PollTask fresh False]"
  let ?p = "poll_write always_room ''bc'' (up (sess_run ?s'))"
  have "\<not> is_finished (upload_job ?s)" "sender (writer (up (sess_run ?s')))" by code_simp+
  with dropped_handle_stops_writer [where buf = "''bc''" and w = fresh and answered = True and reserve = always_room,
      OF refl this(1) refl]
  have refused: "\<exists>e. r = Inl e \<and> io_error_kind_of e = BrokenPipe" if "?p = (Ready r, u)" for r u
    using that by blast
  have "fst ?p \<noteq> Pending" by code_simp
  then obtain r u where p: "?p = (Ready r, u)" by (cases ?p; cases "fst ?p") auto
  from refused [OF this] show ?thesis unfolding Let_def run_steps.simps p [unfolded run_steps.simps] by simp
qed

end
