(* ===== verification/Spec2Isabelle.thy ===== *)
theory Spec2Isabelle
  imports Listing_Tests Fake_S3_Client Started_Uploads
begin

text \<open>
  A model of \<^verbatim>\<open>my-s3\<close>, an asynchronous client for S3 storage in Rust (the crate under
  \<^verbatim>\<open>src/src\<close>), and the theorems that make it correct.

  \<^bold>\<open>The program.\<close> An \<open>S3Client\<close> (\<^verbatim>\<open>s3_client.rs\<close>) builds a url with the crate \<open>FlUrl\<close>,
  signs it with AWS Signature Version 4 (\<^verbatim>\<open>utils.rs\<close>), sends it, and turns the answer into a
  value or an \<open>S3Error\<close> (\<^verbatim>\<open>error.rs\<close>), reading the XML of errors and listings through a
  guarded wrapper of an XML reader (\<^verbatim>\<open>xml.rs\<close>, \<^verbatim>\<open>list_objects.rs\<close>). Objects are downloaded as
  a stream of chunks (\<^verbatim>\<open>download_stream.rs\<close>) or read and sought in like a file
  (\<^verbatim>\<open>reader.rs\<close>, whose reads are ranged \<open>GET\<close>s of the client). They are uploaded whole, from a
  channel, or through a writer (\<^verbatim>\<open>upload_writer.rs\<close>) that cuts what it is given into chunks
  and hands them to the running request; \<open>upload_with_writer\<close> runs a producer against it,
  \<open>start_upload\<close> gives the writer and a handle (\<^verbatim>\<open>upload_handle.rs\<close>) to the caller.

  \<^bold>\<open>The theories\<close>, each on those before it:

  \<^item> \<open>Prelude\<close>: machine types, \<open>Result\<close> and \<open>Poll\<close>, the locales \<open>codec\<close> and
    \<open>transition_system\<close>. \<open>Rust_Std\<close>: what the crate uses of the standard library on bytes
    (UTF-8 validation and lossy decoding, decimal printing and \<open>parse::<u64>\<close>, \<open>trim\<close>,
    \<open>split\<close>, \<open>split_once\<close>, \<open>join\<close>). \<open>Utf8\<close>: which byte lists are Rust strings, and that
    joining them and cutting them at an ASCII byte keeps them so.
  \<^item> \<open>S3_Region\<close> (\<^verbatim>\<open>region.rs\<close>): the enum, \<open>as_str\<close>, \<open>from_str\<close> and the conversions; reading
    and writing a region are inverse.
  \<^item> \<open>S3_Error\<close> (\<^verbatim>\<open>error.rs\<close>): the errors, the predicates on them, \<open>is_retryable\<close>, \<open>Display\<close>.
  \<^item> \<open>Upload_Writer\<close> (\<^verbatim>\<open>upload_writer.rs\<close>): state and operations of the writer, its invariant
    \<open>upload_wf\<close> and what each operation does to the stream of bytes. \<open>Upload_Runs\<close>: any
    sequence of operations on it; the contract of \<open>AsyncWrite\<close> (locales \<open>async_sink\<close>,
    \<open>ready_sink\<close>) with \<open>write_all\<close> over it; the abstract body the writer refines, every answer
    of every poll being a step of it. What goes out is a prefix of what was written, all of it
    after a successful shutdown, never more than \<open>Content-Length\<close>, and at most seven chunks,
    the one the HTTP client is writing included, are held at a time.
  \<^item> \<open>Upload_Handle\<close> (\<^verbatim>\<open>upload_handle.rs\<close>, \<open>finish_upload_with_writer\<close>): the two ways of
    settling an upload as one locale (\<open>settled_upload\<close>); dropping the handle, which marks the
    upload as ended and schedules the abort of the task.
  \<^item> \<open>Sig_V4\<close> (\<^verbatim>\<open>utils.rs\<close>, the struct \<open>S3Client\<close>): encoding, canonical query, timestamp,
    signature.
  \<^item> \<open>Download_Stream\<close> (\<^verbatim>\<open>download_stream.rs\<close>): a body is whole or an error.
    \<open>S3_Reader\<close> (\<^verbatim>\<open>reader.rs\<close>): reads, cancelled reads and seeks in any order; the contract
    of \<open>AsyncRead\<close> (locales \<open>async_source\<close>, \<open>ready_source\<close>) with \<open>read_exact\<close> over it.
  \<^item> \<open>Xml\<close> (\<^verbatim>\<open>xml.rs\<close>): the guard accepts exactly the bodies with balanced tags, so a cut
    document is refused; entities; the walker. \<open>List_Objects\<close> (\<^verbatim>\<open>list_objects.rs\<close>): the
    parser of a listing as a fold over the elements the walker gives.
  \<^item> \<open>Xml_Documents\<close>: document trees, the contract of the XML reader (locale
    \<open>document_reader\<close>) as the comments of \<^verbatim>\<open>xml.rs\<close> state it, and what guard, walker and
    \<open>read_node_text\<close> make of a document under it. \<open>Listing_Documents\<close>: the page that is
    returned is the one the bytes of the document state; every page survives being written
    and parsed, whatever the order of its elements.
  \<^item> \<open>S3_Client\<close> (\<^verbatim>\<open>s3_client.rs\<close>): every operation of the client as a function of the
    outside world; the retry loops as one locale (\<open>retry_loop\<close>). In \<open>upload_with_writer\<close> the
    producer acts on the writer of the very channel the request receives from.
    \<open>Started_Uploads\<close>: \<open>start_upload\<close> and whole sessions of writer, task, request and handle
    interleaved in any way; the task calls \<open>upload_streamed\<close> itself, so that \<open>Ok\<close> means that
    the declared bytes went out and the storage took the \<open>PUT\<close> of this object with them.
    \<open>Client_Answers\<close>: which error a failed answer becomes, which region a location document
    is, and that all strings taken out of answers are valid UTF-8.
    \<open>Client_Calls\<close>: any sequence of calls, compared on two clients (locale \<open>two_clients\<close>):
    every request is signed for what it carries, tracing changes nothing.
  \<^item> \<open>Fake_S3\<close> (\<^verbatim>\<open>tests/fake_s3/mod.rs\<close>): the server the crate is tested against, which
    answers, stores and checks signatures with code of its own. \<open>Signed_Requests\<close>: its check
    accepts what the client signs. \<open>Fake_S3_Client\<close>: client and server together, over an HTTP
    client that keeps its contract (locales \<open>url_contract\<close>, \<open>fake_wire\<close>, \<open>trusted_client\<close>): every
    request of every sequence of calls is found valid, uploads are stored, objects are read.
  \<^item> \<open>Unit_Tests\<close>, \<open>Answer_Tests\<close>, \<open>Listing_Tests\<close>: the crate's unit tests as definitions,
    and that they pass on the model, those that read XML for every reader under the contract.
  \<^item> This theory: what the parts do together. The reader on top of the client on top of HTTP
    delivers the object's bytes; an upload through a writer that is \<open>Ok\<close> is a stored object;
    a download and a listing are whole or an error.

  \<^bold>\<open>How the code is represented.\<close> A struct is a record and an enum a datatype with the
  source's names (prefixed where several share a field name). An operation on \<open>&mut self\<close>
  returns the new value; an \<open>async\<close> or \<open>poll_*\<close> function returns \<open>Pending\<close> or \<open>Ready\<close> as one
  poll of it does, so that interleavings are sequences of polls. The fields shared through an
  \<open>Arc\<close> (\<open>UploadWriterState\<close>) are one record both sides act on; the atomics are read and
  written between awaits only, in the order of the steps. Lengths and offsets that can wrap
  are \<open>64 word\<close>s, \<open>i64\<close> is a \<open>64 word\<close> read with \<open>sint\<close>, \<open>usize\<close> is a natural number
  where the code only compares and subtracts it. Numbers are checked when they are parsed.

  \<^bold>\<open>What is an argument.\<close> The HTTP client \<open>FlUrl\<close> (building urls, sending, its errors, the
  body on the socket), the cryptographic primitives, the clock, the XML reader, tokio's
  channel (through the answers of \<open>reserve\<close>), when its runtime gets to a task, and the caller's
  closures (through what they do with their writer). Theorems
  that need something of them say it as a hypothesis (\<open>serves\<close>, \<open>url_contract\<close>, \<open>document_reader\<close>,
  \<open>trusted_client\<close>, \<open>delivers\<close>, \<open>bounded_channel\<close>), and each has a witness with a concrete instance.

  \<^bold>\<open>Loops.\<close> Loops over data are structural recursions or have a measure. Loops that run as
  long as the outside delivers (\<open>read_to_end\<close>, \<open>collect_range\<close>, the loops over XML nodes) are
  \<open>partial_function (option)\<close>, \<open>None\<close> being a loop that does not end; for bodies and documents
  that end, that they return is part of the theorems. No fuel is used.

  \<^bold>\<open>Not modelled.\<close> How the standard library lays out a \<open>Debug\<close> text (the fields it is
  given are), the derived \<open>Debug\<close>s, \<open>Error::source\<close>, the module list of \<^verbatim>\<open>lib.rs\<close>, the
  two unit tests that pin SHA-256 and HMAC (arguments here), the integration tests (single
  runs of the client against \<open>Fake_S3\<close>; the properties of the two together speak of all runs)
  and README; the panic of \<open>start_upload\<close> outside a tokio runtime, the wake-ups of tokio (that
  a task which can go on is polled again), and the order of memory accesses between threads.
\<close>

section \<open>A reader over HTTP\<close>

text \<open>
  The storage, as the HTTP client shows it: it has an object at every path it knows
  (\<open>store\<close>). A signed \<open>GET\<close> of a path with the header \<open>Range: bytes=i-j\<close> whose answer is a
  \<open>206\<close> with a body that comes to its end and has the length that was asked for has brought
  the bytes \<open>i\<close> to \<open>j\<close> of the object at that path. Requests may fail, bodies may break off, be
  short, be too long or never end; of requests that are not signed, not ranged or of another
  client nothing is said.
\<close>

definition serves ::
  "('u, 'b, 'c, 'r, 'n) env \<Rightarrow> S3Client \<Rightarrow> ('u \<Rightarrow> url_builder) \<Rightarrow> ('u \<Rightarrow> headers) \<Rightarrow> (bytes \<Rightarrow> bytes) \<Rightarrow> bool"
where
  "serves e s3 target_of headers_of store \<longleftrightarrow>
     (\<forall>url i j n response n' b cs.
        request_signed (url_ops e) (crypto_ops e) (clock e) s3 (GET, url, NoBody :: 'c request_body) \<longrightarrow>
        header_in (headers_of url) ''range'' = Some (''bytes='' @ dec_of_nat i @ ''-'' @ dec_of_nat j) \<longrightarrow>
        send_request e GET url NoBody n = (Inr response, n') \<longrightarrow>
        rs_status_code response = 206 \<longrightarrow> get_body response = Inr b \<longrightarrow>
        delivers (body_next_item e) b cs \<longrightarrow> length (concat cs) = j + 1 - i \<longrightarrow>
        concat cs = piece i (j + 1 - i) (store (url_path (target_of url))))"

text \<open>The future of a read, polled in the world \<open>w\<close>; one that does not end is pending.\<close>

definition http_get ::
  "('u, 'b, 'c, 'r, 'n) env \<Rightarrow> S3Reader \<Rightarrow> 'n world \<Rightarrow> PendingRead \<Rightarrow> (bytes, S3Error) result poll"
where
  "http_get e r w p = (case fst (read_future e r p w) of None \<Rightarrow> Pending | Some a \<Rightarrow> Ready a)"

lemma download_range_ok:
  assumes "download_file_range e s3 bucket k start (Some stop) w = (Inr stream, w')" and "\<not> debug_on s3"
  obtains url w1 n response n' b where
    "signed e s3 (with_retries (url_ops e) 3 (object_url e s3 bucket k)) ''GET'' [] w = (Inr url, w1)"
    "send_request e GET (with_range (url_ops e) (Some (start, Some stop)) url) NoBody n = (Inr response, n')"
    "rs_status_code response = 206" "get_body response = Inr b" "socket stream = b"
    "received_bytes stream = 0" "content_length stream = content_length_of response"
proof -
  from assms(1) obtain response w2 where
    o: "open_object e s3 bucket k (Some (start, Some stop)) w = (Inr response, w2)"
    and f: "from_response response = Inr stream"
    by (auto simp: download_file_range_def io_result_def split: if_splits elim!: io_bindD)
  obtain url w1 w3 where
    "signed e s3 (with_retries (url_ops e) 3 (object_url e s3 bucket k)) ''GET'' [] w = (Inr url, w1)"
    and s: "send_get e s3 (with_range (url_ops e) (Some (start, Some stop)) url) w1 = (Inr response, w3)"
    "rs_status_code response = 206"
    using open_object_ok [OF o] by auto
  moreover from s(1) assms(2) obtain n' where
    "send_request e GET (with_range (url_ops e) (Some (start, Some stop)) url) NoBody (net w1) = (Inr response, n')"
    by (auto simp: send_get_def send_def split: prod.splits sum.splits)
  moreover from f obtain b where "get_body response = Inr b" "socket stream = b" "received_bytes stream = 0"
    "content_length stream = content_length_of response"
    by (auto simp: from_response_def try_bind_Inr_iff split: sum.splits)
  ultimately show ?thesis using that by blast
qed

text \<open>The ranged request of a signed object url: signed, for that object's path, with that range.\<close>

lemma ranged_request:
  assumes "url_contract (url_ops e) s3 target_of headers_of"
    and "signed e s3 (with_retries (url_ops e) 3 (object_url e s3 bucket k)) ''GET'' [] w = (Inr u, w')"
    and url: "url = with_range (url_ops e) (Some (start, Some stop)) u"
  shows "request_signed (url_ops e) (crypto_ops e) (clock e) s3 (GET, url, NoBody)"
    "header_in (headers_of url) ''range'' = Some (''bytes='' @ dec_of_nat (unat start) @ ''-'' @ dec_of_nat (unat stop))"
    "target_of url = target_of (object_url e s3 bucket k)"
proof -
  let ?url0 = "with_retries (url_ops e) 3 (object_url e s3 bucket k)"
  have c: "client_url (url_ops e) s3 ?url0" by auto
  have s: "sign_request_with_payload_hash (url_ops e) (crypto_ops e) (clock e (net w)) s3 ?url0 ''GET''
      (hex_encode (crypto_ops e) (sha256 (crypto_ops e) [])) = Inr u"
    using assms(2) by (auto simp: S3_Client.signed_def sign_request_def)
  with c show "request_signed (url_ops e) (crypto_ops e) (clock e) s3 (GET, url, NoBody)"
    unfolding request_signed_def url by fastforce
  show "header_in (headers_of url) ''range'' = Some (''bytes='' @ dec_of_nat (unat start) @ ''-'' @ dec_of_nat (unat stop))"
    using url_contract.range_sent [OF assms(1) s c] by (simp add: url u64_to_string_def)
  show "target_of url = target_of (object_url e s3 bucket k)"
    using url_contract.range_kept [OF assms(1)] url_contract.signed_headers(1) [OF assms(1) s c]
      url_contract.retries(1) [OF assms(1)] by (simp add: url)
qed

lemma http_get_honest:
  assumes "serves e s3 target_of headers_of store" and "url_contract (url_ops e) s3 target_of headers_of"
    and "\<not> debug_on s3" and r: "r_client r = s3" "r_bucket_name r = bucket" "r_key r = k"
  shows "honest (store (url_path (target_of (object_url e s3 bucket k)))) (http_get e r w)"
  unfolding honest_def
proof (intro allI impI)
  fix p body
  assume get: "http_get e r w p = Ready (Inr body)" and len: "length body = requested_len p"
    and req: "requested_len p = unat (get_end p) + 1 - unat (get_start p)"
  obtain s w' where d: "download_file_range e s3 bucket k (get_start p) (Some (get_end p)) w = (s, w')" by fastforce
  with get obtain stream where s: "s = Inr stream"
    and c: "collect_range (body_next_item e) (requested_len p) [] stream = Some (Inr body)"
    by (cases s) (auto simp: http_get_def read_future_def r split: option.splits)
  obtain u w1 n response n' b where
    sg: "signed e s3 (with_retries (url_ops e) 3 (object_url e s3 bucket k)) ''GET'' [] w = (Inr u, w1)"
    and a: "send_request e GET (with_range (url_ops e) (Some (get_start p, Some (get_end p))) u) NoBody n = (Inr response, n')"
    "rs_status_code response = 206" "get_body response = Inr b" "socket stream = b"
    using download_range_ok [OF d [unfolded s] assms(3)] by metis
  note sent = ranged_request [OF assms(2) sg refl, where start = "get_start p" and stop = "get_end p"]
  obtain cs where cs: "delivers (body_next_item e) b cs" "body = concat cs"
    using collect_range_clean [OF c] len a(4) by auto
  moreover have "length (concat cs) = unat (get_end p) + 1 - unat (get_start p)" using len req cs(2) by simp
  ultimately show "body = piece (unat (get_start p)) (requested_len p) (store (url_path (target_of (object_url e s3 bucket k))))"
    using assms(1) [unfolded serves_def, rule_format, OF sent(1,2) a(1-3)] sent(3) req by simp
qed

text \<open>A program over a reader: polls in whatever world, polls that have to wait, and seeks.\<close>

datatype 'n reader_use =
    Poll "'n world" nat
  | Waits nat
  | Seeks SeekFrom

primrec event_of :: "('u, 'b, 'c, 'r, 'n) env \<Rightarrow> S3Reader \<Rightarrow> 'n reader_use \<Rightarrow> reader_event" where
  "event_of e r0 (Poll w n) = ReadInto (http_get e r0 w) n"
| "event_of e r0 (Waits n) = ReadInto (\<lambda>_. Pending) n"
| "event_of e r0 (Seeks whence) = SeekBy whence"

primrec fits :: "'n reader_use \<Rightarrow> bool" where
  "fits (Poll w n) \<longleftrightarrow> n < 2 ^ 64"
| "fits (Waits n) \<longleftrightarrow> n < 2 ^ 64"
| "fits (Seeks whence) \<longleftrightarrow> True"

lemma uses_ok:
  assumes "\<And>w. honest obj (http_get e r0 w)" "list_all fits uses"
  shows "steps_ok reader_step (honest_event obj) r (map (event_of e r0) uses)"
  using assms(2)
proof (induction uses arbitrary: r)
  case (Cons u us)
  then show ?case using assms(1) by (cases u) (auto simp: honest_def [of _ "\<lambda>_. Pending"])
qed simp

lemma open_reader_ok:
  assumes "open_reader e s3 bucket k w0 = (Inr r0, w1)"
  obtains n where "r0 = new_reader s3 bucket k n"
  using assms by (auto simp: open_reader_def io_result_def elim!: io_bindD)

text \<open>An answered range is collected.\<close>

lemma read_future_answered:
  assumes "get_start p \<le> get_end p" and "\<not> debug_on (r_client r)"
    and "signed e (r_client r)
      (with_retries (url_ops e) 3 (object_url e (r_client r) (r_bucket_name r) (r_key r))) ''GET'' [] w = (Inr url, w)"
    and "send_request e GET (with_range (url_ops e) (Some (get_start p, Some (get_end p))) url) NoBody (net w)
      = (Inr response, n)"
    and "rs_status_code response = 206" and "get_body response = Inr b"
    and "delivers (body_next_item e) b cs" and "length (concat cs) = requested_len p"
    and "content_length_of response \<in> {None, Some (of_nat (requested_len p))}"
  shows "fst (read_future e r p w) = Some (Inr (concat cs))"
proof -
  let ?s = "\<lparr>content_length = content_length_of response, content_type = header_of response ''content-type'',
    socket = b, received_bytes = 0\<rparr>"
  have "fst (download_file_range e (r_client r) (r_bucket_name r) (r_key r) (get_start p) (Some (get_end p)) w)
      = Inr ?s"
    using assms(1-6)
    by (simp add: download_file_range_def open_object_def io_bind_def io_result_def send_get_def send_def
        from_response_def)
  moreover have "collect_range (body_next_item e) (requested_len p) [] ?s = Some (Inr (concat cs))"
    using collect_range_delivers [of "body_next_item e" ?s cs "[]" "requested_len p"] assms(7-9)
    by (auto simp: at_end_def)
  ultimately show ?thesis by (simp add: read_future_def prod.case_eq_if)
qed

section \<open>Properties\<close>

text \<open>
  C3: bytes read through the whole stack are the bytes of the object they were asked for, out
  of a storage that has any number of them. A reader that \<open>open_reader\<close> gives for \<open>bucket\<close> and
  \<open>k\<close>, where the storage told the size of the object at their path right, is used in any way
  (reads into buffers of any size, each one's request signed, sent, answered by any status
  and body, kept waiting or failing; seeks in between); a read that then delivers something
  through the signed, ranged \<open>GET\<close> of the client delivers exactly that object's bytes at the
  reader's position, and nothing only at its end or into an empty buffer. The storage owes
  nothing to a request that is not signed by this client or names another path or range.
\<close>

theorem reader_over_http:
  assumes "serves e s3 target_of headers_of store" and "url_contract (url_ops e) s3 target_of headers_of"
    and "\<not> debug_on s3" and "obj = store (url_path (target_of (object_url e s3 bucket k)))"
    and "open_reader e s3 bucket k w0 = (Inr r0, w1)" and "unat (r_size r0) = length obj"
    and "list_all fits uses" and "remaining < 2 ^ 64"
    and "r = run_steps reader_step r0 (map (event_of e r0) uses)"
    and "poll_read (http_get e r0 w) remaining r = (Ready (Inr out), r')"
  shows "out = take (length out) (drop (unat (position r)) obj)
    \<and> unat (position r') = unat (position r) + length out
    \<and> length out \<le> remaining
    \<and> (out = [] \<longrightarrow> remaining = 0 \<or> length obj \<le> unat (position r))"
proof -
  from assms(5) obtain n where r0: "r0 = new_reader s3 bucket k n" by (rule open_reader_ok)
  have "unat n = length obj" using assms(6) r0 by (simp add: new_reader_def)
  then have n: "n = of_nat (length obj)" "length obj < 2 ^ 64"
    using unat_u64_less [of n] by (simp_all flip: \<open>unat n = length obj\<close>)
  have h: "honest obj (http_get e r0 w)" for w
    unfolding assms(4) by (rule http_get_honest [OF assms(1-3)]) (simp_all add: r0 new_reader_def)
  have "at_rest obj r"
    unfolding assms(9)
    by (rule reading.run_from_start [OF _ uses_ok [OF h assms(7)]]) (use n r0 in auto)
  then have "source_inv obj (http_get e r0 w) r" using h by (simp add: source_inv_def)
  from reader_source.read_ready [OF this assms(8,10)] show ?thesis by (simp add: piece_def)
qed

text \<open>
  A storage with two objects of the same size: \<open>ab\<close> at \<open>/b/k\<close> and \<open>xy\<close> everywhere else. It
  knows one range.
\<close>

definition two_objects :: "bytes \<Rightarrow> bytes" where
  "two_objects path = (if path = ''/b/k'' then ''ab'' else ''xy'')"

definition two_storage :: "(plain_request, bytes list, bytes list, cursor, nat) env" where
  "two_storage =
     (canned_env 404 ''0'' [] cursor_reader)
       \<lparr>url_ops := wire_flurl,
        send_request := (\<lambda>meth url body n.
          (Inr (if meth = HEAD then canned_answer 200 ''2'' []
                else if header_in (snd url) ''range'' = Some ''bytes=0-1''
                then canned_answer 206 ''no length'' [two_objects (url_path (fst url))]
                else canned_answer 404 ''0'' []), n + 1))\<rparr>"

text \<open>A storage that has the object \<open>ab\<close> and knows one range of it, to evaluate the model with.\<close>

definition tiny_storage :: "(plain_request, bytes list, bytes list, cursor, nat) env" where
  "tiny_storage =
     (canned_env 404 ''0'' [] cursor_reader)
       \<lparr>send_request := (\<lambda>meth url body n.
          (Inr (if meth = HEAD then canned_answer 200 ''2'' []
                else if snd url \<noteq> [] \<and> last (snd url) = (''Range'', ''bytes=0-1'')
                then canned_answer 206 ''no length'' [''ab'']
                else canned_answer 404 ''0'' []), n + 1))\<rparr>"

lemma dec_of_nat_inj: "dec_of_nat a = dec_of_nat b \<Longrightarrow> a = b"
proof -
  have read_back: "foldl (\<lambda>acc c. 10 * acc + digit_val c) 0 (dec_of_nat n) = n" for n
  proof (induction n rule: dec_of_nat.induct)
    case (1 n)
    have "n mod 10 < 10" by simp
    with 1 show ?case
      by (cases "n < 10") (simp_all add: dec_of_nat.simps [of n] digit_char_props)
  qed
  show "dec_of_nat a = dec_of_nat b \<Longrightarrow> a = b" by (metis read_back)
qed

lemma range_text_inj:
  assumes "dec_of_nat a @ ''-'' @ dec_of_nat b = dec_of_nat c @ ''-'' @ dec_of_nat d"
  shows "a = c \<and> b = d"
proof -
  have no: "CHR ''-'' \<notin> set (dec_of_nat n)" for n by (rule dec_of_nat_no_sep) code_simp
  have "split_once CHR ''-'' (dec_of_nat a @ ''-'' @ dec_of_nat b) = Some (dec_of_nat a, dec_of_nat b)"
    for a b using split_once_append [OF no] by simp
  with assms have "dec_of_nat a = dec_of_nat c" "dec_of_nat b = dec_of_nat d"
    by (metis option.inject prod.inject)+
  then show ?thesis by (blast dest: dec_of_nat_inj)
qed

lemma delivers_list_body: "delivers list_body b cs \<Longrightarrow> cs = b"
proof (induction cs arbitrary: b)
  case Nil
  then show ?case by (cases b) (auto simp: list_body_def)
next
  case (Cons c cs)
  then show ?case by (cases b) (auto simp: list_body_def)
qed

lemma two_serves: "serves two_storage test_client fst snd two_objects"
proof -
  have zero_one: "dec_of_nat 0 @ ''-'' @ dec_of_nat 1 = ''0-1''" by code_simp
  have range: "i = 0 \<and> j = 1" if "dec_of_nat i @ CHR ''-'' # dec_of_nat j = ''0-1''" for i j
    using that range_text_inj [of i j 0 1] unfolding zero_one by simp
  show ?thesis
    unfolding serves_def two_storage_def canned_env_def
    by (auto simp: canned_answer_def sample_response_def piece_def two_objects_def
        list_body_def split: if_splits dest!: delivers_list_body range)
qed

lemma two_urls: "url_contract (url_ops two_storage) test_client fst snd"
  using fake.url_contract_axioms [of cursor_reader] by (simp add: two_storage_def fake_env_def)

lemma two_path: "url_path (fst (object_url two_storage test_client ''b'' ''k'')) = ''/b/k''"
proof -
  have "encode_path ''b'' = ''b''" "encode_path ''k'' = ''k''" by code_simp+
  then show ?thesis by (simp add: two_storage_def)
qed

lemma two_reader: "fst (open_reader two_storage test_client ''b'' ''k'' fresh) = Inr (new_reader test_client ''b'' ''k'' 2)"
proof -
  have "trim ''2'' = ''2''" "dec_of_nat 2 = ''2''" by code_simp+
  then have "content_length_of (canned_answer 200 ''2'' []) = Some 2"
    using parse_u64_dec [of 2] by (simp add: content_length_of_def header_of_def canned_answer_def sample_response_def)
  moreover have "rs_status_code (canned_answer 200 ''2'' []) = 200" by (simp add: canned_answer_def)
  ultimately show ?thesis
    by (simp add: open_reader_def get_object_size_def io_bind_def io_result_def S3_Client.signed_def sign_request_def
        sign_request_with_payload_hash_def two_storage_def canned_env_def send_head_def send_def
        trace_response_def is_success_def test_client_def client_in_region_def new_client_def Let_def)
qed

lemma two_get:
  "http_get two_storage (new_reader test_client ''b'' ''k'' 2) fresh
     \<lparr>get_start = 0, get_end = 1, requested_len = 2\<rparr> = Ready (Inr ''ab'')"
proof -
  let ?s = "\<lparr>content_length = None, content_type = None, socket = [''ab''], received_bytes = 0\<rparr>"
  have "fst (download_file_range two_storage test_client ''b'' ''k'' 0 (Some 1) fresh) = Inr ?s"
    by code_simp
  moreover have "collect_range list_body 2 [] ?s = Some (Inr ''ab'')"
    using collect_range_delivers [of list_body ?s "[''ab'']" "[]" 2]
    by (simp add: at_end_def list_body_def)
  ultimately show ?thesis
    by (simp add: http_get_def read_future_def new_reader_def prod.case_eq_if)
      (simp add: two_storage_def canned_env_def)
qed

theorem reader_over_http_witness:
  "let r0 = new_reader test_client ''b'' ''k'' 2;
       r = run_steps reader_step r0 (map (event_of two_storage r0) [Waits 2, Seeks (Start 1)]);
       out = ''a''
   in fst (poll_read (http_get two_storage r0 fresh) 1 r) = Ready (Inr out)
      \<and> out = take 1 (drop (unat (position r)) (two_objects ''/b/k''))"
proof -
  let ?opened = "new_reader test_client ''b'' ''k'' 2"
  let ?uses = "[Waits 2, Seeks (Start 1)] :: nat reader_use list"
  let ?r = "run_steps reader_step ?opened (map (event_of two_storage ?opened) ?uses)"
  let ?p = "poll_read (http_get two_storage ?opened fresh) 1 ?r"
  have r: "?r = ?opened\<lparr>r_pending := Some \<lparr>get_start = 0, get_end = 1, requested_len = 2\<rparr>\<rparr>"
    by code_simp
  obtain w1 where o: "open_reader two_storage test_client ''b'' ''k'' fresh = (Inr ?opened, w1)"
    using two_reader by (cases "open_reader two_storage test_client ''b'' ''k'' fresh") simp
  have p: "fst ?p = Ready (Inr ''a'')"
    unfolding r by (simp add: poll_read_def poll_request_def two_get [unfolded new_reader_def] drain_leftover_def
        new_reader_def)
  then have out: "?p = (Ready (Inr ''a''), snd ?p)" by (cases ?p) simp
  have off: "\<not> debug_on test_client" by (simp add: test_client_def client_in_region_def new_client_def)
  have obj: "two_objects ''/b/k'' = two_objects (url_path (fst (object_url two_storage test_client ''b'' ''k'')))"
    unfolding two_path ..
  have two: "unat (r_size ?opened) = length (two_objects ''/b/k'')" by (simp add: new_reader_def two_objects_def)
  have fit: "list_all fits ?uses" "(1 :: nat) < 2 ^ 64" by simp_all
  from reader_over_http [OF two_serves two_urls off obj o two fit refl out] p show ?thesis
    unfolding Let_def by simp
qed

text \<open>
  C23: a read whose request is answered delivers. When the reader is idle inside the object
  and the request for the range it needs is answered by a \<open>206\<close> whose body ends after the
  bytes of the range (and whose \<open>Content-Length\<close>, if it has one, says so), the read is ready
  with exactly those bytes: as many as the buffer holds or the object still has, at least
  one; the position moves behind them.
\<close>

theorem answered_read_delivers:
  assumes "leftover r = []" "r_pending r = None" "position r < r_size r" "0 < remaining" "remaining < 2 ^ 64"
    and "\<not> debug_on (r_client r)" and "p = start_read remaining r"
    and "signed e (r_client r)
      (with_retries (url_ops e) 3 (object_url e (r_client r) (r_bucket_name r) (r_key r))) ''GET'' [] w = (Inr url, w)"
    and "send_request e GET (with_range (url_ops e) (Some (get_start p, Some (get_end p))) url) NoBody (net w)
      = (Inr response, n)"
    and "rs_status_code response = 206" and "get_body response = Inr b"
    and "delivers (body_next_item e) b cs" and "length (concat cs) = requested_len p"
    and "content_length_of response \<in> {None, Some (of_nat (requested_len p))}"
  shows "\<exists>r'. poll_read (http_get e r w) remaining r = (Ready (Inr (concat cs)), r')
    \<and> length (concat cs) = min remaining (unat (r_size r) - unat (position r)) \<and> concat cs \<noteq> []
    \<and> unat (position r') = unat (position r) + length (concat cs)"
proof -
  have lt: "unat (position r) < unat (r_size r)" using assms(3) by (simp add: word_less_nat_alt)
  have inside: "\<not> position r \<ge> r_size r" using assms(3) by simp
  have ok: "pending_ok r p" and len: "requested_len p = min remaining (unat (r_size r) - unat (position r))"
    using start_read_ok [OF inside _ assms(5)] assms(4,7) by simp_all
  have le: "get_start p \<le> get_end p"
    using ok by (auto simp: pending_ok_def word_le_nat_alt)
  have get: "http_get e r w p = Ready (Inr (concat cs))"
    unfolding http_get_def read_future_answered [OF le assms(6,8-14)] by simp
  let ?r' = "r\<lparr>leftover := [], position := position r + of_nat (length (concat cs))\<rparr>"
  have short: "length (concat cs) \<le> remaining" "unat (position r) + length (concat cs) < 2 ^ 64"
    using len assms(13) lt unat_u64_less [of "r_size r"] by auto
  have "poll_read (http_get e r w) remaining r = (Ready (Inr (concat cs)), ?r')"
    using assms(1,2,4) inside get assms(7,13) short(1)
    by (simp add: poll_read_def poll_request_def drain_leftover_def Let_def min_def)
  moreover have "unat (position ?r') = unat (position r) + length (concat cs)"
    using short(2) by (simp add: unat_word_ariths unat_of_nat)
  moreover have "concat cs \<noteq> []" using assms(4,13) len lt by (cases "concat cs") auto
  ultimately show ?thesis using assms(13) len by auto
qed

theorem answered_read_delivers_witness:
  "\<exists>r'. poll_read (http_get tiny_storage (new_reader sample_client ''b'' ''k'' 2) fresh) 5
       (new_reader sample_client ''b'' ''k'' 2) = (Ready (Inr ''ab''), r') \<and> unat (position r') = 2"
proof -
  let ?opened = "new_reader sample_client ''b'' ''k'' 2" and ?p = "\<lparr>get_start = 0, get_end = 1, requested_len = 2\<rparr>"
  let ?answer = "canned_answer 206 ''no length'' [''ab'']"
  have p: "?p = start_read 5 ?opened" by code_simp
  have idle: "leftover ?opened = []" "r_pending ?opened = None" "position ?opened < r_size ?opened"
    "\<not> debug_on (r_client ?opened)"
    by (simp_all add: new_reader_def sample_client_def new_client_def)
  obtain url where s: "signed tiny_storage (r_client ?opened) (with_retries (url_ops tiny_storage) 3
      (object_url tiny_storage (r_client ?opened) (r_bucket_name ?opened) (r_key ?opened))) ''GET'' [] fresh = (Inr url, fresh)"
    by (simp add: S3_Client.signed_def sign_request_def sign_request_with_payload_hash_def tiny_storage_def
        canned_env_def plain_flurl_def Let_def)
  have range: "''bytes='' @ u64_to_string 0 @ ''-'' @ u64_to_string 1 = ''bytes=0-1''" by code_simp
  have a: "send_request tiny_storage GET (with_range (url_ops tiny_storage) (Some (get_start ?p, Some (get_end ?p))) url)
      NoBody (net fresh) = (Inr ?answer, 1)"
    using range by (cases url) (simp add: tiny_storage_def canned_env_def with_range_def plain_flurl_def)
  have b: "rs_status_code ?answer = 206" "get_body ?answer = Inr [''ab'']"
    "delivers (body_next_item tiny_storage) [''ab''] [''ab'']" "length (concat [''ab'']) = requested_len ?p"
    by (simp_all add: canned_answer_def sample_response_def tiny_storage_def canned_env_def list_body_def)
  have "content_length_of ?answer = None" by code_simp
  then show ?thesis
    using answered_read_delivers [OF idle(1-3) _ _ idle(4) p s a b] by (auto simp: new_reader_def)
qed

section \<open>Uploads and downloads over HTTP\<close>

text \<open>
  C8: an upload through a writer that returns \<open>Ok\<close> is a stored object. Whatever the producer
  does with its writer while the request runs beside it and after the request has gone, and
  whatever the network does: the producer itself returned \<open>Ok\<close>; exactly \<open>len\<close> bytes went into
  the channel, the first ones it wrote, in order; and the signed \<open>PUT\<close> to this bucket and key
  with this \<open>Content-Length\<close>, whose body is what it received out of that channel, was answered
  with a 2xx.
\<close>

theorem upload_with_writer_stores:
  assumes "len < 2 ^ 64"
    and "upload_with_writer e s3 bucket k len t produce await_producer w = (Inr (), w')"
  shows "\<exists>events w1 w2 events' run1 run2 url w3 response w4.
    produce (new_upload bucket k (of_nat len) DEFAULT_UPLOAD_CHUNK_SIZE) w = (events, w1)
    \<and> run1 = run_steps upload_step (start_run bucket k (of_nat len) DEFAULT_UPLOAD_CHUNK_SIZE) (filter side_by_side events)
    \<and> await_producer run1 w2 = (events', Inr (Inr ()), w')
    \<and> run2 = run_steps upload_step run1 (filter by_producer events')
    \<and> concat (channel (up run2)) = take len (written run2) \<and> length (concat (channel (up run2))) = len
    \<and> signed_with_hash e s3 (set_timeout (url_ops e) t (object_url e s3 bucket k)) ''PUT'' UNSIGNED_PAYLOAD w1
      = (Inr url, w3)
    \<and> send_put_streamed e s3 url (take (received run1) (channel (up run2))) len w3 = (Inr response, w4)
    \<and> is_success (rs_status_code response)"
proof -
  let ?run0 = "start_run bucket k (of_nat len) DEFAULT_UPLOAD_CHUNK_SIZE"
  obtain events w1 where p: "produce (new_upload bucket k (of_nat len) DEFAULT_UPLOAD_CHUNK_SIZE) w = (events, w1)"
    by fastforce
  define run1 where "run1 = run_steps upload_step ?run0 (filter side_by_side events)"
  obtain r w2 where up: "upload_streamed e s3 bucket k (received_body run1) len t w1 = (r, w2)" by fastforce
  obtain events' produced w5 where a: "await_producer run1 w2 = (events', produced, w5)" by (metis prod_cases3)
  define run2 where "run2 = run_steps upload_step run1 (filter by_producer events')"
  have v: "finish_upload_with_writer r produced (state (up run2)) = Inr ()" "w5 = w'"
    using assms(2) p up a by (simp_all add: upload_with_writer_def Let_def start_run_def run1_def run2_def)
  note ok = by_producer.ok_all_sent [OF v(1)] and no_failure = by_producer.verdict_ok [THEN iffD1, OF v(1)]
  have produced: "produced = Inr (Inr ())"
    using no_failure by (auto simp: produce_failure_def split: sum.splits)
  have run2: "run2 = run_steps upload_step ?run0 (filter side_by_side events @ filter by_producer events')"
    by (simp add: run2_def run1_def run_steps_append)
  have "run_of bucket k (of_nat len) DEFAULT_UPLOAD_CHUNK_SIZE run2" unfolding run2 by (rule reachable_run_of)
  note sent = all_sent_written [OF this assms(1) conjunct2 [OF ok]]
  have "received_body run1 = take (received run1) (channel (up run2))"
    unfolding run2_def run1_def by (rule received_stays)
  with upload_streamed_ok [of e s3 bucket k "received_body run1" len t w1] up ok
  obtain url w3 response w4 where
    "signed_with_hash e s3 (set_timeout (url_ops e) t (object_url e s3 bucket k)) ''PUT'' UNSIGNED_PAYLOAD w1 = (Inr url, w3)"
    "send_put_streamed e s3 url (take (received run1) (channel (up run2))) len w3 = (Inr response, w4)"
    "is_success (rs_status_code response)"
    by metis
  then show ?thesis using p a v(2) produced sent run1_def run2_def by metis
qed

text \<open>A producer that offers a byte too many and shuts down, and a request that reads what there is.\<close>

definition eager_producer :: "nat producer" where
  "eager_producer u w = ([Write always_room ''abcd'', Shutdown always_room, Receive], w)"

definition done_producer :: "nat producer_end" where
  "done_producer run w = ([DropWriter], Inr (Inr ()), w)"

theorem upload_with_writer_stores_witness:
  "fst (upload_with_writer (canned_env 200 ''0'' [] cursor_reader) sample_client ''b'' ''k'' 3 9
      eager_producer done_producer fresh) = Inr ()
   \<and> (\<exists>url w3 response w4. send_put_streamed (canned_env 200 ''0'' [] cursor_reader) sample_client url [''abc''] 3 w3
        = (Inr response, w4) \<and> is_success (rs_status_code response))"
proof -
  let ?e = "canned_env 200 ''0'' [] cursor_reader"
  let ?up = "upload_with_writer ?e sample_client ''b'' ''k'' 3 9 eager_producer done_producer fresh"
  let ?run1 = "run_steps upload_step (start_run ''b'' ''k'' (of_nat 3) DEFAULT_UPLOAD_CHUNK_SIZE)
    (filter side_by_side [Write always_room ''abcd'', Shutdown always_room, Receive])"
  let ?run2 = "run_steps upload_step ?run1 (filter by_producer [DropWriter])"
  note run = side_by_side_def by_producer_def start_run_def new_upload_def new_state_def poll_write_def
    poll_pending_def take_bytes_def poll_shutdown_def poll_flush_def start_send_def drive_send_def poll_send_def
    mark_body_started_def mark_body_ended_def drop_writer_def DEFAULT_UPLOAD_CHUNK_SIZE_def
  have ok: "fst ?up = Inr ()"
    by (simp add: upload_with_writer_def eager_producer_def done_producer_def run
        short_body_error_def finish_upload_with_writer_def settle_def canned_upload prod.case_eq_if Let_def)
  then have up: "?up = (Inr (), snd ?up)" by (cases ?up) simp
  have received: "received ?run1 = 1" "channel (up ?run2) = [''abc'']"
    by (simp_all add: run Let_def)
  have three: "(3 :: nat) < 2 ^ 64" by simp
  from upload_with_writer_stores [OF three up] obtain w1 w2 events' run2 url w3 response w4 where
    finished: "done_producer ?run1 w2 = (events', Inr (Inr ()), snd ?up)"
    and run2: "run2 = run_steps upload_step ?run1 (filter by_producer events')"
    and put: "send_put_streamed ?e sample_client url (take (received ?run1) (channel (up run2))) 3 w3 = (Inr response, w4)"
    and success: "is_success (rs_status_code response)"
    unfolding eager_producer_def prod.inject by metis
  from finished have "events' = [DropWriter]" by (simp only: done_producer_def prod.inject)
  with put have "send_put_streamed ?e sample_client url [''abc''] 3 w3 = (Inr response, w4)"
    by (simp only: run2 received) simp
  with ok success show ?thesis by blast
qed

text \<open>
  C22: a download over HTTP is whole or an error. When the signed \<open>GET\<close> is answered by a
  \<open>200\<close> whose body gives the pieces \<open>cs\<close> and ends, \<open>download_file\<close> returns a stream, reading
  it to the end returns, and gives exactly the pieces in order; but when the storage
  promised more bytes than came it is an error, so a truncated object never looks whole.
\<close>

theorem download_over_http:
  assumes "\<not> debug_on s3"
    and "signed e s3 (with_retries (url_ops e) 3 (object_url e s3 bucket k)) ''GET'' [] w = (Inr url, w)"
    and "send_request e GET url NoBody (net w) = (Inr response, n)"
    and "rs_status_code response = 200" and "get_body response = Inr b"
    and "delivers (body_next_item e) b cs" and "length (concat cs) < 2 ^ 64"
  shows "\<exists>stream w'. download_file e s3 bucket k w = (Inr stream, w') \<and> net w' = n
    \<and> (\<exists>self' outcome. read_to_end (body_next_item e) [] stream = Some (outcome, self')
         \<and> unat (received_bytes self') = length (concat cs)
         \<and> (case content_length_of response of
              Some promised \<Rightarrow>
                if length (concat cs) < unat promised then \<exists>err. outcome = Inl err
                else outcome = Inr (concat cs)
            | None \<Rightarrow> outcome = Inr (concat cs)))"
proof -
  let ?s = "\<lparr>content_length = content_length_of response,
    content_type = header_of response ''content-type'', socket = b, received_bytes = 0\<rparr>"
  have "download_file e s3 bucket k w = (Inr ?s, w\<lparr>net := n\<rparr>)"
    using assms(1-5)
    by (simp add: download_file_def open_object_def io_bind_def io_result_def send_get_def send_def
        with_range_def from_response_def trace_response_def)
  moreover obtain b' where "read_to_end (body_next_item e) [] ?s =
      Some (at_end (content_length_of response) (of_nat (length (concat cs))) (concat cs),
        ?s\<lparr>socket := b', received_bytes := of_nat (length (concat cs))\<rparr>)"
    using assms(6) read_to_end_delivers [of "body_next_item e" ?s cs "[]"] by auto
  moreover have "unat (of_nat (length (concat cs)) :: u64) = length (concat cs)"
    using assms(7) by (simp add: unat_of_nat_no_wrap)
  ultimately show ?thesis
    by (auto simp: at_end_def word_less_nat_alt split: option.split)
qed

theorem download_over_http_witness:
  "\<exists>stream w' self'. download_file (canned_env 200 ''9'' [''ab'', ''cde''] cursor_reader) sample_client ''b'' ''k'' fresh
       = (Inr stream, w')
     \<and> (\<exists>err. read_to_end list_body [] stream = Some (Inl err, self'))"
proof -
  let ?e = "canned_env 200 ''9'' [''ab'', ''cde''] cursor_reader"
  let ?r = "canned_answer 200 ''9'' [''ab'', ''cde'']"
  have "trim ''9'' = ''9''" "dec_of_nat 9 = ''9''" by code_simp+
  then have cl: "content_length_of ?r = Some 9"
    using parse_u64_dec [of 9] by (simp add: content_length_of_def header_of_def canned_answer_def sample_response_def)
  obtain url where s: "signed ?e sample_client (with_retries (url_ops ?e) 3 (object_url ?e sample_client ''b'' ''k''))
      ''GET'' [] fresh = (Inr url, fresh)"
    by (simp add: S3_Client.signed_def sign_request_def sign_request_with_payload_hash_def
        canned_env_def plain_flurl_def Let_def)
  have a: "\<not> debug_on sample_client" "send_request ?e GET url NoBody (net fresh) = (Inr ?r, 1)"
    "rs_status_code ?r = 200" "get_body ?r = Inr [''ab'', ''cde'']"
    "delivers (body_next_item ?e) [''ab'', ''cde''] [''ab'', ''cde'']"
    "length (concat [''ab'', ''cde'']) < 2 ^ 64"
    by (simp_all add: sample_client_def new_client_def canned_env_def canned_answer_def sample_response_def list_body_def)
  have "body_next_item ?e = list_body" by (simp add: canned_env_def)
  with download_over_http [OF a(1) s a(2-6)] show ?thesis by (fastforce simp: cl)
qed

section \<open>A listing over HTTP\<close>

text \<open>The url of a listing, before it is signed.\<close>

definition listing_url :: "('u, 'b, 'c, 'r, 'n) env \<Rightarrow> S3Client \<Rightarrow> bytes \<Rightarrow> S3ListObjectsRequest \<Rightarrow> 'u" where
  "listing_url e s3 bucket request =
     with_retries (url_ops e) 3
       (append_raw_ending_to_url (url_ops e) (encode_uri_component bucket ''/'' @ ''?'' @ list_query request)
         (fl_new (url_ops e) (endpoint s3)))"

lemma listing_answered:
  assumes "\<not> debug_on s3" and "signed e s3 (listing_url e s3 bucket request) ''GET'' [] w = (Inr url, w)"
    and "send_request e GET url NoBody (net w) = (Inr response, n)"
    and "is_success (rs_status_code response)" "get_body response = Inr b"
    and "body_into_vec e MAX_ANSWER_SIZE b n = (Inr body, n')"
  shows "list_objects_v2 e s3 bucket request w = (parse_list_objects_v2 (xml_ops e) body, w\<lparr>net := n'\<rparr>)"
  using assms
  by (simp add: list_objects_v2_def listing_answer_def listing_url_def io_bind_def io_result_def send_get_def
      send_def read_success_body_def read_whole_body_def trace_response_def Let_def)

text \<open>
  C21: a listing over HTTP is the page the storage wrote, or an error. When the signed request is
  answered by a 2xx whose body is a document that says the page, in any order of its
  elements and with any others among them, \<open>list_objects_v2\<close> returns exactly that page; when
  the body broke off anywhere inside the document it returns an error that carries what came,
  so part of a bucket never looks like all of it.
\<close>

theorem listing_over_http:
  assumes "\<not> debug_on s3" and "signed e s3 (listing_url e s3 bucket request) ''GET'' [] w = (Inr url, w)"
    and "send_request e GET url NoBody (net w) = (Inr response, n)"
    and "is_success (rs_status_code response)" "get_body response = Inr b"
    and "body_into_vec e MAX_ANSWER_SIZE b n = (Inr body, n')"
    and "document_reader (xml_ops e) view base"
    and "document_ok p (Node ''ListBucketResult'' a ts) q"
    and "says_page ts page" "next_continuation_token page \<noteq> Some []"
    and "body = document p (Node ''ListBucketResult'' a ts) q
      \<or> length p < i \<and> i < length p + length (print_tree (Node ''ListBucketResult'' a ts))
        \<and> body = take i (document p (Node ''ListBucketResult'' a ts) q)"
  shows "list_objects_v2 e s3 bucket request w =
    (Some (if body = document p (Node ''ListBucketResult'' a ts) q then Inr page
           else Inl (not_a_listing ('' ('' @ not_safe @ '')'') body)), w\<lparr>net := n'\<rparr>)"
proof -
  let ?doc = "document p (Node ''ListBucketResult'' a ts) q"
  have whole: "parse_list_objects_v2 (xml_ops e) ?doc = Some (Inr page)"
    using document_reader.listing_parsed [OF assms(7,8)] said_page [OF assms(9,10)] by simp
  show ?thesis
  proof (cases "body = ?doc")
    case True
    then show ?thesis using listing_answered [OF assms(1-6)] whole by simp
  next
    case False
    then have cut: "\<not> is_safe_to_read body" using assms(11) document_cut [OF assms(8)] by blast
    then have "parse_list_objects_v2 (xml_ops e) body = Some (Inl (not_a_listing ('' ('' @ not_safe @ '')'') body))"
      by (simp add: parse_list_objects_v2_def open_walker_def)
    then show ?thesis using listing_answered [OF assms(1-6)] False by simp
  qed
qed

definition small_page :: S3ListObjectsPage where
  "small_page = \<lparr>common_prefixes = [''p/''], objects = [], next_continuation_token = None\<rparr>"

definition small_listing :: bytes where
  "small_listing = document [] (Node ''ListBucketResult'' [] (page_trees small_page)) []"

theorem listing_over_http_witness:
  "fst (list_objects_v2 (canned_env 200 ''9'' [small_listing] cursor_reader) sample_client ''b''
     \<lparr>req_prefix = None, req_delimiter = None, req_continuation_token = None, req_max_keys = None\<rparr> fresh)
   = Some (Inr small_page)"
proof -
  let ?e = "canned_env 200 ''9'' [small_listing] cursor_reader"
  let ?request = "\<lparr>req_prefix = None, req_delimiter = None, req_continuation_token = None, req_max_keys = None\<rparr>"
  let ?r = "canned_answer 200 ''9'' [small_listing]"
  obtain url where s: "signed ?e sample_client (listing_url ?e sample_client ''b'' ?request) ''GET'' [] fresh = (Inr url, fresh)"
    by (simp add: S3_Client.signed_def sign_request_def sign_request_with_payload_hash_def
        listing_url_def canned_env_def plain_flurl_def Let_def)
  have a: "\<not> debug_on sample_client" "send_request ?e GET url NoBody (net fresh) = (Inr ?r, 1)"
    "is_success (rs_status_code ?r)" "get_body ?r = Inr [small_listing]"
    "body_into_vec ?e MAX_ANSWER_SIZE [small_listing] 1 = (Inr small_listing, 1)"
    "document_reader (xml_ops ?e) (\<lambda>r. r) 1"
    using plain_cursor.document_reader_axioms
    by (simp_all add: sample_client_def new_client_def canned_env_def canned_answer_def sample_response_def is_success_def)
  have d: "document_ok [] (Node ''ListBucketResult'' [] (page_trees small_page)) []"
    unfolding document_ok_def header_ok_def by code_simp
  from listing_over_http [OF a(1) s a(2-6) d page_trees_say] show ?thesis
    by (simp add: small_listing_def small_page_def)
qed

end
